(* ===== verification/Go_Errors.thy ===== *)
theory Go_Errors
  imports Prelude
begin

section \<open>Errors: system call numbers, wrapped errors, gRPC statuses\<close>

text \<open>
  The errors that reach the driver: an \<open>errno\<close> (\<open>syscall.Errno\<close>), the \<open>*fs.PathError\<close>
  that package \<open>os\<close> wraps around it, the errors \<open>fmt.Errorf\<close> makes with \<open>%w\<close>, and
  plain texts (\<open>errors.New\<close>, and what \<open>encoding/json\<close> reports). A handler answers with
  a gRPC status: a code and a message. A message is a list of pieces, because \<open>%q\<close>
  quotes its argument; \<open>render\<close> gives the text for a given quoting function.
\<close>

datatype errno =
    EPERM | ENOENT | EIO | EACCES | EBUSY | EEXIST | ENOTDIR | EISDIR | EINVAL
  | ENOSPC | EROFS | ENAMETOOLONG | ENOTEMPTY | OtherErrno nat string

fun errno_text :: "errno \<Rightarrow> string" where
  "errno_text EPERM = ''operation not permitted''"
| "errno_text ENOENT = ''no such file or directory''"
| "errno_text EIO = ''input/output error''"
| "errno_text EACCES = ''permission denied''"
| "errno_text EBUSY = ''device or resource busy''"
| "errno_text EEXIST = ''file exists''"
| "errno_text ENOTDIR = ''not a directory''"
| "errno_text EISDIR = ''is a directory''"
| "errno_text EINVAL = ''invalid argument''"
| "errno_text ENOSPC = ''no space left on device''"
| "errno_text EROFS = ''read-only file system''"
| "errno_text ENAMETOOLONG = ''file name too long''"
| "errno_text ENOTEMPTY = ''directory not empty''"
| "errno_text (OtherErrno n t) = t"

datatype goerror =
    SysError errno                     \<comment> \<open>a bare \<open>syscall.Errno\<close>\<close>
  | PathError string string errno      \<comment> \<open>\<open>*fs.PathError\<close>: operation, path, cause\<close>
  | WrapError string goerror           \<comment> \<open>\<open>fmt.Errorf("<text>: %w", cause)\<close>\<close>
  | TextError string                   \<comment> \<open>an error with a text and no cause\<close>
  | JsonError string                   \<comment> \<open>what \<open>json.Unmarshal\<close> reports of this input\<close>

text \<open>
  The text of an error. An error of \<open>encoding/json\<close> reaches the log only, never a status, so
  its text is left open.
\<close>

fun error_text :: "goerror \<Rightarrow> string" where
  "error_text (SysError e) = errno_text e"
| "error_text (PathError op p e) = op @ '' '' @ p @ '': '' @ errno_text e"
| "error_text (WrapError t e) = t @ '': '' @ error_text e"
| "error_text (TextError t) = t"

text \<open>\<open>errors.Is(err, target)\<close> for an errno follows every cause.\<close>

fun errors_is :: "goerror \<Rightarrow> errno \<Rightarrow> bool" where
  "errors_is (SysError e) target = (e = target)"
| "errors_is (PathError op p e) target = (e = target)"
| "errors_is (WrapError t e) target = errors_is e target"
| "errors_is (TextError t) target = False"
| "errors_is (JsonError t) target = False"

text \<open>\<open>os.IsNotExist\<close> predates \<open>errors.Is\<close>: it looks through a \<open>PathError\<close> only.\<close>

fun os_IsNotExist :: "goerror \<Rightarrow> bool" where
  "os_IsNotExist (SysError e) = (e = ENOENT)"
| "os_IsNotExist (PathError op p e) = (e = ENOENT)"
| "os_IsNotExist (WrapError t e) = False"
| "os_IsNotExist (TextError t) = False"
| "os_IsNotExist (JsonError t) = False"

lemma os_IsNotExist_errors_is: "os_IsNotExist e \<Longrightarrow> errors_is e ENOENT"
  by (cases e) auto

subsection \<open>gRPC statuses\<close>

datatype grpc_code =
    OK | Unknown | InvalidArgument | NotFound | FailedPrecondition | Internal | Unimplemented

datatype piece = Lit string | Quoted string

type_synonym message = "piece list"

record status =
  code :: grpc_code
  message :: message

definition status_Error :: "grpc_code \<Rightarrow> message \<Rightarrow> status" where
  "status_Error c m = \<lparr>code = c, message = m\<rparr>"

lemma status_Error_simps [simp]:
  "code (status_Error c m) = c"
  "message (status_Error c m) = m"
  by (simp_all add: status_Error_def)

lemma status_Error_inject [simp]:
  "status_Error c m = status_Error c' m' \<longleftrightarrow> c = c' \<and> m = m'"
  by (simp add: status_Error_def)

fun piece_text :: "(string \<Rightarrow> string) \<Rightarrow> piece \<Rightarrow> string" where
  "piece_text quote (Lit t) = t"
| "piece_text quote (Quoted t) = quote t"

definition render :: "(string \<Rightarrow> string) \<Rightarrow> message \<Rightarrow> string" where
  "render quote m = concat (map (piece_text quote) m)"

text \<open>\<open>status.Code\<close> of a handler's result: a nil error is \<open>OK\<close>.\<close>

fun status_Code :: "status + 'a \<Rightarrow> grpc_code" where
  "status_Code (Inl s) = code s"
| "status_Code (Inr a) = OK"

end
