(* ===== verification/Go_Flag.thy ===== *)
theory Go_Flag
  imports Go_Errors
begin

section \<open>Go's flag package, strconv.ParseBool and time.ParseDuration\<close>

text \<open>
  What the command line uses of the standard library: a \<open>FlagSet\<close> with string, duration and
  boolean flags under \<open>ContinueOnError\<close>, and the two value parsers. A flag set is a table from
  names to values, first the defaults; parsing updates it. The usage text is one item of the
  output, because it depends on the flag set alone.
\<close>

datatype out_item = Line message | Usage

datatype flag_error = ErrHelp | Problem message

datatype flag_value = StringValue string | DurationValue int | BoolValue bool

subsection \<open>strconv.ParseBool\<close>

definition ParseBool :: "string \<Rightarrow> bool option" where
  "ParseBool s =
     (if s \<in> {''1'', ''t'', ''T'', ''true'', ''TRUE'', ''True''} then Some True
      else if s \<in> {''0'', ''f'', ''F'', ''false'', ''FALSE'', ''False''} then Some False
      else None)"

subsection \<open>Positive float64 values\<close>

text \<open>
  A positive \<open>float64\<close> is a mantissa of 53 bits and an exponent. \<open>round_quot a b e\<close> is the
  float nearest to \<open>a / b * 2^e\<close>, ties to even. The exponent has no bound here: a duration's
  fraction below the least, or divided by a scale above the greatest \<open>float64\<close>, is truncated
  to no nanosecond either way.
\<close>

type_synonym float64 = "int \<times> int"

function round_quot :: "int \<Rightarrow> int \<Rightarrow> int \<Rightarrow> float64" where
  "round_quot a b e =
     (if a \<le> 0 \<or> b \<le> 0 then (0, 0)
      else if a < 0x10000000000000 * b then round_quot (2 * a) b (e - 1)
      else if a \<ge> 0x20000000000000 * b then round_quot a (2 * b) (e + 1)
      else
        let q = a div b; r = a mod b
        in (if 2 * r > b \<or> (2 * r = b \<and> odd q) then q + 1 else q, e))"
  by pat_completeness auto

termination
  by (relation "measure (\<lambda>(a, b, e). nat (0x10000000000000 * b - a) + nat (a - 0x20000000000000 * b + 1))") auto

declare round_quot.simps [simp del]

definition float_of_int :: "int \<Rightarrow> float64" where
  "float_of_int i = round_quot i 1 0"

definition float_times :: "float64 \<Rightarrow> float64 \<Rightarrow> float64" where
  "float_times x y = round_quot (fst x * fst y) 1 (snd x + snd y)"

definition float_divide :: "float64 \<Rightarrow> float64 \<Rightarrow> float64" where
  "float_divide x y = round_quot (fst x) (fst y) (snd x - snd y)"

definition float_truncate :: "float64 \<Rightarrow> int" where
  "float_truncate x =
     (if snd x \<ge> 0 then fst x * 2 ^ nat (snd x) else fst x div 2 ^ nat (- snd x))"

subsection \<open>time.ParseDuration\<close>

definition is_digit :: "char \<Rightarrow> bool" where
  "is_digit c \<longleftrightarrow> CHR ''0'' \<le> c \<and> c \<le> CHR ''9''"

definition digit_value :: "char \<Rightarrow> int" where
  "digit_value c = int (of_char c) - 48"

text \<open>\<open>1<<63\<close>, the least magnitude that no \<open>Duration\<close> but a negative one has.\<close>

definition two63 :: int where
  "two63 = 0x8000000000000000"

fun leadingInt :: "int \<Rightarrow> string \<Rightarrow> (int \<times> string) option" where
  "leadingInt x [] = Some (x, [])"
| "leadingInt x (c # s) =
     (if \<not> is_digit c then Some (x, c # s)
      else if x > two63 div 10 then None
      else
        let y = x * 10 + digit_value c
        in if y > two63 then None else leadingInt y s)"

text \<open>The digits after an overflow are read and dropped.\<close>

fun leadingFraction :: "bool \<Rightarrow> int \<Rightarrow> float64 \<Rightarrow> string \<Rightarrow> int \<times> float64 \<times> string" where
  "leadingFraction overflow x scale [] = (x, scale, [])"
| "leadingFraction overflow x scale (c # s) =
     (if \<not> is_digit c then (x, scale, c # s)
      else if overflow \<or> x > (two63 - 1) div 10 then leadingFraction True x scale s
      else
        let y = x * 10 + digit_value c
        in if y > two63 then leadingFraction True x scale s
           else leadingFraction False y (float_times scale (float_of_int 10)) s)"

definition unit_bytes :: "nat list \<Rightarrow> string" where
  "unit_bytes = map char_of"

definition unitMap :: "(string \<times> int) list" where
  "unitMap =
     [(''ns'', 1), (''us'', 1000), (unit_bytes [0xC2, 0xB5, 0x73], 1000),
      (unit_bytes [0xCE, 0xBC, 0x73], 1000), (''ms'', 1000000), (''s'', 1000000000),
      (''m'', 60000000000), (''h'', 3600000000000)]"

text \<open>One term of a duration: its nanoseconds and the rest, \<open>None\<close> where it is no term.\<close>

definition duration_term :: "string \<Rightarrow> (int \<times> string) option" where
  "duration_term s =
     (case s of
        [] \<Rightarrow> None
      | c # cs \<Rightarrow>
          if \<not> (c = CHR ''.'' \<or> is_digit c) then None
          else case leadingInt 0 s of
            None \<Rightarrow> None
          | Some (v, s1) \<Rightarrow>
              let pre = length s1 \<noteq> length s;
                  (f, scale, s2, post) =
                    (case s1 of
                       [] \<Rightarrow> (0, float_of_int 1, s1, False)
                     | d # s1' \<Rightarrow>
                         if d = CHR ''.'' then
                           (case leadingFraction False 0 (float_of_int 1) s1' of
                              (f, scale, s2) \<Rightarrow> (f, scale, s2, length s2 \<noteq> length s1'))
                         else (0, float_of_int 1, s1, False));
                  u = takeWhile (\<lambda>c. c \<noteq> CHR ''.'' \<and> \<not> is_digit c) s2;
                  s3 = dropWhile (\<lambda>c. c \<noteq> CHR ''.'' \<and> \<not> is_digit c) s2
              in if \<not> pre \<and> \<not> post then None
                 else case map_of unitMap u of
                   None \<Rightarrow> None
                 | Some unit \<Rightarrow>
                     if v > two63 div unit then None
                     else
                       let v = v * unit + (if f > 0 then float_truncate (float_times (float_of_int f)
                             (float_divide (float_of_int unit) scale)) else 0)
                       in if f > 0 \<and> v > two63 then None else Some (v, s3))"

text \<open>The fuel is the length of the text: a term uses up at least one byte.\<close>

fun duration_terms :: "nat \<Rightarrow> int \<Rightarrow> string \<Rightarrow> int option" where
  "duration_terms fuel d [] = Some d"
| "duration_terms 0 d (c # s) = None"
| "duration_terms (Suc fuel) d (c # s) =
     (case duration_term (c # s) of
        None \<Rightarrow> None
      | Some (v, s') \<Rightarrow>
          let d = (d + v) mod 0x10000000000000000
          in if d > two63 then None else duration_terms fuel d s')"

definition ParseDuration :: "string \<Rightarrow> int option" where
  "ParseDuration orig =
     (let (neg, s) = (case orig of
            [] \<Rightarrow> (False, orig)
          | c # cs \<Rightarrow> if c = CHR ''-'' \<or> c = CHR ''+'' then (c = CHR ''-'', cs) else (False, orig))
      in if s = ''0'' then Some 0
         else if s = '''' then None
         else case duration_terms (length s) 0 s of
           None \<Rightarrow> None
         | Some d \<Rightarrow>
             if neg then Some (- d) else if d > two63 - 1 then None else Some d)"

lemma duration_examples:
  "ParseDuration ''10m'' = Some 600000000000" "ParseDuration ''-1.5h'' = Some (-5400000000000)"
  "ParseDuration ''0'' = Some 0" "ParseDuration ''10'' = None" "ParseDuration ''.s'' = None"
  by code_simp+

subsection \<open>FlagSet.Parse\<close>

type_synonym flag_set = "(string \<times> flag_value) list"

datatype flag_token =
    NoFlag                            \<comment> \<open>the first argument that is none, or \<open>--\<close>\<close>
  | BadSyntax
  | Flag string "string option"       \<comment> \<open>the name, and the value after the first \<open>=\<close>\<close>

text \<open>The \<open>=\<close> that splits a flag is never the first byte of its name.\<close>

definition split_value :: "string \<Rightarrow> string \<times> string option" where
  "split_value name =
     (case name of
        [] \<Rightarrow> ([], None)
      | c # cs \<Rightarrow>
          let before = takeWhile (\<lambda>x. x \<noteq> CHR ''='') cs; rest = dropWhile (\<lambda>x. x \<noteq> CHR ''='') cs
          in case rest of
            [] \<Rightarrow> (name, None)
          | e # arg \<Rightarrow> (c # before, Some arg))"

definition flag_token :: "string \<Rightarrow> flag_token" where
  "flag_token s =
     (if length s < 2 \<or> hd s \<noteq> CHR ''-'' \<or> s = ''--'' then NoFlag
      else
        let name = drop (if s ! 1 = CHR ''-'' then 2 else 1) s
        in if name = '''' \<or> hd name = CHR ''-'' \<or> hd name = CHR ''='' then BadSyntax
           else case split_value name of (n, v) \<Rightarrow> Flag n v)"

definition failf :: "message \<Rightarrow> (flag_error + 'a) \<times> out_item list" where
  "failf m = (Inl (Problem m), [Line m, Usage])"

definition set_flag :: "flag_value \<Rightarrow> string \<Rightarrow> flag_value option" where
  "set_flag current arg =
     (case current of
        StringValue s \<Rightarrow> Some (StringValue arg)
      | DurationValue d \<Rightarrow> map_option DurationValue (ParseDuration arg)
      | BoolValue b \<Rightarrow> map_option BoolValue (ParseBool arg))"

definition invalid_value :: "string \<Rightarrow> string \<Rightarrow> message" where
  "invalid_value name arg =
     [Lit ''invalid value '', Quoted arg, Lit ('' for flag -'' @ name @ '': parse error'')]"

text \<open>
  One argument: parsing is over, or it failed, or the flag is set and the arguments after it are
  left.
\<close>

datatype parsed_one =
    Done
  | Failed flag_error "out_item list"
  | Next flag_set "string list"

definition fail_with :: "message \<Rightarrow> parsed_one" where
  "fail_with m = Failed (Problem m) [Line m, Usage]"

definition set_to :: "flag_set \<Rightarrow> string \<Rightarrow> flag_value \<Rightarrow> string \<Rightarrow> string list \<Rightarrow> parsed_one" where
  "set_to flags name current arg args =
     (case set_flag current arg of
        None \<Rightarrow> fail_with (invalid_value name arg)
      | Some v \<Rightarrow> Next (AList.update name v flags) args)"

definition set_bool :: "flag_set \<Rightarrow> string \<Rightarrow> string \<Rightarrow> string list \<Rightarrow> parsed_one" where
  "set_bool flags name arg args =
     (case ParseBool arg of
        None \<Rightarrow> fail_with
          [Lit ''invalid boolean value '', Quoted arg, Lit ('' for -'' @ name @ '': parse error'')]
      | Some b \<Rightarrow> Next (AList.update name (BoolValue b) flags) args)"

fun is_bool :: "flag_value \<Rightarrow> bool" where
  "is_bool (BoolValue b) = True"
| "is_bool v = False"

definition set_given ::
  "flag_set \<Rightarrow> string \<Rightarrow> flag_value \<Rightarrow> string option \<Rightarrow> string list \<Rightarrow> parsed_one"
where
  "set_given flags name current given args =
     (if is_bool current then
        set_bool flags name (case given of Some v \<Rightarrow> v | None \<Rightarrow> ''true'') args
      else case given of
        Some arg \<Rightarrow> set_to flags name current arg args
      | None \<Rightarrow>
          (case args of
             [] \<Rightarrow> fail_with [Lit (''flag needs an argument: -'' @ name)]
           | arg # args' \<Rightarrow> set_to flags name current arg args'))"

definition parseOne :: "flag_set \<Rightarrow> string list \<Rightarrow> parsed_one" where
  "parseOne flags args =
     (case args of
        [] \<Rightarrow> Done
      | s # args' \<Rightarrow>
          (case flag_token s of
             NoFlag \<Rightarrow> Done
           | BadSyntax \<Rightarrow> fail_with [Lit (''bad flag syntax: '' @ s)]
           | Flag name given \<Rightarrow>
               (case map_of flags name of
                  None \<Rightarrow>
                    if name = ''help'' \<or> name = ''h'' then Failed ErrHelp [Usage]
                    else fail_with [Lit (''flag provided but not defined: -'' @ name)]
                | Some current \<Rightarrow> set_given flags name current given args')))"

lemma set_to_Next:
  "set_to flags name current arg args = Next flags' args' \<Longrightarrow>
     args' = args \<and> (\<exists>v. set_flag current arg = Some v \<and> flags' = AList.update name v flags)"
  by (auto simp: set_to_def fail_with_def split: option.splits)

lemma set_bool_Next:
  "set_bool flags name arg args = Next flags' args' \<Longrightarrow>
     args' = args \<and> (\<exists>b. flags' = AList.update name (BoolValue b) flags)"
  by (auto simp: set_bool_def fail_with_def split: option.splits)

lemma parseOne_Next:
  assumes "parseOne flags args = Next flags' args'"
  shows "length args' < length args"
    "\<exists>name v w. map_of flags name = Some v \<and> flags' = AList.update name w flags \<and>
       (is_bool v \<and> is_bool w \<or> \<not> is_bool v \<and> (\<exists>s. set_flag v s = Some w))"
proof -
  have "length args' < length args \<and> (\<exists>name v w. map_of flags name = Some v \<and>
      flags' = AList.update name w flags \<and>
      (is_bool v \<and> is_bool w \<or> \<not> is_bool v \<and> (\<exists>s. set_flag v s = Some w)))"
  proof -
    obtain s rest name given current where a: "args = s # rest" "map_of flags name = Some current"
      and g: "set_given flags name current given rest = Next flags' args'"
      using assms by (auto simp: parseOne_def fail_with_def split: list.splits flag_token.splits option.splits if_splits)
    show ?thesis
    proof (cases "is_bool current")
      case True
      with g obtain b where "args' = rest" "flags' = AList.update name (BoolValue b) flags"
        by (auto simp: set_given_def dest: set_bool_Next)
      moreover have "is_bool (BoolValue b)" by simp
      ultimately show ?thesis using a True by (metis length_Cons lessI)
    next
      case False
      with g obtain s w where "length args' \<le> length rest" "set_flag current s = Some w"
        "flags' = AList.update name w flags"
        by (fastforce simp: set_given_def fail_with_def split: option.splits list.splits dest: set_to_Next)
      then show ?thesis using a False by (metis length_Cons less_Suc_eq_le)
    qed
  qed
  then show "length args' < length args"
    "\<exists>name v w. map_of flags name = Some v \<and> flags' = AList.update name w flags \<and>
       (is_bool v \<and> is_bool w \<or> \<not> is_bool v \<and> (\<exists>s. set_flag v s = Some w))" by auto
qed

function flag_Parse :: "flag_set \<Rightarrow> string list \<Rightarrow> (flag_error + flag_set) \<times> out_item list" where
  "flag_Parse flags args =
     (case parseOne flags args of
        Done \<Rightarrow> (Inr flags, [])
      | Failed err out \<Rightarrow> (Inl err, out)
      | Next flags' args' \<Rightarrow> flag_Parse flags' args')"
  by pat_completeness auto

termination
  by (relation "measure (length \<circ> snd)") (auto dest: parseOne_Next(1))

declare flag_Parse.simps [simp del]

subsection \<open>Facts\<close>

lemma flag_Parse_Nil [simp]: "flag_Parse flags [] = (Inr flags, [])"
  by (simp add: flag_Parse.simps [of flags] parseOne_def)

lemma flag_Parse_Next: "parseOne flags args = Next flags' args' \<Longrightarrow> flag_Parse flags args = flag_Parse flags' args'"
  by (simp add: flag_Parse.simps [of flags args])

lemma parseOne_Failed: "parseOne flags args = Failed err out \<Longrightarrow> out \<noteq> []"
  by (auto simp: parseOne_def set_given_def set_to_def set_bool_def fail_with_def
      split: list.splits flag_token.splits option.splits if_splits)

text \<open>A parse that succeeds prints nothing; one that fails prints something.\<close>

lemma flag_Parse_output: "flag_Parse flags args = (r, out) \<Longrightarrow> (\<exists>fs. r = Inr fs) \<longleftrightarrow> out = []"
proof (induction flags args arbitrary: r out rule: flag_Parse.induct)
  case (1 flags args)
  then show ?case
    using flag_Parse.simps [of flags args] parseOne_Failed [of flags args]
    by (cases "parseOne flags args") auto
qed

text \<open>Parsing changes values, never the names or the kinds of the flags.\<close>

fun same_kind :: "flag_value \<Rightarrow> flag_value \<Rightarrow> bool" where
  "same_kind (StringValue s) (StringValue t) = True"
| "same_kind (DurationValue c) (DurationValue d) = True"
| "same_kind (BoolValue a) (BoolValue b) = True"
| "same_kind v w = False"

lemma same_kind_refl [simp]: "same_kind v v"
  by (cases v) auto

lemma same_kind_trans: "same_kind u v \<Longrightarrow> same_kind v w \<Longrightarrow> same_kind u w"
  by (cases u; cases v; cases w) auto

lemma set_flag_kind: "set_flag v s = Some w \<Longrightarrow> same_kind v w"
  by (cases v) (auto simp: set_flag_def)

lemma is_bool_kind: "is_bool v \<Longrightarrow> is_bool w \<Longrightarrow> same_kind v w"
  by (cases v; cases w) auto

lemma flag_Parse_kinds:
  "flag_Parse flags args = (Inr flags', out) \<Longrightarrow> map_of flags name = Some v \<Longrightarrow>
     \<exists>w. map_of flags' name = Some w \<and> same_kind v w"
proof (induction flags args arbitrary: v rule: flag_Parse.induct)
  case (1 flags args)
  show ?case
  proof (cases "parseOne flags args")
    case (Next flags1 args1)
    then obtain x u z where x: "map_of flags x = Some u" "flags1 = AList.update x z flags" "same_kind u z"
      using parseOne_Next(2) [OF Next] set_flag_kind is_bool_kind by blast
    then obtain v1 where v1: "map_of flags1 name = Some v1" "same_kind v v1"
      using 1(3) by (cases "x = name") auto
    have "flag_Parse flags1 args1 = (Inr flags', out)" using 1(2) flag_Parse_Next [OF Next] by simp
    from 1(1) [OF Next this v1(1)] show ?thesis using v1(2) same_kind_trans by blast
  qed (use 1 flag_Parse.simps [of flags args] in auto)
qed

end
