(* ===== verification/Cli.thy ===== *)
theory Cli
  imports Go_Flag
begin

section \<open>cli.go: the command line\<close>

text \<open>
  The flags of the driver, the configuration they resolve to, and what \<open>parse\<close> prints. The
  version of the build is a variable that the linker sets, so it is an argument. The properties
  say when \<open>parse\<close> answers a configuration, an error or neither, and that it reads back every
  configuration that is written as flags.
\<close>

record config =
  endpoint :: string
  cfg_nodeID :: string
  cfg_store :: string
  cfg_metrics :: string
  sweepEvery :: int                     \<comment> \<open>nanoseconds\<close>

definition defaultStore :: string where
  "defaultStore = ''/var/lib/liken/pod-storage/per-node''"

definition defaultSweepEvery :: int where
  "defaultSweepEvery = 10 * 60000000000"

text \<open>The flag set as \<open>parse\<close> declares it, with the default of each flag.\<close>

definition driver_flags :: flag_set where
  "driver_flags =
     [(''endpoint'', StringValue ''unix:///csi/csi.sock''), (''node-id'', StringValue ''''),
      (''store'', StringValue defaultStore), (''metrics'', StringValue '':9200''),
      (''sweep-every'', DurationValue defaultSweepEvery), (''version'', BoolValue False)]"

definition string_flag :: "flag_set \<Rightarrow> string \<Rightarrow> string" where
  "string_flag flags name = (case map_of flags name of Some (StringValue s) \<Rightarrow> s | _ \<Rightarrow> '''')"

definition duration_flag :: "flag_set \<Rightarrow> string \<Rightarrow> int" where
  "duration_flag flags name = (case map_of flags name of Some (DurationValue d) \<Rightarrow> d | _ \<Rightarrow> 0)"

definition bool_flag :: "flag_set \<Rightarrow> string \<Rightarrow> bool" where
  "bool_flag flags name = (case map_of flags name of Some (BoolValue b) \<Rightarrow> b | _ \<Rightarrow> False)"

definition report :: "out_item list \<Rightarrow> message \<Rightarrow> (flag_error + 'a) \<times> out_item list" where
  "report out err = (Inl (Problem err), out @ [Line err])"

definition parse :: "string \<Rightarrow> string list \<Rightarrow> (flag_error + config option) \<times> out_item list" where
  "parse version args =
     (case flag_Parse driver_flags args of
        (Inl err, out) \<Rightarrow> (Inl err, out)
      | (Inr flags, out) \<Rightarrow>
          if bool_flag flags ''version'' then (Inr None, out @ [Line [Lit version]])
          else if string_flag flags ''node-id'' = '''' then
            report out [Lit ''--node-id is required'']
          else
            (Inr (Some \<lparr>endpoint = string_flag flags ''endpoint'', cfg_nodeID = string_flag flags ''node-id'',
               cfg_store = string_flag flags ''store'', cfg_metrics = string_flag flags ''metrics'',
               sweepEvery = duration_flag flags ''sweep-every''\<rparr>), out))"

subsection \<open>A flag written with its value\<close>

definition flag_arg :: "string \<Rightarrow> string \<Rightarrow> string" where
  "flag_arg name arg = ''--'' @ name @ ''='' @ arg"

fun flag_name :: "string \<Rightarrow> bool" where
  "flag_name [] = False"
| "flag_name (c # s) = (c \<noteq> CHR ''-'' \<and> c \<noteq> CHR ''='' \<and> CHR ''='' \<notin> set s)"

lemma split_value_arg:
  assumes "flag_name name"
  shows "split_value (name @ CHR ''='' # arg) = (name, Some arg)"
proof (cases name)
  case (Cons c cs)
  then have "takeWhile (\<lambda>x. x \<noteq> CHR ''='') (cs @ CHR ''='' # arg) = cs"
    "dropWhile (\<lambda>x. x \<noteq> CHR ''='') (cs @ CHR ''='' # arg) = CHR ''='' # arg"
    using assms by (auto simp: takeWhile_append dropWhile_append)
  then show ?thesis by (simp add: Cons split_value_def)
qed (use assms in simp)

lemma flag_token_arg: "flag_name name \<Longrightarrow> flag_token (flag_arg name arg) = Flag name (Some arg)"
  using split_value_arg [of name arg]
  by (cases name) (auto simp: flag_token_def flag_arg_def)

lemma parseOne_arg:
  assumes "flag_name name" "map_of flags name = Some v" "\<not> is_bool v" "set_flag v arg = Some w"
  shows "parseOne flags (flag_arg name arg # args) = Next (AList.update name w flags) args"
  using assms by (simp add: parseOne_def flag_token_arg set_given_def set_to_def)

lemma flag_Parse_arg:
  "flag_name name \<Longrightarrow> map_of flags name = Some v \<Longrightarrow> \<not> is_bool v \<Longrightarrow> set_flag v arg = Some w \<Longrightarrow>
     flag_Parse flags (flag_arg name arg # args) = flag_Parse (AList.update name w flags) args"
  by (rule flag_Parse_Next) (rule parseOne_arg)

subsection \<open>A duration written in nanoseconds\<close>

definition duration_text :: "int \<Rightarrow> string" where
  "duration_text d = (if d < 0 then ''-'' else '''') @ nat_text (nat \<bar>d\<bar>) @ ''ns''"

lemma digit_char_digit: "k < 10 \<Longrightarrow> is_digit (digit_char k) \<and> digit_value (digit_char k) = int k"
  by (simp add: is_digit_def digit_value_def digit_char_def less_eq_char_def)

lemma leadingInt_nat_text:
  "int n \<le> two63 \<Longrightarrow> leadingInt 0 (nat_text n @ t) = leadingInt (int n) t"
proof (induction n arbitrary: t rule: nat_text.induct)
  case (1 n)
  show ?case
  proof (cases "n < 10")
    case True
    then show ?thesis
      using digit_char_digit [OF True] by (simp add: nat_text.simps [of n] two63_def)
  next
    case False
    have le: "int (n div 10) \<le> two63" "int (n div 10) \<le> two63 div 10"
      using 1(2) by (simp_all add: zdiv_int zdiv_mono1)
    have n: "int (n div 10) * 10 + int (n mod 10) = int n" by presburger
    have "leadingInt 0 (nat_text n @ t) = leadingInt (int (n div 10)) (digit_char (n mod 10) # t)"
      using False 1(1) [OF False le(1)] by (simp add: nat_text.simps [of n])
    also have "\<dots> = leadingInt (int n) t"
      using digit_char_digit [of "n mod 10"] le(2) n 1(2) by (simp add: Let_def not_less)
    finally show ?thesis .
  qed
qed

lemma nat_text_digits: "c \<in> set (nat_text n) \<Longrightarrow> is_digit c"
proof (induction n rule: nat_text.induct)
  case (1 n)
  then show ?case
    using digit_char_digit [of n] digit_char_digit [of "n mod 10"]
    by (subst (asm) nat_text.simps [of n]) (auto split: if_splits)
qed

lemma duration_term_ns:
  assumes "int n \<le> two63"
  shows "duration_term (nat_text n @ ''ns'') = Some (int n, '''')"
proof -
  obtain c cs where c: "nat_text n = c # cs" by (cases "nat_text n") auto
  then have d: "is_digit c" using nat_text_digits [of c n] by simp
  have nd: "\<not> is_digit CHR ''n''" "\<not> is_digit CHR ''s''" by code_simp+
  have l: "leadingInt 0 (nat_text n @ ''ns'') = Some (int n, ''ns'')"
    using leadingInt_nat_text [OF assms, of "''ns''"] nd by simp
  have u: "map_of unitMap ''ns'' = Some 1" by (simp add: unitMap_def)
  show ?thesis
    using l d nd u assms by (simp add: duration_term_def c Let_def)
qed

lemma ParseDuration_text:
  assumes "- two63 \<le> d" "d < two63"
  shows "ParseDuration (duration_text d) = Some d"
proof -
  let ?n = "nat \<bar>d\<bar>"
  obtain c cs where c: "nat_text ?n = c # cs" by (cases "nat_text ?n") auto
  then have "is_digit c" using nat_text_digits [of c ?n] by simp
  then have nc: "c \<noteq> CHR ''-''" "c \<noteq> CHR ''+''" by (auto simp: is_digit_def less_eq_char_def)
  have n: "int ?n \<le> two63" using assms by simp
  have "duration_terms (length (nat_text ?n @ ''ns'')) 0 (nat_text ?n @ ''ns'') = Some (int ?n)"
    using duration_term_ns [OF n] n by (simp add: c two63_def Let_def)
  then show ?thesis
    using assms nc by (auto simp: ParseDuration_def duration_text_def c Let_def)
qed

subsection \<open>The range of a duration\<close>

lemma duration_terms_range: "0 \<le> d \<Longrightarrow> d \<le> two63 \<Longrightarrow> duration_terms fuel d s = Some r \<Longrightarrow> 0 \<le> r \<and> r \<le> two63"
  by (induction fuel d s rule: duration_terms.induct) (auto simp: Let_def split: option.splits if_splits)

lemma ParseDuration_range: "ParseDuration s = Some d \<Longrightarrow> - two63 \<le> d \<and> d < two63"
proof -
  assume p: "ParseDuration s = Some d"
  have z: "0 \<le> two63" "- two63 \<le> 0" "0 < two63" by (simp_all add: two63_def)
  have r: "\<And>fuel t r. duration_terms fuel 0 t = Some r \<Longrightarrow> 0 \<le> r \<and> r \<le> two63"
    using duration_terms_range [of 0] z by simp
  show ?thesis
    using p z by (auto simp: ParseDuration_def Let_def split: prod.splits if_splits option.splits dest!: r)
qed

definition in_range :: "flag_set \<Rightarrow> bool" where
  "in_range flags \<longleftrightarrow> (\<forall>name d. map_of flags name = Some (DurationValue d) \<longrightarrow> - two63 \<le> d \<and> d < two63)"

lemma flag_Parse_in_range:
  "flag_Parse flags args = (Inr flags', out) \<Longrightarrow> in_range flags \<Longrightarrow> in_range flags'"
proof (induction flags args rule: flag_Parse.induct)
  case (1 flags args)
  show ?case
  proof (cases "parseOne flags args")
    case (Next flags1 args1)
    then obtain x u z where x: "map_of flags x = Some u" "flags1 = AList.update x z flags"
      "is_bool u \<and> is_bool z \<or> \<not> is_bool u \<and> (\<exists>s. set_flag u s = Some z)"
      using parseOne_Next(2) [OF Next] by blast
    have "- two63 \<le> d \<and> d < two63" if "z = DurationValue d" for d
      using x(3) that by (cases u) (auto simp: set_flag_def dest: ParseDuration_range)
    then have "in_range flags1" using 1(3) x(2) by (auto simp: in_range_def)
    then show ?thesis using 1(1) [OF Next] 1(2) flag_Parse_Next [OF Next] by simp
  qed (use 1 flag_Parse.simps [of flags args] in auto)
qed

lemma driver_flags_in_range: "in_range driver_flags"
  by (auto simp: in_range_def driver_flags_def two63_def defaultSweepEvery_def split: if_splits)

text \<open>What each kind of answer prints.\<close>

lemma parse_output:
  "parse version args = (Inl err, out) \<Longrightarrow> out \<noteq> []"
  "parse version args = (Inr None, out) \<Longrightarrow> out = [Line [Lit version]]"
  "parse version args = (Inr (Some c), out) \<Longrightarrow> out = [] \<and> cfg_nodeID c \<noteq> ''''"
  using flag_Parse_output [of driver_flags args]
  by (auto simp: parse_def report_def split: prod.splits sum.splits if_splits)

subsection \<open>Properties\<close>

text \<open>A configuration written as flags.\<close>

definition args_of :: "config \<Rightarrow> string list" where
  "args_of c =
     [flag_arg ''endpoint'' (endpoint c), flag_arg ''node-id'' (cfg_nodeID c), flag_arg ''store'' (cfg_store c),
      flag_arg ''metrics'' (cfg_metrics c), flag_arg ''sweep-every'' (duration_text (sweepEvery c))]"

text \<open>
  C33. \<open>parse\<close> reads back every configuration that is written as flags, with any text in the
  values and any interval a \<open>time.Duration\<close> can hold, zero and the negative ones included, and
  prints nothing.
\<close>

theorem parse_reads_back:
  assumes "cfg_nodeID c \<noteq> ''''" "- (2 ^ 63) \<le> sweepEvery c" "sweepEvery c < 2 ^ 63"
  shows "parse version (args_of c) = (Inr (Some c), [])"
proof -
  have d: "ParseDuration (duration_text (sweepEvery c)) = Some (sweepEvery c)"
    using assms(2,3) by (intro ParseDuration_text) (simp_all add: two63_def)
  have n: "flag_name ''endpoint''" "flag_name ''node-id''" "flag_name ''store''" "flag_name ''metrics''"
    "flag_name ''sweep-every''"
    by simp_all
  let ?f = "[(''endpoint'', StringValue (endpoint c)), (''node-id'', StringValue (cfg_nodeID c)),
      (''store'', StringValue (cfg_store c)), (''metrics'', StringValue (cfg_metrics c)),
      (''sweep-every'', DurationValue (sweepEvery c)), (''version'', BoolValue False)]"
  have "flag_Parse driver_flags (args_of c) = (Inr ?f, [])"
    unfolding args_of_def driver_flags_def
    by (simp add: flag_Parse_arg [OF n(1)] flag_Parse_arg [OF n(2)] flag_Parse_arg [OF n(3)]
        flag_Parse_arg [OF n(4)] flag_Parse_arg [OF n(5)] set_flag_def d)
  then show ?thesis
    using assms(1) by (simp add: parse_def bool_flag_def string_flag_def duration_flag_def)
qed

lemma parse_reads_back_witness:
  "parse ''dev'' [''--endpoint=unix:///csi/csi.sock'', ''--node-id=worker=1'', ''--store=/store'', ''--metrics='',
      ''--sweep-every=-1ns''] =
    (Inr (Some \<lparr>endpoint = ''unix:///csi/csi.sock'', cfg_nodeID = ''worker=1'', cfg_store = ''/store'',
       cfg_metrics = '''', sweepEvery = -1\<rparr>), [])"
proof -
  have "duration_text (-1) = ''-1ns''" by code_simp
  then show ?thesis
    using parse_reads_back [of "\<lparr>endpoint = ''unix:///csi/csi.sock'', cfg_nodeID = ''worker=1'',
        cfg_store = ''/store'', cfg_metrics = '''', sweepEvery = -1\<rparr>" "''dev''"]
    by (simp add: args_of_def flag_arg_def)
qed

text \<open>
  C34. The three answers of \<open>parse\<close>: an error is always printed, an answer without a
  configuration prints the version and nothing else, and a configuration prints nothing, names a
  node, and has an interval that fits 64 bits.
\<close>

theorem parse_answers:
  "case parse version args of
     (Inl err, out) \<Rightarrow> out \<noteq> []
   | (Inr None, out) \<Rightarrow> out = [Line [Lit version]]
   | (Inr (Some c), out) \<Rightarrow>
       out = [] \<and> cfg_nodeID c \<noteq> '''' \<and> - (2 ^ 63) \<le> sweepEvery c \<and> sweepEvery c < 2 ^ 63"
proof -
  obtain r out where f: "flag_Parse driver_flags args = (r, out)" by fastforce
  note o = flag_Parse_output [OF f]
  show ?thesis
  proof (cases r)
    case (Inl err)
    then show ?thesis using f o by (simp add: parse_def)
  next
    case (Inr flags)
    have "map_of driver_flags ''sweep-every'' = Some (DurationValue defaultSweepEvery)"
      by (simp add: driver_flags_def)
    then obtain v where v: "map_of flags ''sweep-every'' = Some v" "same_kind (DurationValue defaultSweepEvery) v"
      using flag_Parse_kinds [OF f [unfolded Inr]] by blast
    then obtain d where d: "v = DurationValue d" by (cases v) auto
    have "in_range flags" using flag_Parse_in_range [OF f [unfolded Inr] driver_flags_in_range] .
    then have "- two63 \<le> d \<and> d < two63" using v d by (auto simp: in_range_def)
    moreover have "duration_flag flags ''sweep-every'' = d" using v d by (simp add: duration_flag_def)
    ultimately show ?thesis using f o Inr by (simp add: parse_def report_def two63_def)
  qed
qed

end
