(* ===== verification/Go_Regexp.thy ===== *)
theory Go_Regexp
  imports Prelude
begin

section \<open>The regular expressions of package regexp that the driver uses\<close>

text \<open>
  The syntax that \<open>handleShape\<close> needs: byte classes given by ranges, concatenation, the
  operators \<open>*\<close> and \<open>?\<close>, between \<open>^\<close> and \<open>$\<close>. Without the \<open>m\<close> flag
  those two anchors match at the ends of the text only, so \<open>MatchString\<close> of an anchored
  expression asks whether the whole text is in its language. \<open>in_lang\<close> is that language;
  \<open>re_match\<close> decides it by derivatives.
\<close>

datatype regexp =
    NoMatch
  | Eps
  | Class "(char \<times> char) list"
  | Seq regexp regexp
  | Alt regexp regexp
  | Star regexp

definition Opt :: "regexp \<Rightarrow> regexp" where
  "Opt r = Alt Eps r"

definition in_class :: "char \<Rightarrow> (char \<times> char) list \<Rightarrow> bool" where
  "in_class c rs = list_ex (\<lambda>(lo, hi). lo \<le> c \<and> c \<le> hi) rs"

inductive in_lang :: "regexp \<Rightarrow> string \<Rightarrow> bool" where
  eps: "in_lang Eps []"
| cls: "in_class c rs \<Longrightarrow> in_lang (Class rs) [c]"
| seq: "in_lang r s \<Longrightarrow> in_lang q t \<Longrightarrow> in_lang (Seq r q) (s @ t)"
| alt1: "in_lang r s \<Longrightarrow> in_lang (Alt r q) s"
| alt2: "in_lang q s \<Longrightarrow> in_lang (Alt r q) s"
| star0: "in_lang (Star r) []"
| star1: "in_lang r s \<Longrightarrow> in_lang (Star r) t \<Longrightarrow> in_lang (Star r) (s @ t)"

inductive_simps in_lang_NoMatch [simp]: "in_lang NoMatch s"
inductive_simps in_lang_Eps [simp]: "in_lang Eps s"
inductive_simps in_lang_Class [simp]: "in_lang (Class rs) s"
inductive_simps in_lang_Seq: "in_lang (Seq r q) s"
inductive_simps in_lang_Alt [simp]: "in_lang (Alt r q) s"

fun nullable :: "regexp \<Rightarrow> bool" where
  "nullable NoMatch = False"
| "nullable Eps = True"
| "nullable (Class rs) = False"
| "nullable (Seq r q) = (nullable r \<and> nullable q)"
| "nullable (Alt r q) = (nullable r \<or> nullable q)"
| "nullable (Star r) = True"

text \<open>What is left of an expression once one byte has been read.\<close>

fun after_byte :: "char \<Rightarrow> regexp \<Rightarrow> regexp" where
  "after_byte c (Class rs) = (if in_class c rs then Eps else NoMatch)"
| "after_byte c (Seq r q) =
     (let left = Seq (after_byte c r) q
      in if nullable r then Alt left (after_byte c q) else left)"
| "after_byte c (Alt r q) = Alt (after_byte c r) (after_byte c q)"
| "after_byte c (Star r) = Seq (after_byte c r) (Star r)"
| "after_byte c r = NoMatch"

fun re_match :: "regexp \<Rightarrow> string \<Rightarrow> bool" where
  "re_match r [] = nullable r"
| "re_match r (c # s) = re_match (after_byte c r) s"

lemma nullable_in_lang: "nullable r \<longleftrightarrow> in_lang r []"
  by (induction r) (auto simp: in_lang_Seq intro: in_lang.star0)

lemma star_Cons:
  assumes "in_lang (Star r) (c # s)"
  shows "\<exists>t u. s = t @ u \<and> in_lang r (c # t) \<and> in_lang (Star r) u"
  using assms
proof (induction "Star r" "c # s" arbitrary: s rule: in_lang.induct)
  case (star1 w t)
  then show ?case by (cases w) auto
qed

lemma in_lang_after_byte: "in_lang (after_byte c r) s \<longleftrightarrow> in_lang r (c # s)"
proof (induction r arbitrary: s)
  case (Seq r q)
  show ?case
    by (auto simp: in_lang_Seq Seq.IH nullable_in_lang Cons_eq_append_conv Let_def)
next
  case (Star r)
  show ?case
  proof
    assume "in_lang (after_byte c (Star r)) s"
    then obtain t u where "s = t @ u" "in_lang r (c # t)" "in_lang (Star r) u"
      by (auto simp: in_lang_Seq Star.IH)
    then show "in_lang (Star r) (c # s)"
      using in_lang.star1 [of r "c # t" u] by simp
  next
    assume "in_lang (Star r) (c # s)"
    then show "in_lang (after_byte c (Star r)) s"
      by (auto simp: in_lang_Seq Star.IH dest!: star_Cons)
  qed
qed auto

lemma re_match_in_lang: "re_match r s \<longleftrightarrow> in_lang r s"
  by (induction s arbitrary: r) (simp_all add: nullable_in_lang in_lang_after_byte)

subsection \<open>The languages of a repeated class and of a repeated separator\<close>

lemma in_lang_Opt [simp]: "in_lang (Opt r) s \<longleftrightarrow> s = [] \<or> in_lang r s"
  by (auto simp: Opt_def)

lemma in_lang_Star_Class: "in_lang (Star (Class rs)) s \<longleftrightarrow> (\<forall>c \<in> set s. in_class c rs)"
proof
  assume "in_lang (Star (Class rs)) s"
  then show "\<forall>c \<in> set s. in_class c rs"
    by (induction "Star (Class rs)" s rule: in_lang.induct) auto
next
  assume "\<forall>c \<in> set s. in_class c rs"
  then show "in_lang (Star (Class rs)) s"
  proof (induction s)
    case (Cons c s)
    then have "in_lang (Star (Class rs)) ([c] @ s)"
      by (intro in_lang.star1) auto
    then show ?case by simp
  qed (rule in_lang.star0)
qed

lemma in_lang_Star_sep:
  "in_lang (Star (Seq (Class [(d, d)]) r)) s
     \<longleftrightarrow> (\<exists>ws. (\<forall>w \<in> set ws. in_lang r w) \<and> s = concat (map ((#) d) ws))"
  (is "in_lang ?star s \<longleftrightarrow> ?words s")
proof
  assume "in_lang ?star s"
  then show "?words s"
  proof (induction ?star s rule: in_lang.induct)
    case star0
    show ?case by (rule exI [of _ "[]"]) simp
  next
    case (star1 s t)
    then obtain w ws where "s = d # w" "in_lang r w"
      "\<forall>w \<in> set ws. in_lang r w" "t = concat (map ((#) d) ws)"
      by (auto simp: in_lang_Seq in_class_def)
    then show ?case by (intro exI [of _ "w # ws"]) auto
  qed
next
  assume "?words s"
  then obtain ws where "\<forall>w \<in> set ws. in_lang r w" "s = concat (map ((#) d) ws)" by blast
  then show "in_lang ?star s"
  proof (induction ws arbitrary: s)
    case (Cons w ws)
    have "in_lang (Seq (Class [(d, d)]) r) ([d] @ w)"
      using Cons.prems by (intro in_lang.seq) (auto simp: in_class_def)
    then show ?case
      using Cons in_lang.star1 [of _ "d # w"] by simp
  qed (auto intro: in_lang.star0)
qed

lemma concat_sep_join: "w @ concat (map ((#) d) ws) = join_with [d] (w # ws)"
  by (induction ws arbitrary: w) (simp_all add: join_with_Cons)

end
