(* ===== verification/Handle.thy ===== *)
theory Handle
  imports Go_Errors Go_Regexp
begin

section \<open>handle.go: the volume handles the driver accepts\<close>

text \<open>
  \<open>checkHandle\<close> with the expression \<open>handleShape\<close>, and the reference definition of a
  DNS-1123 subdomain name that the expression is meant to describe: segments joined by dots,
  each of lower-case letters, digits and dashes, each starting and ending with a letter or a
  digit. The lemmas show the two equal and what acceptance says about the handle as a name of
  a directory entry.
\<close>

definition handleLimit :: nat where
  "handleLimit = 253"

definition alnum_class :: "(char \<times> char) list" where
  "alnum_class = [(CHR ''a'', CHR ''z''), (CHR ''0'', CHR ''9'')]"

definition dash_alnum_class :: "(char \<times> char) list" where
  "dash_alnum_class = (CHR ''-'', CHR ''-'') # alnum_class"

definition segmentShape :: regexp where
  "segmentShape =
     Seq (Class alnum_class) (Opt (Seq (Star (Class dash_alnum_class)) (Class alnum_class)))"

definition handleShape :: regexp where
  "handleShape = Seq segmentShape (Star (Seq (Class [(CHR ''.'', CHR ''.'')]) segmentShape))"

definition checkHandle :: "string \<Rightarrow> status option" where
  "checkHandle handle =
     (if handle = '''' then
        Some (status_Error InvalidArgument [Lit ''volume_id: the call names no volume''])
      else if length handle > handleLimit then
        Some (status_Error InvalidArgument
          [Lit ''volume_id: '', Quoted handle, Lit '' is '', Lit (nat_text (length handle)),
           Lit '' characters, and a handle takes at most '', Lit (nat_text handleLimit)])
      else if \<not> re_match handleShape handle then
        Some (status_Error InvalidArgument
          [Lit ''volume_id: '', Quoted handle, Lit '' is not a DNS-1123 subdomain name''])
      else None)"

subsection \<open>The name the expression describes\<close>

definition alnum :: "char \<Rightarrow> bool" where
  "alnum c \<longleftrightarrow> CHR ''a'' \<le> c \<and> c \<le> CHR ''z'' \<or> CHR ''0'' \<le> c \<and> c \<le> CHR ''9''"

definition dns_segment :: "string \<Rightarrow> bool" where
  "dns_segment w \<longleftrightarrow>
     w \<noteq> [] \<and> list_all (\<lambda>c. alnum c \<or> c = CHR ''-'') w \<and> alnum (hd w) \<and> alnum (last w)"

definition dns_subdomain :: "string \<Rightarrow> bool" where
  "dns_subdomain s \<longleftrightarrow> list_all dns_segment (split_on (CHR ''.'') s)"

lemma in_class_alnum [simp]: "in_class c alnum_class \<longleftrightarrow> alnum c"
  by (auto simp: in_class_def alnum_class_def alnum_def)

lemma in_class_dash_alnum [simp]: "in_class c dash_alnum_class \<longleftrightarrow> alnum c \<or> c = CHR ''-''"
  by (auto simp: in_class_def dash_alnum_class_def alnum_class_def alnum_def)

lemma not_alnum [simp]:
  "\<not> alnum (CHR ''.'')" "\<not> alnum (CHR ''-'')" "\<not> alnum (CHR ''/'')"
  by (simp_all add: alnum_def less_eq_char_def)

lemma segmentShape_dns_segment: "in_lang segmentShape w \<longleftrightarrow> dns_segment w"
proof
  assume "in_lang segmentShape w"
  then show "dns_segment w"
    by (auto simp: segmentShape_def in_lang_Seq in_lang_Star_Class dns_segment_def list_all_iff)
next
  assume seg: "dns_segment w"
  then obtain c t where w: "w = c # t" by (cases w) (auto simp: dns_segment_def)
  show "in_lang segmentShape w"
  proof (cases t rule: rev_cases)
    case Nil
    with seg w show ?thesis
      by (auto simp: segmentShape_def in_lang_Seq dns_segment_def)
  next
    case (snoc u e)
    have "in_lang (Seq (Star (Class dash_alnum_class)) (Class alnum_class)) (u @ [e])"
      using seg w snoc
      by (intro in_lang.seq) (auto simp: in_lang_Star_Class dns_segment_def list_all_iff)
    then have "in_lang segmentShape ([c] @ (u @ [e]))"
      unfolding segmentShape_def using seg w
      by (intro in_lang.seq) (auto simp: dns_segment_def)
    with w snoc show ?thesis by simp
  qed
qed

lemma dns_segment_no_dot: "dns_segment w \<Longrightarrow> CHR ''.'' \<notin> set w"
  by (auto simp: dns_segment_def list_all_iff)

lemma dns_segment_no_slash: "dns_segment w \<Longrightarrow> CHR ''/'' \<notin> set w"
  by (auto simp: dns_segment_def list_all_iff)

text \<open>The expression and the reference definition agree on every string.\<close>

lemma in_handleShape:
  "in_lang handleShape s
     \<longleftrightarrow> (\<exists>w ws. dns_segment w \<and> (\<forall>v \<in> set ws. dns_segment v) \<and> s = join_with [CHR ''.''] (w # ws))"
  unfolding handleShape_def in_lang_Seq [of segmentShape] in_lang_Star_sep segmentShape_dns_segment
  by (metis concat_sep_join)

lemma dns_subdomain_join:
  "dns_subdomain s
     \<longleftrightarrow> (\<exists>w ws. dns_segment w \<and> (\<forall>v \<in> set ws. dns_segment v) \<and> s = join_with [CHR ''.''] (w # ws))"
  (is "_ \<longleftrightarrow> ?words")
proof
  assume "dns_subdomain s"
  moreover obtain w ws where "split_on (CHR ''.'') s = w # ws"
    by (cases "split_on (CHR ''.'') s") auto
  ultimately show ?words
    by (metis dns_subdomain_def join_split_on list_all_iff list.set_intros)
next
  assume ?words
  then obtain w ws where ws: "\<forall>v \<in> set (w # ws). dns_segment v"
    and s: "s = join_with [CHR ''.''] (w # ws)" by auto
  then have "split_on (CHR ''.'') s = w # ws"
    using dns_segment_no_dot unfolding s by (intro split_on_join) auto
  with ws show "dns_subdomain s" by (simp add: dns_subdomain_def list_all_iff)
qed

lemma handleShape_dns: "re_match handleShape s \<longleftrightarrow> dns_subdomain s"
  by (simp only: re_match_in_lang in_handleShape dns_subdomain_join)

subsection \<open>What acceptance says\<close>

lemma checkHandle_None_iff:
  "checkHandle h = None \<longleftrightarrow> length h \<le> handleLimit \<and> dns_subdomain h"
  by (auto simp: checkHandle_def handleShape_dns dns_subdomain_def dns_segment_def)

lemma dns_subdomain_no_slash:
  assumes "dns_subdomain h"
  shows "CHR ''/'' \<notin> set h"
proof -
  let ?ws = "split_on (CHR ''.'') h"
  have "CHR ''/'' \<notin> set (join_with [CHR ''.''] ?ws)"
    using assms set_join_with [of "[CHR ''.'']" ?ws] dns_segment_no_slash
    by (auto simp: dns_subdomain_def list_all_iff)
  then show ?thesis by simp
qed

lemma dns_subdomain_not_special:
  assumes "dns_subdomain h"
  shows "h \<noteq> ''''" "h \<noteq> ''.''" "h \<noteq> ''..''"
  using assms by (auto simp: dns_subdomain_def dns_segment_def)

lemma checkHandle_code: "checkHandle h = Some s \<Longrightarrow> code s = InvalidArgument"
  by (auto simp: checkHandle_def split: if_splits)

text \<open>
  C22. The handles the driver accepts are the DNS-1123 subdomain names of at most 253 bytes: the
  expression in the code and the independent definition by segments agree on every string, and
  every refusal is an \<open>InvalidArgument\<close>.
\<close>

theorem checkHandle_is_dns1123:
  "(checkHandle h = None \<longleftrightarrow> length h \<le> 253 \<and> dns_subdomain h) \<and>
   (case checkHandle h of None \<Rightarrow> OK | Some s \<Rightarrow> code s)
     = (if length h \<le> 253 \<and> dns_subdomain h then OK else InvalidArgument)"
  using checkHandle_None_iff [of h] checkHandle_code [of h]
  by (cases "checkHandle h") (auto simp: handleLimit_def)

end
