(* ===== verification/Go_Filepath.thy ===== *)
theory Go_Filepath
  imports Prelude
begin

section \<open>Package path/filepath and the resolution of a path\<close>

text \<open>
  \<open>filepath.Clean\<close> and \<open>filepath.Join\<close> work on the text of a path: they drop empty and
  \<open>.\<close> elements and let \<open>..\<close> remove the element before it. \<open>locate\<close> is the place in
  the file tree that a path names, as the list of its elements from the root: the image has no
  working directory of its own, so a relative path starts at \<open>/\<close> too. The tree of the model
  has no symbolic links, so the lexical reading is the kernel's.
\<close>

abbreviation slash :: char where
  "slash \<equiv> CHR ''/''"

definition elems :: "string \<Rightarrow> string list" where
  "elems s = filter (\<lambda>c. c \<noteq> '''' \<and> c \<noteq> ''.'') (split_on slash s)"

fun rooted :: "string \<Rightarrow> bool" where
  "rooted [] = False"
| "rooted (c # s) = (c = slash)"

text \<open>One element of \<open>Clean\<close>: the elements kept so far, and whether the path is rooted.\<close>

definition clean_step :: "bool \<Rightarrow> string list \<Rightarrow> string \<Rightarrow> string list" where
  "clean_step r kept c =
     (if c = ''..'' then
        (if kept \<noteq> [] \<and> last kept \<noteq> ''..'' then butlast kept
         else if r then kept else kept @ [''..''])
      else kept @ [c])"

definition clean_elems :: "string \<Rightarrow> string list" where
  "clean_elems s = foldl (clean_step (rooted s)) [] (elems s)"

definition filepath_Clean :: "string \<Rightarrow> string" where
  "filepath_Clean s =
     (let t = (if rooted s then [slash] else []) @ join_with [slash] (clean_elems s)
      in if t = [] then ''.'' else t)"

definition filepath_Join :: "string list \<Rightarrow> string" where
  "filepath_Join es =
     (case dropWhile (\<lambda>e. e = '''') es of
        [] \<Rightarrow> ''''
      | es' \<Rightarrow> filepath_Clean (join_with [slash] es'))"

text \<open>The place a path names.\<close>

definition locate_step :: "path \<Rightarrow> string \<Rightarrow> path" where
  "locate_step p c = (if c = ''..'' then butlast p else p @ [c])"

definition locate :: "string \<Rightarrow> path" where
  "locate s = foldl locate_step [] (elems s)"

definition path_text :: "path \<Rightarrow> string" where
  "path_text p = slash # join_with [slash] p"

definition filepath_Dir :: "string \<Rightarrow> string" where
  "filepath_Dir s =
     filepath_Clean (case last_index slash s of None \<Rightarrow> '''' | Some i \<Rightarrow> take (Suc i) s)"

text \<open>A name that is one element of a path.\<close>

definition plain_name :: "string \<Rightarrow> bool" where
  "plain_name c \<longleftrightarrow> c \<noteq> '''' \<and> c \<noteq> ''.'' \<and> c \<noteq> ''..'' \<and> slash \<notin> set c"

subsection \<open>Elements\<close>

lemma elems_append: "elems (s @ slash # t) = elems s @ elems t"
  by (simp add: elems_def split_on_append_gen)

lemma elems_Nil [simp]: "elems [] = []"
  by (simp add: elems_def)

lemma elems_slash [simp]: "elems (slash # s) = elems s"
  using elems_append [of "[]" s] by simp

lemma elems_noslash: "slash \<notin> set c \<Longrightarrow> elems c = (if c = '''' \<or> c = ''.'' then [] else [c])"
  by (simp add: elems_def split_on_no_sep)

lemma elems_plain [simp]: "plain_name c \<Longrightarrow> elems c = [c]"
  by (simp add: elems_noslash plain_name_def)

lemma elems_elem:
  "c \<in> set (elems s) \<Longrightarrow> c \<noteq> '''' \<and> c \<noteq> ''.'' \<and> slash \<notin> set c"
  by (auto simp: elems_def dest: split_on_elem)

lemma elems_join:
  "\<forall>c \<in> set cs. c \<noteq> '''' \<and> c \<noteq> ''.'' \<and> slash \<notin> set c \<Longrightarrow> elems (join_with [slash] cs) = cs"
  by (induction "[slash]" cs rule: join_with.induct) (auto simp: elems_noslash elems_append)

lemma elems_join_concat: "elems (join_with [slash] es) = concat (map elems es)"
  by (induction "[slash]" es rule: join_with.induct) (auto simp: elems_append)

subsection \<open>Clean keeps the place, and removes dots\<close>

text \<open>What \<open>Clean\<close> keeps: the dots of a relative path come first.\<close>

definition kept_ok :: "bool \<Rightarrow> string list \<Rightarrow> bool" where
  "kept_ok r kept \<longleftrightarrow>
     (\<exists>n names. kept = replicate n ''..'' @ names \<and> ''..'' \<notin> set names \<and> (r \<longrightarrow> n = 0))"

lemma kept_ok_Nil [simp]: "kept_ok r []"
  unfolding kept_ok_def by (rule exI [of _ 0]) simp

lemma kept_ok_step:
  assumes "kept_ok r kept"
  shows "kept_ok r (clean_step r kept c)"
proof -
  from assms obtain n names where kept: "kept = replicate n ''..'' @ names"
    and names: "''..'' \<notin> set names" and n: "r \<longrightarrow> n = 0"
    by (auto simp: kept_ok_def)
  show ?thesis
  proof (cases "c = ''..''")
    case False
    then show ?thesis
      using kept names n unfolding clean_step_def kept_ok_def
      by (intro exI [of _ n] exI [of _ "names @ [c]"]) auto
  next
    case True
    show ?thesis
    proof (cases names rule: rev_cases)
      case Nil
      then show ?thesis
        using True kept n unfolding clean_step_def kept_ok_def
        by (intro exI [of _ "if r then n else Suc n"] exI [of _ "[]"])
          (auto simp: replicate_append_same)
    next
      case (snoc ns x)
      then show ?thesis
        using True kept names n unfolding clean_step_def kept_ok_def
        by (intro exI [of _ n] exI [of _ ns]) (auto simp: butlast_append)
    qed
  qed
qed

lemma kept_ok_foldl: "kept_ok r kept \<Longrightarrow> kept_ok r (foldl (clean_step r) kept cs)"
  by (induction cs arbitrary: kept) (auto intro: kept_ok_step)

lemma clean_elems_ok: "kept_ok (rooted s) (clean_elems s)"
  by (simp add: clean_elems_def kept_ok_foldl)

lemma foldl_locate_dots: "foldl locate_step [] (replicate n ''..'') = []"
  by (induction n) (simp_all add: locate_step_def)

lemma foldl_locate_clean_step:
  assumes "kept_ok r kept"
  shows "foldl locate_step [] (clean_step r kept c) = locate_step (foldl locate_step [] kept) c"
proof -
  from assms obtain n names where kept: "kept = replicate n ''..'' @ names"
    and names: "''..'' \<notin> set names" by (auto simp: kept_ok_def)
  show ?thesis
  proof (cases names rule: rev_cases)
    case Nil
    then show ?thesis
      by (cases "n = 0")
        (simp_all add: kept clean_step_def locate_step_def foldl_locate_dots last_replicate)
  next
    case (snoc ns x)
    then show ?thesis
      using names by (auto simp: kept clean_step_def locate_step_def butlast_append)
  qed
qed

lemma foldl_locate_clean:
  "kept_ok r kept \<Longrightarrow>
     foldl locate_step [] (foldl (clean_step r) kept cs)
       = foldl locate_step (foldl locate_step [] kept) cs"
  by (induction cs arbitrary: kept) (simp_all add: foldl_locate_clean_step kept_ok_step)

lemma clean_step_elem: "x \<in> set (clean_step r kept c) \<Longrightarrow> x \<in> set kept \<or> x = c"
  by (auto simp: clean_step_def split: if_splits dest: in_set_butlastD)

lemma clean_elems_elem: "x \<in> set (clean_elems s) \<Longrightarrow> x \<in> set (elems s)"
proof -
  have "x \<in> set (foldl (clean_step r) kept cs) \<Longrightarrow> x \<in> set kept \<union> set cs" for r kept cs
    by (induction cs arbitrary: kept) (auto dest: clean_step_elem)
  from this [of "rooted s" "[]" "elems s"] show "x \<in> set (clean_elems s) \<Longrightarrow> x \<in> set (elems s)"
    by (simp add: clean_elems_def)
qed

lemma elems_Clean: "elems (filepath_Clean s) = clean_elems s"
proof -
  have "elems (join_with [slash] (clean_elems s)) = clean_elems s"
    by (rule elems_join) (auto dest!: clean_elems_elem elems_elem)
  then show ?thesis
    by (auto simp: filepath_Clean_def Let_def elems_noslash join_with_Cons)
qed

lemma locate_Clean [simp]: "locate (filepath_Clean s) = locate s"
  using foldl_locate_clean [of "rooted s" "[]" "elems s"]
  by (simp add: locate_def elems_Clean clean_elems_def)

lemma locate_append: "locate (s @ slash # t) = foldl locate_step (locate s) (elems t)"
  by (simp add: locate_def elems_append)

lemma locate_Join:
  "locate (filepath_Join es) = foldl locate_step [] (concat (map elems es))"
proof -
  have drop: "concat (map elems es) = concat (map elems (dropWhile (\<lambda>e. e = '''') es))"
    by (induction es) auto
  show ?thesis
  proof (cases "dropWhile (\<lambda>e. e = '''') es")
    case Nil
    then show ?thesis
      by (simp only: drop filepath_Join_def locate_def list.case list.map concat.simps elems_Nil)
  next
    case (Cons e es')
    then have "locate (filepath_Join es) = locate (join_with [slash] (e # es'))"
      by (simp add: filepath_Join_def)
    then show ?thesis unfolding drop Cons
      by (simp only: locate_def elems_join_concat)
  qed
qed

text \<open>Joining plain names to a root names the place below the root's own.\<close>

lemma locate_Join_plain:
  assumes "\<forall>c \<in> set cs. plain_name c"
  shows "locate (filepath_Join (root # cs)) = locate root @ cs"
proof -
  have "foldl locate_step p (concat (map elems cs)) = p @ cs" for p
    using assms by (induction cs arbitrary: p) (auto simp: locate_step_def plain_name_def)
  then show ?thesis by (simp add: locate_Join) (simp add: locate_def)
qed

lemma locate_elem_plain: "c \<in> set (locate s) \<Longrightarrow> plain_name c"
proof -
  have "c \<in> set (foldl locate_step p cs) \<Longrightarrow> c \<in> set p \<or> c \<in> set cs \<and> c \<noteq> ''..''" for p cs
    by (induction cs arbitrary: p) (fastforce simp: locate_step_def dest: in_set_butlastD split: if_splits)+
  from this [of "[]" "elems s"] show "c \<in> set (locate s) \<Longrightarrow> plain_name c"
    by (auto simp: locate_def plain_name_def dest: elems_elem)
qed

lemma locate_path_text: "\<forall>c \<in> set p. plain_name c \<Longrightarrow> locate (path_text p) = p"
proof -
  assume p: "\<forall>c \<in> set p. plain_name c"
  then have "elems (join_with [slash] p) = p"
    by (intro elems_join) (auto simp: plain_name_def)
  moreover have "foldl locate_step q cs = q @ cs" if "\<forall>c \<in> set cs. plain_name c" for q cs
    using that by (induction cs arbitrary: q) (auto simp: locate_step_def plain_name_def)
  ultimately show ?thesis using p by (simp add: locate_def path_text_def)
qed

lemma locate_path_text_locate [simp]: "locate (path_text (locate s)) = locate s"
  by (rule locate_path_text) (auto dest: locate_elem_plain)

text \<open>\<open>Clean\<close> is idempotent.\<close>

lemma rooted_Clean: "rooted (filepath_Clean s) = rooted s"
proof (cases "rooted s")
  case False
  have "\<not> rooted (join_with [slash] (clean_elems s))"
  proof (cases "clean_elems s")
    case (Cons c cs)
    then have "c \<in> set (elems s)" by (auto intro: clean_elems_elem)
    then have "c \<noteq> [] \<and> slash \<notin> set c" by (auto dest: elems_elem)
    with Cons show ?thesis by (cases c) (auto simp: join_with_Cons)
  qed simp
  with False show ?thesis by (simp add: filepath_Clean_def Let_def)
qed (simp add: filepath_Clean_def Let_def)

lemma foldl_clean_kept:
  "kept_ok r (kept @ cs) \<Longrightarrow> foldl (clean_step r) kept cs = kept @ cs"
proof (induction cs arbitrary: kept)
  case (Cons c cs)
  have "clean_step r kept c = kept @ [c]"
  proof (cases "c = ''..''")
    case True
    from Cons.prems obtain n names where eq: "kept @ c # cs = replicate n ''..'' @ names"
      and names: "''..'' \<notin> set names" and n: "r \<longrightarrow> n = 0" by (auto simp: kept_ok_def)
    have "length kept < n"
    proof (rule ccontr)
      assume "\<not> length kept < n"
      then have "(kept @ c # cs) ! length kept = names ! (length kept - n)"
        by (simp add: eq nth_append)
      moreover have "length kept - n < length names"
        using arg_cong [OF eq, of length] \<open>\<not> length kept < n\<close> by simp
      ultimately show False using True names by (auto dest: nth_mem)
    qed
    then have "kept = replicate (length kept) ''..''"
      using arg_cong [OF eq, of "take (length kept)"] by (simp add: min_def)
    then have "kept = [] \<or> last kept = ''..''"
      by (metis last_replicate length_0_conv)
    with True n \<open>length kept < n\<close> show ?thesis by (auto simp: clean_step_def)
  qed (simp add: clean_step_def)
  with Cons show ?case by simp
qed simp

lemma filepath_Clean_idem [simp]: "filepath_Clean (filepath_Clean s) = filepath_Clean s"
proof -
  have "clean_elems (filepath_Clean s) = clean_elems s"
    using foldl_clean_kept [of "rooted s" "[]" "clean_elems s"] clean_elems_ok [of s]
    by (simp add: clean_elems_def [of "filepath_Clean s"] elems_Clean rooted_Clean)
  then show ?thesis by (simp add: filepath_Clean_def [of "filepath_Clean s"] rooted_Clean)
      (simp add: filepath_Clean_def)
qed

text \<open>The directory of a path that ends in a name is the place above.\<close>

lemma locate_Dir:
  assumes "plain_name c"
  shows "locate (filepath_Dir (t @ slash # c)) = butlast (locate (t @ slash # c))"
proof -
  have "last_index slash (t @ slash # c) = Some (length t)"
    using assms by (intro last_index_append) (simp add: plain_name_def)
  moreover have "locate (t @ [slash]) = locate t" by (simp add: locate_def elems_append)
  moreover have "locate (t @ slash # c) = locate t @ [c]"
    using assms by (simp add: locate_append locate_step_def plain_name_def elems_noslash)
  ultimately show ?thesis by (simp add: filepath_Dir_def)
qed

lemma Join_ends:
  assumes "plain_name d" "plain_name c"
  shows "\<exists>t. filepath_Join [r, d, c] = t @ slash # c"
proof -
  have step: "clean_step b kept e = kept @ [e]" if "plain_name e" for b kept e
    using that by (simp add: clean_step_def plain_name_def)
  define u where "u = (if r = [] then [] else r @ [slash]) @ d @ slash # c"
  have j: "filepath_Join [r, d, c] = filepath_Clean u"
    using assms by (simp add: filepath_Join_def u_def plain_name_def)
  have "elems u = elems r @ [d, c]"
    using assms by (simp add: u_def elems_append)
  then have "clean_elems u = foldl (clean_step (rooted u)) [] (elems r) @ [d, c]"
    using assms by (simp add: clean_elems_def step)
  then have "join_with [slash] (clean_elems u) =
      join_with [slash] (foldl (clean_step (rooted u)) [] (elems r) @ [d]) @ slash # c"
    using join_with_snoc [of "[slash]" "foldl (clean_step (rooted u)) [] (elems r) @ [d]" c] by simp
  then show ?thesis by (simp add: j filepath_Clean_def Let_def)
qed

end
