(* ===== verification/World.thy ===== *)
theory World
  imports Go_Errors Go_Filepath "HOL-Library.Word"
begin

section \<open>The node the driver runs on\<close>

text \<open>
  Everything outside the process that the driver reads or changes, as one record: the file tree,
  the mount table, what the next system calls will answer when the kernel refuses them, what the
  API server will answer, the clock, the umask, and the effects the driver has had so far (log
  lines, Events, metric updates) in order. Every function of the model takes a world and returns
  the one it leaves.

  The tree is a table from places to inodes. It holds no symbolic link, and the driver's own
  calls see the tree under the mounts: no mount of the driver covers the store, and at a target
  the mounted directory and the directory under it are both directories.
\<close>

unbundle bit_operations_syntax

type_synonym mode = "32 word"

datatype inode =
    Dir mode
  | Reg mode string
  | Special mode            \<comment> \<open>a socket, a fifo or a device\<close>

record mount_entry =
  mnt_point :: path
  mnt_source :: path
  mnt_ro :: bool

text \<open>
  A refused call: its errno, and how many bytes a refused write had written when it failed.
\<close>

type_synonym fault = "errno \<times> nat"

subsection \<open>Effects\<close>

record object_reference =
  ref_kind :: string
  ref_apiVersion :: string
  ref_name :: string
  ref_namespace :: string
  ref_uid :: string

record kube_event =
  generateName :: string
  event_namespace :: string
  involvedObject :: object_reference
  reason :: string
  event_message :: message
  event_type :: string
  source_component :: string
  source_host :: string
  firstTimestamp :: int
  lastTimestamp :: int
  event_count :: nat

datatype metric_call =
    CopyBytesSet string int
  | CopyBytesDelete string
  | ReconcileObserve string int
  | ReconcileErrorsInc string
  | WatchRestartsInc string
  | VolumesSet int
  | MountFailuresInc

datatype log_level = LogInfo | LogWarn

text \<open>The value of an attribute of a log line, before \<open>slog\<close> writes it as text.\<close>

datatype attr = Str string | Err goerror | Code grpc_code

datatype effect =
    Logged log_level string "(string \<times> attr) list"
  | Posted kube_event
  | Measured metric_call

record world =
  tree :: "(path \<times> inode) list"
  mtab :: "mount_entry list"               \<comment> \<open>the newest mount first\<close>
  faults :: "fault option list"            \<comment> \<open>one entry per system call; none left: no refusal\<close>
  api_answers :: "string option list"      \<comment> \<open>the API server's refusals, likewise\<close>
  umask :: mode
  clock :: int
  effects :: "effect list"

definition fs :: "world \<Rightarrow> path \<Rightarrow> inode option" where
  "fs w p = map_of (tree w) p"

definition set_fs :: "path \<Rightarrow> inode \<Rightarrow> world \<Rightarrow> world" where
  "set_fs p i w = w\<lparr>tree := AList.update p i (tree w)\<rparr>"

definition del_fs :: "path \<Rightarrow> world \<Rightarrow> world" where
  "del_fs p w = w\<lparr>tree := AList.delete p (tree w)\<rparr>"

definition emit :: "effect \<Rightarrow> world \<Rightarrow> world" where
  "emit e w = w\<lparr>effects := effects w @ [e]\<rparr>"

definition take_fault :: "world \<Rightarrow> fault option \<times> world" where
  "take_fault w = (case faults w of [] \<Rightarrow> (None, w) | f # later \<Rightarrow> (f, w\<lparr>faults := later\<rparr>))"

definition healthy :: "world \<Rightarrow> bool" where
  "healthy w \<longleftrightarrow> list_all (\<lambda>f. f = None) (faults w)"

fun is_Dir :: "inode \<Rightarrow> bool" where
  "is_Dir (Dir m) = True"
| "is_Dir i = False"

fun mode_of :: "inode \<Rightarrow> mode" where
  "mode_of (Dir m) = m"
| "mode_of (Reg m s) = m"
| "mode_of (Special m) = m"

fun with_mode :: "mode \<Rightarrow> inode \<Rightarrow> inode" where
  "with_mode m (Dir m') = Dir m"
| "with_mode m (Reg m' s) = Reg m s"
| "with_mode m (Special m') = Special m"

definition dir_at :: "world \<Rightarrow> path \<Rightarrow> bool" where
  "dir_at w p \<longleftrightarrow> (case fs w p of Some i \<Rightarrow> is_Dir i | None \<Rightarrow> False)"

text \<open>A tree as the kernel keeps it: one inode per place, each in a directory, below a root.\<close>

definition wf_tree :: "world \<Rightarrow> bool" where
  "wf_tree w \<longleftrightarrow>
     distinct (map fst (tree w)) \<and> dir_at w [] \<and>
     list_all (\<lambda>e. fst e = [] \<or> dir_at w (butlast (fst e))) (tree w)"

definition mounted_at :: "world \<Rightarrow> path \<Rightarrow> bool" where
  "mounted_at w p \<longleftrightarrow> p \<in> set (map mnt_point (mtab w))"

subsection \<open>Basic facts\<close>

lemma fs_set_fs [simp]: "fs (set_fs p i w) = (fs w)(p \<mapsto> i)"
  by (auto simp: fs_def set_fs_def)

lemma fs_del_fs [simp]: "fs (del_fs p w) = (fs w)(p := None)"
  by (auto simp: fs_def del_fs_def)

lemma set_fs_fields [simp]:
  "mtab (set_fs p i w) = mtab w" "faults (set_fs p i w) = faults w"
  "api_answers (set_fs p i w) = api_answers w" "umask (set_fs p i w) = umask w"
  "clock (set_fs p i w) = clock w" "effects (set_fs p i w) = effects w"
  by (simp_all add: set_fs_def)

lemma del_fs_fields [simp]:
  "mtab (del_fs p w) = mtab w" "faults (del_fs p w) = faults w"
  "api_answers (del_fs p w) = api_answers w" "umask (del_fs p w) = umask w"
  "clock (del_fs p w) = clock w" "effects (del_fs p w) = effects w"
  by (simp_all add: del_fs_def)

lemma emit_fields [simp]:
  "tree (emit e w) = tree w" "mtab (emit e w) = mtab w" "faults (emit e w) = faults w"
  "api_answers (emit e w) = api_answers w" "umask (emit e w) = umask w" "clock (emit e w) = clock w"
  "effects (emit e w) = effects w @ [e]"
  by (simp_all add: emit_def)

lemma fs_emit [simp]: "fs (emit e w) = fs w"
  by (simp add: fs_def fun_eq_iff)

lemma fs_cong: "tree w = tree w' \<Longrightarrow> fs w = fs w'"
  by (simp add: fs_def fun_eq_iff)

lemma dir_at_cong: "tree w = tree w' \<Longrightarrow> dir_at w = dir_at w'"
  by (simp add: dir_at_def fun_eq_iff fs_def)

lemma wf_tree_cong: "tree w = tree w' \<Longrightarrow> wf_tree w = wf_tree w'"
  by (simp add: wf_tree_def dir_at_def fs_def)

lemma wf_tree_emit [simp]: "wf_tree (emit e w) = wf_tree w"
  by (rule wf_tree_cong) simp

lemma healthy_emit [simp]: "healthy (emit e w) = healthy w"
  by (simp add: healthy_def)

lemma mounted_at_emit [simp]: "mounted_at (emit e w) = mounted_at w"
  by (simp add: mounted_at_def fun_eq_iff)

lemma is_Dir_with_mode [simp]: "is_Dir (with_mode m i) = is_Dir i"
  by (cases i) auto

lemma is_Dir_iff: "is_Dir i \<longleftrightarrow> (\<exists>m. i = Dir m)"
  by (cases i) auto

lemma dir_at_iff: "dir_at w p \<longleftrightarrow> (\<exists>m. fs w p = Some (Dir m))"
  by (cases "fs w p") (auto simp: dir_at_def is_Dir_iff)

lemma fs_in_tree: "fs w p \<noteq> None \<longleftrightarrow> p \<in> fst ` set (tree w)"
  by (simp add: fs_def map_of_eq_None_iff)

lemma wf_tree_fs:
  "wf_tree w \<longleftrightarrow>
     distinct (map fst (tree w)) \<and> dir_at w [] \<and>
     (\<forall>p. fs w p \<noteq> None \<longrightarrow> p = [] \<or> dir_at w (butlast p))"
  unfolding wf_tree_def fs_in_tree list_all_iff by blast

lemma distinct_set_fs [simp]:
  "distinct (map fst (tree w)) \<Longrightarrow> distinct (map fst (tree (set_fs p i w)))"
  by (simp add: set_fs_def distinct_keys_update)

lemma distinct_del_fs [simp]:
  "distinct (map fst (tree w)) \<Longrightarrow> distinct (map fst (tree (del_fs p w)))"
  by (simp add: del_fs_def distinct_keys_delete)

lemma wf_tree_parent:
  "wf_tree w \<Longrightarrow> fs w (p @ [c]) \<noteq> None \<Longrightarrow> dir_at w p"
  by (fastforce simp: wf_tree_fs)

lemma wf_tree_prefix:
  assumes "wf_tree w" "fs w (p @ q) \<noteq> None" "q \<noteq> []"
  shows "dir_at w p"
  using assms(2,3)
proof (induction q rule: rev_induct)
  case (snoc c q)
  then have d: "dir_at w (p @ q)"
    using wf_tree_parent [OF assms(1), of "p @ q" c] by simp
  then show ?case
    using snoc.IH by (cases "q = []") (auto simp: dir_at_iff)
qed simp

lemma wf_tree_set_fs:
  assumes "wf_tree w" "p = [] \<or> dir_at w (butlast p)" "is_Dir i \<or> (p \<noteq> [] \<and> \<not> dir_at w p)"
  shows "wf_tree (set_fs p i w)"
proof -
  have "dir_at w q \<Longrightarrow> dir_at (set_fs p i w) q" for q
    using assms(3) by (auto simp: dir_at_def split: option.splits if_splits)
  with assms(1,2) show ?thesis
    by (auto simp: wf_tree_fs split: if_splits)
qed

lemma wf_tree_del_fs:
  assumes "wf_tree w" "p \<noteq> []" "\<And>q. fs w q \<noteq> None \<Longrightarrow> q \<noteq> [] \<Longrightarrow> butlast q \<noteq> p"
  shows "wf_tree (del_fs p w)"
proof -
  have "fs w q \<noteq> None \<Longrightarrow> q \<noteq> [] \<Longrightarrow> dir_at (del_fs p w) (butlast q)" for q
    using assms by (force simp: wf_tree_fs dir_at_def)
  with assms show ?thesis
    by (auto simp: wf_tree_fs dir_at_def split: if_splits)
qed

subsection \<open>What a file operation may change\<close>

text \<open>
  A file operation changes the tree and uses up answers of the kernel. It makes no mount, has no
  effect outside the node and asks nothing of the API server.
\<close>

definition only_fs :: "world \<Rightarrow> world \<Rightarrow> bool" where
  "only_fs w w' \<longleftrightarrow>
     suffix (faults w') (faults w) \<and> mtab w' = mtab w \<and> api_answers w' = api_answers w \<and>
     umask w' = umask w \<and> clock w' = clock w \<and> effects w' = effects w"

lemma only_fs_refl [simp, intro]: "only_fs w w"
  by (simp add: only_fs_def)

lemma only_fs_trans [trans]: "only_fs w w' \<Longrightarrow> only_fs w' w'' \<Longrightarrow> only_fs w w''"
  by (auto simp: only_fs_def intro: suffix_order.trans)

lemma only_fs_set_fs [simp]: "only_fs w (set_fs p i w') \<longleftrightarrow> only_fs w w'"
  by (simp add: only_fs_def)

lemma only_fs_del_fs [simp]: "only_fs w (del_fs p w') \<longleftrightarrow> only_fs w w'"
  by (simp add: only_fs_def)

lemma only_fsD:
  assumes "only_fs w w'"
  shows "mtab w' = mtab w" "api_answers w' = api_answers w" "umask w' = umask w"
    "clock w' = clock w" "effects w' = effects w" "mounted_at w' = mounted_at w"
    "healthy w \<Longrightarrow> healthy w'"
  using assms by (auto simp: only_fs_def mounted_at_def healthy_def suffix_def fun_eq_iff)

lemma take_fault_frame [frame]:
  assumes "take_fault w = (r, w')"
  shows "only_fs w w'" "tree w' = tree w"
  using assms by (auto simp: take_fault_def only_fs_def suffix_def split: list.splits)

lemma take_fault_healthy: "healthy w \<Longrightarrow> take_fault w = (r, w') \<Longrightarrow> r = None"
  by (auto simp: take_fault_def healthy_def split: list.splits)

end
