(* ===== verification/Go_Os.thy ===== *)
theory Go_Os
  imports World
begin

section \<open>Package os over the tree\<close>

text \<open>
  The system calls (\<open>sys_...\<close>) and the functions of package \<open>os\<close> that the driver calls,
  as package \<open>os\<close> composes them. Each system call first asks whether the kernel refuses it
  (\<open>take_fault\<close>): a theorem about every world is a theorem about every pattern of refusals.
  The errors are the ones Linux and package \<open>os\<close> give; a path in an error is the place's
  full text.
\<close>

definition name_too_long :: "path \<Rightarrow> bool" where
  "name_too_long p \<longleftrightarrow> list_ex (\<lambda>c. length c > 255) p"

text \<open>Why a place holds nothing: a name over NAME_MAX, a file on the way, or no entry.\<close>

definition absent_errno :: "world \<Rightarrow> path \<Rightarrow> errno" where
  "absent_errno w p =
     (if name_too_long p then ENAMETOOLONG
      else if list_ex (\<lambda>q. fs w q \<noteq> None \<and> \<not> dir_at w q) (prefixes p) then ENOTDIR
      else ENOENT)"

definition sys_stat :: "path \<Rightarrow> world \<Rightarrow> (errno + inode) \<times> world" where
  "sys_stat p w =
     (case take_fault w of
        (Some (e, n), w) \<Rightarrow> (Inl e, w)
      | (None, w) \<Rightarrow>
          (case fs w p of None \<Rightarrow> (Inl (absent_errno w p), w) | Some i \<Rightarrow> (Inr i, w)))"

definition sys_mkdir :: "path \<Rightarrow> mode \<Rightarrow> world \<Rightarrow> errno option \<times> world" where
  "sys_mkdir p m w =
     (case take_fault w of
        (Some (e, n), w) \<Rightarrow> (Some e, w)
      | (None, w) \<Rightarrow>
          if fs w p \<noteq> None then (Some EEXIST, w)
          else if p = [] \<or> name_too_long p \<or> \<not> dir_at w (butlast p)
          then (Some (absent_errno w p), w)
          else (None, set_fs p (Dir (m AND NOT (umask w))) w))"

definition sys_chmod :: "path \<Rightarrow> mode \<Rightarrow> world \<Rightarrow> errno option \<times> world" where
  "sys_chmod p m w =
     (case take_fault w of
        (Some (e, n), w) \<Rightarrow> (Some e, w)
      | (None, w) \<Rightarrow>
          (case fs w p of
             None \<Rightarrow> (Some (absent_errno w p), w)
           | Some i \<Rightarrow> (None, set_fs p (with_mode m i) w)))"

definition sys_unlink :: "path \<Rightarrow> world \<Rightarrow> errno option \<times> world" where
  "sys_unlink p w =
     (case take_fault w of
        (Some (e, n), w) \<Rightarrow> (Some e, w)
      | (None, w) \<Rightarrow>
          if fs w p = None then (Some (absent_errno w p), w)
          else if dir_at w p then (Some EISDIR, w)
          else if mounted_at w p then (Some EBUSY, w)
          else (None, del_fs p w))"

definition child_names :: "world \<Rightarrow> path \<Rightarrow> string list" where
  "child_names w p = map last (filter (\<lambda>q. q \<noteq> [] \<and> butlast q = p) (map fst (tree w)))"

definition sys_rmdir :: "path \<Rightarrow> world \<Rightarrow> errno option \<times> world" where
  "sys_rmdir p w =
     (case take_fault w of
        (Some (e, n), w) \<Rightarrow> (Some e, w)
      | (None, w) \<Rightarrow>
          if fs w p = None then (Some (absent_errno w p), w)
          else if \<not> dir_at w p then (Some ENOTDIR, w)
          else if p = [] \<or> mounted_at w p then (Some EBUSY, w)
          else if child_names w p \<noteq> [] then (Some ENOTEMPTY, w)
          else (None, del_fs p w))"

subsection \<open>os.MkdirAll, os.Chmod\<close>

text \<open>
  \<open>MkdirAll\<close> takes the place with its last element first, so that the recursion on the
  parent is the recursion on the list.
\<close>

definition mkdir_last :: "path \<Rightarrow> mode \<Rightarrow> world \<Rightarrow> goerror option \<times> world" where
  "mkdir_last p m w =
     (case sys_mkdir p m w of
        (None, w) \<Rightarrow> (None, w)
      | (Some e, w) \<Rightarrow>
          (case sys_stat p w of
             (Inr i, w) \<Rightarrow>
               (if is_Dir i then None else Some (PathError ''mkdir'' (path_text p) e), w)
           | (Inl e', w) \<Rightarrow> (Some (PathError ''mkdir'' (path_text p) e), w)))"

fun mkdir_all :: "string list \<Rightarrow> mode \<Rightarrow> world \<Rightarrow> goerror option \<times> world" where
  "mkdir_all [] m w =
     (case sys_stat [] w of
        (Inr i, w) \<Rightarrow> (if is_Dir i then None else Some (PathError ''mkdir'' ''/'' ENOTDIR), w)
      | (Inl e, w) \<Rightarrow> mkdir_last [] m w)"
| "mkdir_all (c # up) m w =
     (let p = rev (c # up)
      in case sys_stat p w of
        (Inr i, w) \<Rightarrow>
          (if is_Dir i then None else Some (PathError ''mkdir'' (path_text p) ENOTDIR), w)
      | (Inl e, w) \<Rightarrow>
          (case mkdir_all up m w of
             (Some err, w) \<Rightarrow> (Some err, w)
           | (None, w) \<Rightarrow> mkdir_last p m w))"

definition os_MkdirAll :: "string \<Rightarrow> mode \<Rightarrow> world \<Rightarrow> goerror option \<times> world" where
  "os_MkdirAll s m w =
     (if s = '''' then (Some (PathError ''mkdir'' s ENOENT), w)
      else mkdir_all (rev (locate s)) m w)"

definition os_Chmod :: "string \<Rightarrow> mode \<Rightarrow> world \<Rightarrow> goerror option \<times> world" where
  "os_Chmod s m w =
     (case sys_chmod (locate s) m w of
        (None, w) \<Rightarrow> (None, w)
      | (Some e, w) \<Rightarrow> (Some (PathError ''chmod'' s e), w))"

subsection \<open>os.Remove, os.RemoveAll\<close>

definition os_Remove :: "string \<Rightarrow> world \<Rightarrow> goerror option \<times> world" where
  "os_Remove s w =
     (case sys_unlink (locate s) w of
        (None, w) \<Rightarrow> (None, w)
      | (Some e, w) \<Rightarrow>
          (case sys_rmdir (locate s) w of
             (None, w) \<Rightarrow> (None, w)
           | (Some e1, w) \<Rightarrow>
               (Some (PathError ''remove'' s (if e1 \<noteq> ENOTDIR then e1 else e)), w)))"

text \<open>
  The places at and below a place in the order of \<open>filepath.Walk\<close> (a directory before its
  entries, the entries by name); backwards, a directory comes after its entries.
\<close>

definition places_below :: "world \<Rightarrow> path \<Rightarrow> path list" where
  "places_below w p = sort (filter (prefix p) (map fst (tree w)))"

definition remove_entry :: "path \<Rightarrow> world \<Rightarrow> goerror option \<times> world" where
  "remove_entry p w =
     (case (if dir_at w p then sys_rmdir p w else sys_unlink p w) of
        (None, w) \<Rightarrow> (None, w)
      | (Some e, w) \<Rightarrow>
          (if e = ENOENT then None else Some (PathError ''unlinkat'' (path_text p) e), w))"

text \<open>The removal goes on after a failure and reports the first one.\<close>

fun remove_entries :: "path list \<Rightarrow> world \<Rightarrow> goerror option \<times> world" where
  "remove_entries [] w = (None, w)"
| "remove_entries (p # ps) w =
     (case remove_entry p w of
        (None, w) \<Rightarrow> remove_entries ps w
      | (Some e, w) \<Rightarrow> (case remove_entries ps w of (later, w) \<Rightarrow> (Some e, w)))"

definition os_RemoveAll :: "string \<Rightarrow> world \<Rightarrow> goerror option \<times> world" where
  "os_RemoveAll s w =
     (if s = '''' then (None, w)
      else case os_Remove s w of
        (None, w) \<Rightarrow> (None, w)
      | (Some e, w) \<Rightarrow>
          if os_IsNotExist e then (None, w)
          else remove_entries (rev (places_below w (locate s))) w)"

subsection \<open>os.ReadDir, os.ReadFile, os.WriteFile, os.CreateTemp\<close>

definition os_ReadDir :: "string \<Rightarrow> world \<Rightarrow> (goerror + string list) \<times> world" where
  "os_ReadDir s w =
     (case sys_stat (locate s) w of
        (Inl e, w) \<Rightarrow> (Inl (PathError ''open'' s e), w)
      | (Inr i, w) \<Rightarrow>
          (case take_fault w of
             (Some (e, n), w) \<Rightarrow> (Inl (PathError ''readdirent'' s e), w)
           | (None, w) \<Rightarrow>
               if is_Dir i then (Inr (sort (child_names w (locate s))), w)
               else (Inl (PathError ''readdirent'' s ENOTDIR), w)))"

definition os_ReadFile :: "string \<Rightarrow> world \<Rightarrow> (goerror + string) \<times> world" where
  "os_ReadFile s w =
     (case sys_stat (locate s) w of
        (Inl e, w) \<Rightarrow> (Inl (PathError ''open'' s e), w)
      | (Inr i, w) \<Rightarrow>
          (case take_fault w of
             (Some (e, n), w) \<Rightarrow> (Inl (PathError ''read'' s e), w)
           | (None, w) \<Rightarrow>
               (case i of
                  Reg m content \<Rightarrow> (Inr content, w)
                | Dir m \<Rightarrow> (Inl (PathError ''read'' s EISDIR), w)
                | Special m \<Rightarrow>
                    (Inl (PathError ''open'' s (OtherErrno 6 ''no such device or address'')), w))))"

text \<open>
  \<open>WriteFile\<close> opens with \<open>O_CREATE|O_TRUNC\<close>, writes, and closes. A refused write leaves
  what it had written; a refused close leaves everything.
\<close>

definition open_truncated :: "path \<Rightarrow> mode \<Rightarrow> world \<Rightarrow> errno option \<times> world" where
  "open_truncated p m w =
     (case take_fault w of
        (Some (e, n), w) \<Rightarrow> (Some e, w)
      | (None, w) \<Rightarrow>
          (case fs w p of
             Some (Dir d) \<Rightarrow> (Some EISDIR, w)
           | Some (Special d) \<Rightarrow> (Some (OtherErrno 6 ''no such device or address''), w)
           | Some (Reg d old) \<Rightarrow> (None, set_fs p (Reg d '''') w)
           | None \<Rightarrow>
               if p = [] \<or> name_too_long p \<or> \<not> dir_at w (butlast p)
               then (Some (absent_errno w p), w)
               else (None, set_fs p (Reg (m AND NOT (umask w)) '''') w)))"

definition file_mode :: "world \<Rightarrow> path \<Rightarrow> mode" where
  "file_mode w p = (case fs w p of Some i \<Rightarrow> mode_of i | None \<Rightarrow> 0)"

definition os_WriteFile :: "string \<Rightarrow> string \<Rightarrow> mode \<Rightarrow> world \<Rightarrow> goerror option \<times> world" where
  "os_WriteFile s content m w =
     (let p = locate s
      in case open_truncated p m w of
        (Some e, w) \<Rightarrow> (Some (PathError ''open'' s e), w)
      | (None, w) \<Rightarrow>
          (case take_fault w of
             (Some (e, n), w) \<Rightarrow>
               (case take_fault (set_fs p (Reg (file_mode w p) (take n content)) w) of
                  (ignored, w) \<Rightarrow> (Some (PathError ''write'' s e), w))
           | (None, w) \<Rightarrow>
               (case take_fault (set_fs p (Reg (file_mode w p) content) w) of
                  (Some (e, n), w) \<Rightarrow> (Some (PathError ''close'' s e), w)
                | (None, w) \<Rightarrow> (None, w))))"

text \<open>
  \<open>CreateTemp\<close> tries names until one is free. The random part of the name comes from the
  runtime: \<open>random k\<close> is the one of the attempt with \<open>k\<close> attempts left.
\<close>

definition join_path :: "string \<Rightarrow> string \<Rightarrow> string" where
  "join_path dir name = (if dir \<noteq> '''' \<and> last dir = slash then dir @ name else dir @ [slash] @ name)"

definition create_exclusive :: "path \<Rightarrow> mode \<Rightarrow> world \<Rightarrow> errno option \<times> world" where
  "create_exclusive p m w =
     (case take_fault w of
        (Some (e, n), w) \<Rightarrow> (Some e, w)
      | (None, w) \<Rightarrow>
          if fs w p \<noteq> None then (Some EEXIST, w)
          else if p = [] \<or> name_too_long p \<or> \<not> dir_at w (butlast p)
          then (Some (absent_errno w p), w)
          else (None, set_fs p (Reg (m AND NOT (umask w)) '''') w))"

fun create_temp :: "nat \<Rightarrow> (nat \<Rightarrow> string) \<Rightarrow> string \<Rightarrow> world \<Rightarrow> (goerror + string) \<times> world" where
  "create_temp 0 random pre w = (Inl (PathError ''createtemp'' (pre @ ''*'') EEXIST), w)"
| "create_temp (Suc k) random pre w =
     (let name = pre @ random k
      in case create_exclusive (locate name) 0x180 w of
        (None, w) \<Rightarrow> (Inr name, w)
      | (Some e, w) \<Rightarrow>
          if e = EEXIST then create_temp k random pre w
          else (Inl (PathError ''open'' name e), w))"

definition os_CreateTemp :: "(nat \<Rightarrow> string) \<Rightarrow> string \<Rightarrow> string \<Rightarrow> world \<Rightarrow> (goerror + string) \<times> world" where
  "os_CreateTemp random dir pattern w =
     create_temp 10000 random (join_path (if dir = '''' then ''/tmp'' else dir) pattern) w"

end
