(* ===== verification/Os_Facts.thy ===== *)
theory Os_Facts
  imports Go_Os
begin

section \<open>What the file operations change\<close>

text \<open>
  Frame facts (what each operation leaves alone, whatever the kernel refuses), preservation of a
  well-formed tree, and the results where nothing is refused.
\<close>

lemmas call_splits = prod.split_asm sum.split_asm option.split_asm if_split_asm inode.split_asm

lemma child_names_cong: "tree w = tree w' \<Longrightarrow> child_names w = child_names w'"
  by (simp add: child_names_def fun_eq_iff)

text \<open>Every system call starts by asking for a refusal; the tree is the one before.\<close>

lemma take_fault_obtain:
  obtains r w1 where "take_fault w = (r, w1)" "only_fs w w1" "tree w1 = tree w"
    "umask w1 = umask w" "mounted_at w1 = mounted_at w"
    "fs w1 = fs w" "dir_at w1 = dir_at w" "child_names w1 = child_names w"
proof -
  obtain r w1 where t: "take_fault w = (r, w1)" by fastforce
  then have o: "only_fs w w1" and tr: "tree w1 = tree w" by (rule take_fault_frame)+
  show ?thesis
    by (rule that [OF t o tr]) (use o tr in \<open>auto dest: only_fsD intro: fs_cong dir_at_cong child_names_cong\<close>)
qed

subsection \<open>System calls\<close>

lemma sys_stat_frame [frame]:
  assumes "sys_stat p w = (r, w')"
  shows "only_fs w w'" "tree w' = tree w"
  using assms by (auto simp: sys_stat_def split: call_splits dest: take_fault_frame)

lemma sys_stat_Inr: "sys_stat p w = (Inr i, w') \<Longrightarrow> fs w p = Some i"
  by (auto simp: sys_stat_def fs_def split: call_splits dest!: take_fault_frame(2))

lemma sys_stat_healthy:
  "healthy w \<Longrightarrow> sys_stat p w = (r, w') \<Longrightarrow>
     r = (case fs w p of None \<Rightarrow> Inl (absent_errno w' p) | Some i \<Rightarrow> Inr i)"
  by (auto simp: sys_stat_def fs_def split: call_splits
      dest: take_fault_frame(2) take_fault_healthy)

lemma sys_mkdir_Some: "sys_mkdir p m w = (Some e, w') \<Longrightarrow> only_fs w w' \<and> tree w' = tree w"
  by (auto simp: sys_mkdir_def split: call_splits dest: take_fault_frame)

lemma sys_mkdir_None:
  assumes "sys_mkdir p m w = (None, w')"
  shows "\<exists>w1. only_fs w w1 \<and> tree w1 = tree w \<and> w' = set_fs p (Dir (m AND NOT (umask w))) w1 \<and>
     fs w p = None \<and> p \<noteq> [] \<and> \<not> name_too_long p \<and> dir_at w (butlast p)"
  using assms
  by (rule_tac take_fault_obtain [of w]) (auto simp: sys_mkdir_def split: call_splits)

lemma sys_chmod_Some: "sys_chmod p m w = (Some e, w') \<Longrightarrow> only_fs w w' \<and> tree w' = tree w"
  by (auto simp: sys_chmod_def split: call_splits dest: take_fault_frame)

lemma sys_chmod_None:
  assumes "sys_chmod p m w = (None, w')"
  shows "\<exists>w1 i. only_fs w w1 \<and> tree w1 = tree w \<and> fs w p = Some i \<and> w' = set_fs p (with_mode m i) w1"
  using assms
  by (rule_tac take_fault_obtain [of w]) (auto simp: sys_chmod_def split: call_splits)

lemma sys_unlink_Some: "sys_unlink p w = (Some e, w') \<Longrightarrow> only_fs w w' \<and> tree w' = tree w"
  by (auto simp: sys_unlink_def split: call_splits dest: take_fault_frame)

lemma sys_unlink_None:
  assumes "sys_unlink p w = (None, w')"
  shows "\<exists>w1. only_fs w w1 \<and> tree w1 = tree w \<and> w' = del_fs p w1 \<and> fs w p \<noteq> None \<and> \<not> dir_at w p"
  using assms
  by (rule_tac take_fault_obtain [of w]) (auto simp: sys_unlink_def split: call_splits)

lemma sys_rmdir_Some: "sys_rmdir p w = (Some e, w') \<Longrightarrow> only_fs w w' \<and> tree w' = tree w"
  by (auto simp: sys_rmdir_def split: call_splits dest: take_fault_frame)

lemma sys_rmdir_None:
  assumes "sys_rmdir p w = (None, w')"
  shows "\<exists>w1. only_fs w w1 \<and> tree w1 = tree w \<and> w' = del_fs p w1 \<and> dir_at w p \<and> p \<noteq> [] \<and>
     \<not> mounted_at w p \<and> child_names w p = []"
  using assms
  by (rule_tac take_fault_obtain [of w]) (auto simp: sys_rmdir_def split: call_splits)

lemma child_names_iff: "c \<in> set (child_names w p) \<longleftrightarrow> fs w (p @ [c]) \<noteq> None"
proof -
  have "c \<in> set (child_names w p) \<longleftrightarrow> (\<exists>q. fs w q \<noteq> None \<and> q \<noteq> [] \<and> butlast q = p \<and> last q = c)"
    unfolding child_names_def fs_in_tree set_map set_filter by blast
  also have "\<dots> \<longleftrightarrow> fs w (p @ [c]) \<noteq> None"
    by (metis append_butlast_last_id butlast_snoc last_snoc snoc_eq_iff_butlast)
  finally show ?thesis .
qed

lemma child_names_Nil:
  "child_names w p = [] \<longleftrightarrow> (\<forall>c. fs w (p @ [c]) = None)"
  using child_names_iff [of _ w p] by (metis empty_iff empty_set last_in_set)

lemma sys_call_wf:
  assumes "wf_tree w"
  shows "sys_mkdir p m w = (r, w') \<Longrightarrow> wf_tree w'"
    and "sys_chmod p m w = (r, w') \<Longrightarrow> wf_tree w'"
    and "sys_rmdir p w = (r, w') \<Longrightarrow> wf_tree w'"
    and "sys_unlink p w = (r, w') \<Longrightarrow> wf_tree w'"
proof -
  have cong: "tree w1 = tree w \<Longrightarrow> wf_tree w1 \<and> fs w1 = fs w \<and> dir_at w1 = dir_at w" for w1
    using assms wf_tree_cong [of w1 w] fs_cong [of w1 w] dir_at_cong [of w1 w] by simp
  show "wf_tree w'" if "sys_mkdir p m w = (r, w')"
    using that by (cases r) (auto dest!: sys_mkdir_Some sys_mkdir_None cong intro!: wf_tree_set_fs)
  show "wf_tree w'" if "sys_chmod p m w = (r, w')"
  proof (cases r)
    case None
    with that obtain w1 i where w1: "tree w1 = tree w" "fs w p = Some i"
      and w': "w' = set_fs p (with_mode m i) w1" by (auto dest!: sys_chmod_None)
    then have "is_Dir i \<or> p \<noteq> [] \<and> \<not> dir_at w1 p"
      using assms cong [OF w1(1)] by (auto simp: wf_tree_fs dir_at_def split: option.splits)
    moreover have "p = [] \<or> dir_at w1 (butlast p)"
      using assms cong [OF w1(1)] w1(2) by (auto simp: wf_tree_fs)
    ultimately show ?thesis
      using cong [OF w1(1)] unfolding w' by (intro wf_tree_set_fs) auto
  qed (use that cong in \<open>auto dest!: sys_chmod_Some\<close>)
  show "wf_tree w'" if "sys_rmdir p w = (r, w')"
  proof (cases r)
    case None
    with that obtain w1 where w1: "tree w1 = tree w" "p \<noteq> []" "child_names w p = []"
      and w': "w' = del_fs p w1" by (auto dest!: sys_rmdir_None)
    then show ?thesis
      using cong [OF w1(1)] unfolding w' child_names_Nil
      by (intro wf_tree_del_fs) (auto, metis append_butlast_last_id option.distinct(1))
  qed (use that cong in \<open>auto dest!: sys_rmdir_Some\<close>)
  show "wf_tree w'" if "sys_unlink p w = (r, w')"
  proof (cases r)
    case None
    with that obtain w1 where w1: "tree w1 = tree w" "\<not> dir_at w p"
      and w': "w' = del_fs p w1" by (auto dest!: sys_unlink_None)
    then show ?thesis
      using cong [OF w1(1)] assms unfolding w'
      by (intro wf_tree_del_fs) (auto simp: wf_tree_fs)
  qed (use that cong in \<open>auto dest!: sys_unlink_Some\<close>)
qed

subsection \<open>os.MkdirAll and os.Chmod\<close>

text \<open>\<open>MkdirAll\<close> adds directories on the way to the place and touches nothing else.\<close>

definition grows_to :: "path \<Rightarrow> mode \<Rightarrow> world \<Rightarrow> world \<Rightarrow> bool" where
  "grows_to p m w w' \<longleftrightarrow>
     only_fs w w' \<and>
     (\<forall>q. fs w' q = fs w q \<or>
          (fs w q = None \<and> fs w' q = Some (Dir (m AND NOT (umask w))) \<and> prefix q p))"

lemma grows_to_same: "only_fs w w' \<Longrightarrow> tree w' = tree w \<Longrightarrow> grows_to p m w w'"
  by (auto simp: grows_to_def dest: fs_cong)

lemma grows_to_mono: "grows_to p m w w' \<Longrightarrow> prefix p q \<Longrightarrow> grows_to q m w w'"
  by (auto simp: grows_to_def intro: prefix_order.trans)

lemma grows_to_trans:
  assumes "grows_to p m w w'" "grows_to p m w' w''"
  shows "grows_to p m w w''"
proof -
  have u: "umask w' = umask w" using assms(1) by (auto simp: grows_to_def dest: only_fsD)
  have "fs w'' q = fs w q \<or>
      (fs w q = None \<and> fs w'' q = Some (Dir (m AND NOT (umask w))) \<and> prefix q p)" for q
    using assms unfolding grows_to_def u by (elim conjE allE [of _ q]) auto
  moreover have "only_fs w w''"
    using assms by (auto simp: grows_to_def intro: only_fs_trans)
  ultimately show ?thesis by (simp add: grows_to_def)
qed

lemma grows_to_dir_at: "grows_to p m w w' \<Longrightarrow> dir_at w q \<Longrightarrow> dir_at w' q"
  unfolding grows_to_def dir_at_iff by (metis option.distinct(1))

lemma sys_mkdir_grows: "sys_mkdir p m w = (r, w') \<Longrightarrow> grows_to p m w w'"
proof (cases r)
  case None
  assume "sys_mkdir p m w = (r, w')"
  with None obtain w1 where "only_fs w w1" "tree w1 = tree w" "fs w p = None"
    "w' = set_fs p (Dir (m AND NOT (umask w))) w1" by (auto dest!: sys_mkdir_None)
  then show ?thesis using fs_cong [of w1 w] by (auto simp: grows_to_def)
qed (auto dest!: sys_mkdir_Some intro: grows_to_same)

lemma mkdir_last_facts:
  assumes "mkdir_last p m w = (r, w')"
  shows "grows_to p m w w'" "wf_tree w \<Longrightarrow> wf_tree w'" "r = None \<Longrightarrow> dir_at w' p"
proof -
  obtain e w1 where mk: "sys_mkdir p m w = (e, w1)" by fastforce
  have g: "grows_to p m w w1" and wf: "wf_tree w \<Longrightarrow> wf_tree w1"
    using mk by (auto intro: sys_mkdir_grows sys_call_wf(1))
  have "grows_to p m w w' \<and> (wf_tree w \<longrightarrow> wf_tree w') \<and> (r = None \<longrightarrow> dir_at w' p)"
  proof (cases e)
    case None
    then show ?thesis using assms mk g wf
      by (auto simp: mkdir_last_def dir_at_def dest!: sys_mkdir_None)
  next
    case (Some x)
    obtain i w2 where st: "sys_stat p w1 = (i, w2)" by fastforce
    have "w' = w2" "r = None \<Longrightarrow> \<exists>j. i = Inr j \<and> is_Dir j"
      using assms mk Some st by (auto simp: mkdir_last_def split: call_splits)
    moreover have "only_fs w1 w2" "tree w2 = tree w1" using st by (auto dest: sys_stat_frame)
    moreover have "grows_to p m w w2"
      using g calculation(3,4) by (blast intro: grows_to_trans grows_to_same)
    ultimately show ?thesis
      using wf st fs_cong [of w2 w1] wf_tree_cong [of w2 w1]
      by (auto simp: dir_at_def dest!: sys_stat_Inr)
  qed
  then show "grows_to p m w w'" "wf_tree w \<Longrightarrow> wf_tree w'" "r = None \<Longrightarrow> dir_at w' p" by auto
qed

lemma mkdir_all_facts:
  "mkdir_all up m w = (r, w') \<Longrightarrow>
     grows_to (rev up) m w w' \<and> (wf_tree w \<longrightarrow> wf_tree w') \<and> (r = None \<longrightarrow> dir_at w' (rev up))"
proof (induction up arbitrary: w r w')
  case Nil
  obtain i w1 where st: "sys_stat [] w = (i, w1)" by fastforce
  then have 1: "only_fs w w1" "tree w1 = tree w" by (auto dest: sys_stat_frame)
  show ?case
  proof (cases i)
    case (Inr j)
    then show ?thesis using Nil st 1 fs_cong [of w1 w] wf_tree_cong [of w1 w]
      by (auto simp: dir_at_def intro: grows_to_same dest!: sys_stat_Inr split: if_splits)
  next
    case (Inl e)
    with Nil st have "mkdir_last [] m w1 = (r, w')" by simp
    from mkdir_last_facts [OF this] 1 wf_tree_cong [of w1 w] show ?thesis
      by (auto intro: grows_to_trans [OF grows_to_same])
  qed
next
  case (Cons c up)
  let ?p = "rev (c # up)"
  obtain i w1 where st: "sys_stat ?p w = (i, w1)" by fastforce
  then have 1: "only_fs w w1" "tree w1 = tree w" by (auto dest: sys_stat_frame)
  then have g1: "grows_to q m w w1" for q by (rule grows_to_same)
  show ?case
  proof (cases i)
    case (Inr j)
    then show ?thesis using Cons.prems st 1 fs_cong [of w1 w] wf_tree_cong [of w1 w]
      by (auto simp: dir_at_def Let_def intro: grows_to_same dest!: sys_stat_Inr split: if_splits)
  next
    case (Inl e)
    obtain x w2 where up: "mkdir_all up m w1 = (x, w2)" by fastforce
    note IH = Cons.IH [OF up]
    have g2: "grows_to ?p m w w2"
      using grows_to_mono [of "rev up" m w1 w2 ?p] IH by (auto intro: grows_to_trans [OF g1])
    show ?thesis
    proof (cases x)
      case None
      with Cons.prems st Inl up have "mkdir_last ?p m w2 = (r, w')" by (simp add: Let_def)
      from mkdir_last_facts [OF this] show ?thesis
        using grows_to_trans [OF g2] IH 1 wf_tree_cong [of w1 w] by auto
    next
      case (Some y)
      with Cons.prems st Inl up have "r = Some y" "w' = w2" by (auto simp: Let_def)
      with g2 IH 1 wf_tree_cong [of w1 w] show ?thesis by auto
    qed
  qed
qed

lemma os_MkdirAll_facts:
  assumes "os_MkdirAll s m w = (r, w')"
  shows "grows_to (locate s) m w w'" "wf_tree w \<Longrightarrow> wf_tree w'" "r = None \<Longrightarrow> dir_at w' (locate s)"
  using assms mkdir_all_facts [of "rev (locate s)" m w r w']
  by (auto simp: os_MkdirAll_def intro: grows_to_same split: if_splits)

text \<open>Where nothing is refused, a place all of whose way is free or a directory is made.\<close>

lemma mkdir_all_healthy:
  assumes "healthy w" "wf_tree w" "\<not> name_too_long (rev up)"
    "\<And>q. prefix q (rev up) \<Longrightarrow> fs w q = None \<or> dir_at w q"
  shows "\<exists>w'. mkdir_all up m w = (None, w') \<and> healthy w'"
  using assms
proof (induction up arbitrary: w)
  case Nil
  obtain i w1 where st: "sys_stat [] w = (i, w1)" by fastforce
  moreover have "dir_at w []" using Nil.prems(2) by (simp add: wf_tree_fs)
  ultimately show ?case
    using Nil.prems(1) sys_stat_healthy [OF Nil.prems(1) st] only_fsD(7) [OF sys_stat_frame(1) [OF st]]
    by (auto simp: dir_at_iff)
next
  case (Cons c up)
  let ?p = "rev (c # up)"
  obtain i w1 where st: "sys_stat ?p w = (i, w1)" by fastforce
  then have 1: "only_fs w w1" "tree w1 = tree w" by (auto dest: sys_stat_frame)
  then have h1: "healthy w1" using Cons.prems(1) by (auto dest: only_fsD)
  note sth = sys_stat_healthy [OF Cons.prems(1) st]
  show ?case
  proof (cases "fs w ?p")
    case (Some j)
    with Cons.prems(4) [of ?p] sth st h1 show ?thesis by (auto simp: dir_at_def)
  next
    case None
    have "\<exists>w2. mkdir_all up m w1 = (None, w2) \<and> healthy w2"
      using Cons.prems h1 fs_cong [OF 1(2)] dir_at_cong [OF 1(2)] wf_tree_cong [OF 1(2)]
      by (intro Cons.IH) (auto simp: name_too_long_def)
    then obtain w2 where up: "mkdir_all up m w1 = (None, w2)" and h2: "healthy w2" by blast
    have d2: "dir_at w2 (rev up)" using mkdir_all_facts [OF up] by simp
    obtain x w3 where t: "take_fault w2 = (x, w3)" by fastforce
    have x: "x = None" and w3: "tree w3 = tree w2" "healthy w3"
      using take_fault_healthy [OF h2 t] take_fault_frame [OF t] h2 by (auto dest: only_fsD)
    have "\<exists>w4. sys_mkdir ?p m w2 = (None, w4) \<and> healthy w4 \<or>
        (\<exists>e. sys_mkdir ?p m w2 = (Some e, w3) \<and> dir_at w3 ?p)"
    proof (cases "fs w2 ?p = None")
      case True
      then show ?thesis
        using t x d2 Cons.prems(3) fs_cong [OF w3(1)] dir_at_cong [OF w3(1)] w3(2)
        by (auto simp: sys_mkdir_def healthy_def)
    next
      case False
      then have "dir_at w2 ?p"
        using mkdir_all_facts [OF up] None fs_cong [OF 1(2)]
        by (auto simp: grows_to_def dir_at_iff dest!: spec [of _ "rev up @ [c]"])
      with False show ?thesis
        using t x fs_cong [OF w3(1)] dir_at_cong [OF w3(1)] by (auto simp: sys_mkdir_def)
    qed
    then show ?thesis
    proof (elim exE disjE conjE)
      fix w4 assume "sys_mkdir ?p m w2 = (None, w4)" "healthy w4"
      then show ?thesis using st sth None up by (simp add: mkdir_last_def)
    next
      fix e assume mk: "sys_mkdir ?p m w2 = (Some e, w3)" and d: "dir_at w3 ?p"
      obtain j w5 where s5: "sys_stat ?p w3 = (j, w5)" by fastforce
      have "healthy w5" using s5 w3(2) by (auto dest: sys_stat_frame only_fsD)
      then show ?thesis
        using st sth None up mk s5 sys_stat_healthy [OF w3(2) s5] d
        by (auto simp: mkdir_last_def dir_at_iff)
    qed
  qed
qed

lemma os_Chmod_None:
  assumes "os_Chmod s m w = (None, w')"
  shows "\<exists>i. fs w (locate s) = Some i \<and> fs w' = (fs w)(locate s \<mapsto> with_mode m i) \<and> only_fs w w'"
  using assms
  by (auto simp: os_Chmod_def dest!: sys_chmod_None split: call_splits)
    (metis fs_cong only_fs_set_fs)

lemma os_Chmod_Some: "os_Chmod s m w = (Some e, w') \<Longrightarrow> only_fs w w' \<and> tree w' = tree w"
  by (auto simp: os_Chmod_def dest: sys_chmod_Some split: call_splits)

lemma os_Chmod_wf: "wf_tree w \<Longrightarrow> os_Chmod s m w = (r, w') \<Longrightarrow> wf_tree w'"
  by (auto simp: os_Chmod_def dest: sys_call_wf(2) split: call_splits)

lemma os_Chmod_healthy:
  assumes "healthy w" "fs w (locate s) \<noteq> None"
  shows "\<exists>w'. os_Chmod s m w = (None, w') \<and> healthy w'"
proof (rule take_fault_obtain [of w])
  fix r w1 assume "take_fault w = (r, w1)" "only_fs w w1" "fs w1 = fs w"
  moreover from this have "r = None" "healthy w1"
    using assms(1) by (auto dest: take_fault_healthy only_fsD)
  ultimately show ?thesis
    using assms(2) by (auto simp: os_Chmod_def sys_chmod_def healthy_def)
qed

end
