(* ===== verification/Os_Remove.thy ===== *)
theory Os_Remove
  imports Os_Facts
begin

section \<open>What removals, reads and writes do\<close>

text \<open>
  \<open>Remove\<close> takes one file or one empty directory away and nothing else; \<open>RemoveAll\<close>
  touches nothing outside its place, and reports success only when everything at and below the
  place is gone. Both need a kernel that answers ENOENT only where there is nothing
  (\<open>honest\<close>), since package \<open>os\<close> takes that answer for a removal.
\<close>

definition honest :: "world \<Rightarrow> bool" where
  "honest w \<longleftrightarrow> list_all (\<lambda>f. case f of None \<Rightarrow> True | Some (e, n) \<Rightarrow> e \<noteq> ENOENT) (faults w)"

lemma honest_only_fs: "only_fs w w' \<Longrightarrow> honest w \<Longrightarrow> honest w'"
  by (auto simp: only_fs_def honest_def suffix_def)

lemma healthy_honest: "healthy w \<Longrightarrow> honest w"
  by (auto simp: honest_def healthy_def list_all_iff)

lemma take_fault_honest: "honest w \<Longrightarrow> take_fault w = (Some (e, n), w') \<Longrightarrow> e \<noteq> ENOENT"
  by (auto simp: honest_def take_fault_def split: list.splits)

subsection \<open>os.Remove\<close>

lemma os_Remove_Some: "os_Remove s w = (Some e, w') \<Longrightarrow> only_fs w w' \<and> tree w' = tree w"
  by (auto simp: os_Remove_def split: call_splits
      dest!: sys_unlink_Some sys_rmdir_Some intro: only_fs_trans)

lemma os_Remove_None:
  assumes "os_Remove s w = (None, w')"
  shows "only_fs w w' \<and> fs w (locate s) \<noteq> None \<and> fs w' = (fs w)(locate s := None) \<and>
     (dir_at w (locate s) \<longrightarrow>
        locate s \<noteq> [] \<and> \<not> mounted_at w (locate s) \<and> child_names w (locate s) = [])"
proof -
  let ?p = "locate s"
  obtain e w1 where u: "sys_unlink ?p w = (e, w1)" by fastforce
  show ?thesis
  proof (cases e)
    case None
    with u assms have "w' = w1" by (simp add: os_Remove_def)
    with u None show ?thesis
      by (auto dest!: sys_unlink_None dest: fs_cong)
  next
    case (Some x)
    with u assms have r: "sys_rmdir ?p w1 = (None, w')"
      by (auto simp: os_Remove_def split: call_splits)
    from u Some have 1: "only_fs w w1" "tree w1 = tree w" by (auto dest: sys_unlink_Some)
    from sys_rmdir_None [OF r] obtain w2 where 2: "only_fs w1 w2" "tree w2 = tree w1"
      "w' = del_fs ?p w2" "dir_at w1 ?p" "?p \<noteq> []" "\<not> mounted_at w1 ?p" "child_names w1 ?p = []"
      by blast
    have "fs w2 = fs w" "dir_at w1 = dir_at w" "mounted_at w1 = mounted_at w"
      "child_names w1 = child_names w" "only_fs w w2"
      using 1 2(1,2) by (auto intro: fs_cong dir_at_cong child_names_cong only_fs_trans dest: only_fsD)
    with 2 show ?thesis by (auto simp: dir_at_iff)
  qed
qed

text \<open>``Not exist'' is the truth where the environment injects no such refusal.\<close>

lemma os_Remove_not_exist:
  assumes "honest w" "os_Remove s w = (Some e, w')" "os_IsNotExist e"
  shows "fs w (locate s) = None"
proof (rule take_fault_obtain [of w])
  fix t w0 assume t: "take_fault w = (t, w0)" "only_fs w w0" "fs w0 = fs w" "dir_at w0 = dir_at w"
    "mounted_at w0 = mounted_at w"
  show ?thesis
  proof (rule take_fault_obtain [of w0])
    fix t' w2 assume t': "take_fault w0 = (t', w2)" "fs w2 = fs w0" "dir_at w2 = dir_at w0"
    have "honest w0" using assms(1) t(2) by (rule honest_only_fs [rotated])
    then show ?thesis
      using assms(2,3) t t' take_fault_honest [OF assms(1)] take_fault_honest [of w0]
      by (auto simp: os_Remove_def sys_unlink_def sys_rmdir_def split: call_splits)
  qed
qed

lemma os_Remove_wf: "wf_tree w \<Longrightarrow> os_Remove s w = (r, w') \<Longrightarrow> wf_tree w'"
  by (auto simp: os_Remove_def split: call_splits dest: sys_call_wf(3,4))

lemma os_Remove_only_fs: "os_Remove s w = (r, w') \<Longrightarrow> only_fs w w'"
  by (cases r) (auto dest: os_Remove_None os_Remove_Some)

lemma absent_errno_cong: "tree w = tree w' \<Longrightarrow> absent_errno w = absent_errno w'"
  by (simp add: absent_errno_def fs_def dir_at_def fun_eq_iff)

text \<open>The two calls of \<open>Remove\<close> where nothing is refused.\<close>

lemma sys_unlink_healthy:
  assumes "healthy w"
  shows "\<exists>w'. sys_unlink p w =
      (if fs w p = None then Some (absent_errno w p)
       else if dir_at w p then Some EISDIR
       else if mounted_at w p then Some EBUSY else None, w') \<and> healthy w'"
proof (rule take_fault_obtain [of w])
  fix r w1 assume a: "take_fault w = (r, w1)" "only_fs w w1" "fs w1 = fs w" "dir_at w1 = dir_at w"
    "mounted_at w1 = mounted_at w" "tree w1 = tree w"
  then have "r = None" "healthy w1" "absent_errno w1 = absent_errno w"
    using assms by (auto dest: take_fault_healthy only_fsD intro: absent_errno_cong)
  with a show ?thesis by (auto simp: sys_unlink_def healthy_def)
qed

lemma sys_rmdir_healthy:
  assumes "healthy w"
  shows "\<exists>w'. sys_rmdir p w =
      (if fs w p = None then Some (absent_errno w p)
       else if \<not> dir_at w p then Some ENOTDIR
       else if p = [] \<or> mounted_at w p then Some EBUSY
       else if child_names w p \<noteq> [] then Some ENOTEMPTY else None, w') \<and> healthy w'"
proof (rule take_fault_obtain [of w])
  fix r w1 assume a: "take_fault w = (r, w1)" "only_fs w w1" "fs w1 = fs w" "dir_at w1 = dir_at w"
    "mounted_at w1 = mounted_at w" "child_names w1 = child_names w" "tree w1 = tree w"
  then have "r = None" "healthy w1" "absent_errno w1 = absent_errno w"
    using assms by (auto dest: take_fault_healthy only_fsD intro: absent_errno_cong)
  with a show ?thesis by (auto simp: sys_rmdir_def healthy_def)
qed

lemma os_Remove_healthy:
  assumes "healthy w"
  shows "\<exists>w'. os_Remove s w =
      (let p = locate s
       in if fs w p = None then Some (PathError ''remove'' s (absent_errno w p))
          else if dir_at w p then
            if p = [] \<or> mounted_at w p then Some (PathError ''remove'' s EBUSY)
            else if child_names w p \<noteq> [] then Some (PathError ''remove'' s ENOTEMPTY) else None
          else if mounted_at w p then Some (PathError ''remove'' s EBUSY) else None, w') \<and> healthy w'"
proof -
  let ?p = "locate s"
  obtain e w1 where u: "sys_unlink ?p w = (e, w1)" by fastforce
  note U = sys_unlink_healthy [OF assms, of ?p]
  show ?thesis
  proof (cases e)
    case None
    with u U show ?thesis by (auto simp: os_Remove_def Let_def split: if_splits)
  next
    case (Some x)
    then have 1: "only_fs w w1" "tree w1 = tree w" using u by (auto dest: sys_unlink_Some)
    then have "healthy w1" "mounted_at w1 = mounted_at w" using assms by (auto dest: only_fsD)
    moreover note sys_rmdir_healthy [OF this(1), of ?p]
    ultimately show ?thesis
      using u U Some fs_cong [OF 1(2)] dir_at_cong [OF 1(2)] child_names_cong [OF 1(2)]
        absent_errno_cong [OF 1(2)]
      by (auto simp: os_Remove_def Let_def dir_at_iff split: if_splits)
  qed
qed

subsection \<open>os.RemoveAll\<close>

definition removes_below :: "path \<Rightarrow> world \<Rightarrow> world \<Rightarrow> bool" where
  "removes_below p w w' \<longleftrightarrow>
     only_fs w w' \<and> (\<forall>q. fs w' q = fs w q \<or> (prefix p q \<and> fs w' q = None))"

lemma removes_below_trans:
  "removes_below p w w' \<Longrightarrow> removes_below p w' w'' \<Longrightarrow> removes_below p w w''"
  unfolding removes_below_def by (metis only_fs_trans)

lemma removes_below_same: "only_fs w w' \<Longrightarrow> tree w' = tree w \<Longrightarrow> removes_below p w w'"
  by (auto simp: removes_below_def dest: fs_cong)

lemma remove_entry_facts:
  assumes "remove_entry p w = (r, w')"
  shows "removes_below p w w'" "wf_tree w \<Longrightarrow> wf_tree w'"
    "honest w \<Longrightarrow> r = None \<Longrightarrow> fs w' p = None"
proof -
  obtain e w1 where c: "(if dir_at w p then sys_rmdir p w else sys_unlink p w) = (e, w1)"
    by fastforce
  then have w': "w' = w1" and r: "r = None \<longleftrightarrow> e = None \<or> e = Some ENOENT"
    using assms by (auto simp: remove_entry_def split: call_splits)
  have rm: "removes_below p w w1 \<and> (e = None \<longrightarrow> fs w1 p = None)"
  proof (cases e)
    case None
    with c obtain w0 where "only_fs w w0" "tree w0 = tree w" "w1 = del_fs p w0"
      by (auto dest!: sys_rmdir_None sys_unlink_None split: if_splits)
    then show ?thesis using fs_cong [of w0 w] by (auto simp: removes_below_def)
  qed (use c in \<open>auto dest!: sys_rmdir_Some sys_unlink_Some split: if_splits intro: removes_below_same\<close>)
  show "removes_below p w w'" using rm w' by simp
  show "wf_tree w'" if "wf_tree w"
    using c that w' by (auto dest: sys_call_wf split: if_splits)
  show "fs w' p = None" if h: "honest w" and n: "r = None"
  proof (cases e)
    case (Some x)
    with n r have x: "e = Some ENOENT" by simp
    have "fs w p = None"
    proof (rule take_fault_obtain [of w])
      fix t w0 assume "take_fault w = (t, w0)" "fs w0 = fs w" "dir_at w0 = dir_at w"
      then show ?thesis
        using c x take_fault_honest [OF h]
        by (auto simp: sys_rmdir_def sys_unlink_def split: call_splits)
    qed
    moreover have "tree w1 = tree w"
      using c x by (auto dest: sys_rmdir_Some sys_unlink_Some split: if_splits)
    ultimately show ?thesis using w' fs_cong by metis
  qed (use rm w' in simp)
qed

lemma remove_entries_facts:
  "remove_entries ps w = (r, w') \<Longrightarrow> \<forall>q \<in> set ps. prefix p q \<Longrightarrow>
     removes_below p w w' \<and> (wf_tree w \<longrightarrow> wf_tree w') \<and>
     (honest w \<longrightarrow> r = None \<longrightarrow> (\<forall>q \<in> set ps. fs w' q = None))"
proof (induction ps arbitrary: w r)
  case Nil
  then show ?case by (auto intro: removes_below_same)
next
  case (Cons q ps)
  obtain e w1 where e: "remove_entry q w = (e, w1)" by fastforce
  obtain r' where r': "remove_entries ps w1 = (r', w')" and r: "r = None \<longleftrightarrow> e = None \<and> r' = None"
    using Cons.prems(1) e by (auto split: call_splits)
  note IH = Cons.IH [OF r']
  have b1: "removes_below p w w1"
    using remove_entry_facts(1) [OF e] Cons.prems(2)
    by (auto simp: removes_below_def intro: prefix_order.trans)
  have gone: "fs w' x = None" if "fs w1 x = None" for x
    using IH Cons.prems(2) that by (auto simp: removes_below_def dest!: spec [of _ x])
  have "honest w \<Longrightarrow> honest w1" using b1 by (auto simp: removes_below_def intro: honest_only_fs)
  then show ?case
    using IH Cons.prems(2) removes_below_trans [OF b1] remove_entry_facts(2,3) [OF e] gone r by auto
qed

lemma places_below_set: "q \<in> set (places_below w p) \<longleftrightarrow> prefix p q \<and> fs w q \<noteq> None"
  by (simp add: places_below_def fs_in_tree conj_commute del: not_None_eq)

lemma places_below_cong: "tree w = tree w' \<Longrightarrow> places_below w = places_below w'"
  by (simp add: places_below_def fun_eq_iff)

lemma os_RemoveAll_facts:
  assumes "os_RemoveAll s w = (r, w')"
  shows "removes_below (locate s) w w'" "wf_tree w \<Longrightarrow> wf_tree w'"
proof -
  let ?p = "locate s"
  obtain e w1 where e: "os_Remove s w = (e, w1)" by fastforce
  have b1: "removes_below ?p w w1"
    using e by (cases e) (auto simp: removes_below_def dest!: os_Remove_None os_Remove_Some dest: fs_cong split: if_splits)
  have wf1: "wf_tree w \<Longrightarrow> wf_tree w1" using e by (auto dest: os_Remove_wf)
  have "removes_below ?p w w' \<and> (wf_tree w \<longrightarrow> wf_tree w')"
  proof (cases "w' = w1 \<or> w' = w")
    case False
    with assms e have "remove_entries (rev (places_below w1 ?p)) w1 = (r, w')"
      by (auto simp: os_RemoveAll_def split: call_splits)
    from remove_entries_facts [OF this, of ?p] show ?thesis
      using b1 wf1 by (auto simp: places_below_set intro: removes_below_trans)
  qed (use b1 wf1 in \<open>auto intro: removes_below_same\<close>)
  then show "removes_below ?p w w'" "wf_tree w \<Longrightarrow> wf_tree w'" by auto
qed

text \<open>A success of \<open>RemoveAll\<close> is a place with nothing at or below it.\<close>

lemma os_RemoveAll_gone:
  assumes wf: "wf_tree w" and h: "honest w" and s: "s \<noteq> ''''"
    and call: "os_RemoveAll s w = (None, w')" and q: "prefix (locate s) q"
  shows "fs w' q = None"
proof -
  let ?p = "locate s"
  have wf': "wf_tree w'" using os_RemoveAll_facts(2) [OF call wf] .
  have "fs w' ?p = None"
  proof -
    obtain e w1 where e: "os_Remove s w = (e, w1)" by fastforce
    show ?thesis
    proof (cases e)
      case None
      with e s call show ?thesis by (auto simp: os_RemoveAll_def dest!: os_Remove_None)
    next
      case (Some x)
      then have 1: "only_fs w w1" "tree w1 = tree w" using e by (auto dest: os_Remove_Some)
      show ?thesis
      proof (cases "os_IsNotExist x")
        case True
        have "fs w ?p = None" using os_Remove_not_exist [OF h e [unfolded Some] True] .
        then show ?thesis
          using call s e Some True fs_cong [OF 1(2)] by (simp add: os_RemoveAll_def)
      next
        case False
        with call s e Some have re: "remove_entries (rev (places_below w1 ?p)) w1 = (None, w')"
          by (simp add: os_RemoveAll_def)
        note R = remove_entries_facts [OF re, of ?p]
        have "honest w1" using h 1(1) by (rule honest_only_fs [rotated])
        then show ?thesis
          using R by (cases "fs w1 ?p") (auto simp: places_below_set removes_below_def dest: spec [of _ ?p])
      qed
    qed
  qed
  then show ?thesis
    using q wf_tree_prefix [OF wf', of ?p] by (fastforce simp: prefix_def dir_at_iff)
qed

text \<open>Where nothing is refused and nothing is mounted there, \<open>RemoveAll\<close> succeeds.\<close>

lemma less_eq_append_path: "(q::path) \<le> q @ r"
  by (induction q) (auto simp: Cons_le_Cons Nil_le_Cons)

lemma remove_entries_healthy:
  assumes "healthy w" "wf_tree w"
    "\<And>q. prefix p q \<Longrightarrow> fs w q \<noteq> None \<Longrightarrow> q \<in> set ps"
    "\<And>q. q \<in> set ps \<Longrightarrow> prefix p q \<and> q \<noteq> [] \<and> \<not> mounted_at w q \<and> fs w q \<noteq> None"
    "sorted (rev ps)" "distinct ps"
  shows "\<exists>w'. remove_entries ps w = (None, w') \<and> healthy w'"
  using assms
proof (induction ps arbitrary: w)
  case (Cons q ps)
  have q: "prefix p q" "q \<noteq> []" "\<not> mounted_at w q" "fs w q \<noteq> None" using Cons.prems(4) by auto
  have nochild: "child_names w q = []"
  proof (rule ccontr)
    assume "child_names w q \<noteq> []"
    then obtain c where c: "fs w (q @ [c]) \<noteq> None"
      by (auto simp: child_names_Nil)
    with q(1) have "q @ [c] \<in> set (q # ps)" by (intro Cons.prems(3)) auto
    then have "q @ [c] \<le> q" using Cons.prems(5) by (auto simp: sorted_append)
    then show False using less_eq_append_path [of q "[c]"] by auto
  qed
  obtain e w1 where c: "(if dir_at w q then sys_rmdir q w else sys_unlink q w) = (e, w1)" by fastforce
  then have e: "e = None" and h1: "healthy w1"
    using sys_rmdir_healthy [OF Cons.prems(1), of q] sys_unlink_healthy [OF Cons.prems(1), of q]
      q nochild by (auto split: if_splits)
  then have re: "remove_entry q w = (None, w1)" using c by (simp add: remove_entry_def)
  have fs1: "fs w1 = (fs w)(q := None)" and o: "only_fs w w1"
    using c e by (auto dest!: sys_rmdir_None sys_unlink_None dest: fs_cong split: if_splits)
  have "\<exists>w'. remove_entries ps w1 = (None, w') \<and> healthy w'"
  proof (rule Cons.IH [OF h1])
    show "wf_tree w1" by (rule remove_entry_facts(2) [OF re Cons.prems(2)])
    show "x \<in> set ps" if "prefix p x" "fs w1 x \<noteq> None" for x
      using Cons.prems(3) [of x] that fs1 by (auto split: if_splits)
    show "prefix p x \<and> x \<noteq> [] \<and> \<not> mounted_at w1 x \<and> fs w1 x \<noteq> None" if "x \<in> set ps" for x
      using Cons.prems(4) [of x] Cons.prems(6) that fs1 only_fsD(6) [OF o] by auto
    show "sorted (rev ps)" "distinct ps" using Cons.prems(5,6) by (auto simp: sorted_append)
  qed
  with re show ?case by simp
qed simp

lemma os_RemoveAll_healthy:
  assumes "healthy w" "wf_tree w" "locate s \<noteq> []"
    "\<And>q. prefix (locate s) q \<Longrightarrow> \<not> mounted_at w q"
  shows "\<exists>w'. os_RemoveAll s w = (None, w') \<and> healthy w'"
proof -
  let ?p = "locate s"
  obtain e w1 where e: "os_Remove s w = (e, w1)" by fastforce
  then have h1: "healthy w1" using os_Remove_healthy [OF assms(1), of s] by auto
  show ?thesis
  proof (cases e)
    case (Some x)
    with e have 1: "only_fs w w1" "tree w1 = tree w" by (auto dest: os_Remove_Some)
    have wf1: "wf_tree w1" using assms(2) wf_tree_cong 1(2) by metis
    have "\<exists>w'. remove_entries (rev (places_below w1 ?p)) w1 = (None, w') \<and> healthy w'"
      using h1 wf1 assms(3,4) only_fsD(6) [OF 1(1)]
      by (intro remove_entries_healthy [of _ ?p])
        (auto simp: places_below_set, auto simp: places_below_def wf_tree_fs)
    then show ?thesis using e Some h1 assms(1) by (auto simp: os_RemoveAll_def)
  qed (use e h1 assms(1) in \<open>auto simp: os_RemoveAll_def\<close>)
qed

subsection \<open>os.ReadDir, os.ReadFile, os.WriteFile\<close>

text \<open>A reading call: the tree stays, and the kernel's answers are used up.\<close>

definition reads :: "world \<Rightarrow> world \<Rightarrow> bool" where
  "reads w w' \<longleftrightarrow> only_fs w w' \<and> tree w' = tree w"

lemma reads_refl [simp, intro]: "reads w w"
  by (simp add: reads_def)

lemma reads_trans: "reads w w' \<Longrightarrow> reads w' w'' \<Longrightarrow> reads w w''"
  by (auto simp: reads_def intro: only_fs_trans)

lemma readsD:
  assumes "reads w w'"
  shows "fs w' = fs w" "dir_at w' = dir_at w" "child_names w' = child_names w"
    "only_fs w w'" "tree w' = tree w" "wf_tree w' = wf_tree w"
  using assms by (auto simp: reads_def intro: fs_cong dir_at_cong child_names_cong)
    (auto dest: wf_tree_cong)

lemma take_fault_reads: "take_fault w = (r, w') \<Longrightarrow> reads w w'"
  by (auto simp: reads_def dest: take_fault_frame)

lemma sys_stat_reads: "sys_stat p w = (r, w') \<Longrightarrow> reads w w'"
  by (auto simp: reads_def dest: sys_stat_frame)

lemma os_ReadDir_reads [frame]: "os_ReadDir s w = (r, w') \<Longrightarrow> reads w w'"
  by (auto simp: os_ReadDir_def split: call_splits
      dest!: sys_stat_reads take_fault_reads intro: reads_trans)

lemma os_ReadFile_reads [frame]: "os_ReadFile s w = (r, w') \<Longrightarrow> reads w w'"
  by (auto simp: os_ReadFile_def split: call_splits
      dest!: sys_stat_reads take_fault_reads intro: reads_trans)

lemma os_ReadDir_Inr:
  assumes "os_ReadDir s w = (Inr names, w')"
  shows "dir_at w (locate s)" "names = sort (child_names w (locate s))"
proof -
  from assms obtain i w1 x where st: "sys_stat (locate s) w = (Inr i, w1)"
    and t: "take_fault w1 = (x, w')" and i: "is_Dir i" and n: "names = sort (child_names w' (locate s))"
    by (auto simp: os_ReadDir_def split: call_splits)
  show "dir_at w (locate s)" using sys_stat_Inr [OF st] i by (simp add: dir_at_def)
  have "reads w w'" using st t by (auto intro: reads_trans dest: sys_stat_reads take_fault_reads)
  then show "names = sort (child_names w (locate s))" using n readsD(3) by metis
qed

lemma os_ReadDir_healthy:
  assumes "healthy w" "dir_at w (locate s)"
  shows "\<exists>w'. os_ReadDir s w = (Inr (sort (child_names w (locate s))), w') \<and> healthy w'"
proof -
  obtain m where m: "fs w (locate s) = Some (Dir m)" using assms(2) by (auto simp: dir_at_iff)
  obtain i w1 where st: "sys_stat (locate s) w = (i, w1)" by fastforce
  have i: "i = Inr (Dir m)" using sys_stat_healthy [OF assms(1) st] m by simp
  have r1: "reads w w1" and h1: "healthy w1"
    using sys_stat_reads [OF st] assms(1) only_fsD(7) readsD(4) by blast+
  obtain x w2 where t: "take_fault w1 = (x, w2)" by fastforce
  have "x = None" "reads w1 w2" using take_fault_healthy [OF h1 t] take_fault_reads [OF t] by auto
  moreover have "healthy w2" using h1 calculation(2) only_fsD(7) readsD(4) by blast
  ultimately show ?thesis
    using st i t readsD(3) [OF r1] readsD(3) [of w1 w2] by (auto simp: os_ReadDir_def)
qed

lemma os_ReadFile_Inr:
  "os_ReadFile s w = (Inr content, w') \<Longrightarrow> \<exists>m. fs w (locate s) = Some (Reg m content)"
  by (auto simp: os_ReadFile_def split: call_splits dest!: sys_stat_Inr)

lemma os_ReadFile_healthy:
  assumes "healthy w" "fs w (locate s) = Some (Reg m content)"
  shows "\<exists>w'. os_ReadFile s w = (Inr content, w') \<and> healthy w'"
proof -
  obtain i w1 where st: "sys_stat (locate s) w = (i, w1)" by fastforce
  have i: "i = Inr (Reg m content)" using sys_stat_healthy [OF assms(1) st] assms(2) by simp
  have h1: "healthy w1" using sys_stat_reads [OF st] assms(1) only_fsD(7) readsD(4) by blast
  obtain x w2 where t: "take_fault w1 = (x, w2)" by fastforce
  have "x = None" "healthy w2"
    using take_fault_healthy [OF h1 t] h1 take_fault_frame(1) [OF t] by (auto dest: only_fsD)
  with st i t show ?thesis by (auto simp: os_ReadFile_def)
qed

lemma open_truncated_facts:
  assumes "open_truncated p m w = (r, w')"
  shows "r \<noteq> None \<Longrightarrow> reads w w'"
    and "r = None \<Longrightarrow> \<exists>d. only_fs w w' \<and> fs w' = (fs w)(p \<mapsto> Reg d '''') \<and> \<not> dir_at w p \<and>
           (wf_tree w \<longrightarrow> wf_tree w')"
proof -
  show "reads w w'" if "r \<noteq> None"
    using assms that
    by (auto simp: open_truncated_def split: call_splits dest: take_fault_reads)
  show "\<exists>d. only_fs w w' \<and> fs w' = (fs w)(p \<mapsto> Reg d '''') \<and> \<not> dir_at w p \<and>
      (wf_tree w \<longrightarrow> wf_tree w')" if r: "r = None"
  proof (rule take_fault_obtain [of w])
    fix t w1 assume t: "take_fault w = (t, w1)" "only_fs w w1" "tree w1 = tree w"
      "fs w1 = fs w" "dir_at w1 = dir_at w"
    with assms r obtain d where w': "w' = set_fs p (Reg d '''') w1"
      and c: "(fs w p = None \<and> p \<noteq> [] \<and> dir_at w (butlast p)) \<or> (\<exists>d old. fs w p = Some (Reg d old))"
      by (auto simp: open_truncated_def split: call_splits)
    from c have nd: "\<not> dir_at w p" by (auto simp: dir_at_def)
    moreover have "wf_tree w'" if wf: "wf_tree w"
      unfolding w'
    proof (rule wf_tree_set_fs)
      show "wf_tree w1" using wf wf_tree_cong [OF t(3)] by simp
      show "p = [] \<or> dir_at w1 (butlast p)" using c wf t(5) by (auto simp: wf_tree_fs)
      show "is_Dir (Reg d []) \<or> p \<noteq> [] \<and> \<not> dir_at w1 p"
        using nd wf t(5) by (auto simp: wf_tree_fs)
    qed
    ultimately show ?thesis using w' t by auto
  qed
qed

lemma os_WriteFile_facts:
  assumes "os_WriteFile s content m w = (r, w')"
  shows "only_fs w w'" "wf_tree w \<Longrightarrow> wf_tree w'"
    "q \<noteq> locate s \<Longrightarrow> fs w' q = fs w q"
    "r = None \<Longrightarrow> \<exists>d. fs w' (locate s) = Some (Reg d content)"
    "r \<noteq> None \<Longrightarrow> fs w' (locate s) = fs w (locate s) \<or>
       (\<exists>d n. fs w' (locate s) = Some (Reg d (take n content)))"
proof -
  let ?p = "locate s"
  let ?goal = "only_fs w w' \<and> (wf_tree w \<longrightarrow> wf_tree w') \<and> (\<forall>q. q \<noteq> ?p \<longrightarrow> fs w' q = fs w q) \<and>
     (r = None \<longrightarrow> (\<exists>d. fs w' ?p = Some (Reg d content))) \<and>
     (r \<noteq> None \<longrightarrow> fs w' ?p = fs w ?p \<or> (\<exists>d n. fs w' ?p = Some (Reg d (take n content))))"
  obtain e w1 where o: "open_truncated ?p m w = (e, w1)" by fastforce
  have ?goal
  proof (cases e)
    case (Some x)
    with o assms have "w' = w1" "r \<noteq> None" by (auto simp: os_WriteFile_def)
    with readsD [OF open_truncated_facts(1) [OF o]] Some show ?thesis by auto
  next
    case None
    from open_truncated_facts(2) [OF o this] obtain d where
      1: "only_fs w w1" "fs w1 = (fs w)(?p \<mapsto> Reg d '''')" "\<not> dir_at w ?p" "wf_tree w \<longrightarrow> wf_tree w1"
      by blast
    obtain t w2 where t: "take_fault w1 = (t, w2)" by fastforce
    have r2: "reads w1 w2" using t by (rule take_fault_reads)
    define data where "data = (case t of None \<Rightarrow> content | Some (x, n) \<Rightarrow> take n content)"
    define w3 where "w3 = set_fs ?p (Reg (file_mode w2 ?p) data) w2"
    obtain t4 w4 where t4: "take_fault w3 = (t4, w4)" by fastforce
    have r4: "reads w3 w4" using t4 by (rule take_fault_reads)
    have w': "w' = w4" and r: "r = None \<Longrightarrow> t = None"
      using assms o None t t4
      by (auto simp: os_WriteFile_def data_def w3_def Let_def split: call_splits)
    have fs3: "fs w3 = (fs w)(?p \<mapsto> Reg (file_mode w2 ?p) data)"
      using 1(2) readsD(1) [OF r2] by (simp add: w3_def)
    have "wf_tree w3" if wf: "wf_tree w"
    proof -
      have wf2: "wf_tree w2" using 1(4) wf wf_tree_cong [OF readsD(5) [OF r2]] by simp
      have "dir_at w2 [] \<and> (\<exists>i. fs w2 ?p = Some i \<and> \<not> is_Dir i)"
        using wf2 1(2) readsD(1) [OF r2] by (auto simp: wf_tree_fs)
      then show ?thesis
        unfolding w3_def using wf2
        by (intro wf_tree_set_fs) (auto simp: wf_tree_fs dir_at_def)
    qed
    moreover have "only_fs w w3"
      using 1(1) readsD(4) [OF r2] by (auto simp: w3_def intro: only_fs_trans)
    then have "only_fs w w4" using readsD(4) [OF r4] by (rule only_fs_trans)
    ultimately show ?thesis
      using w' r fs3 readsD(1) [OF r4] wf_tree_cong [OF readsD(5) [OF r4]]
      by (cases t) (auto simp: data_def intro: exI [of _ "length content"])
  qed
  then show "only_fs w w'" "wf_tree w \<Longrightarrow> wf_tree w'" "q \<noteq> ?p \<Longrightarrow> fs w' q = fs w q"
    "r = None \<Longrightarrow> \<exists>d. fs w' ?p = Some (Reg d content)"
    "r \<noteq> None \<Longrightarrow> fs w' ?p = fs w ?p \<or> (\<exists>d n. fs w' ?p = Some (Reg d (take n content)))"
    by auto
qed

text \<open>A directory is never opened for writing.\<close>

lemma os_WriteFile_dir:
  assumes "os_WriteFile s content m w = (r, w')" "dir_at w (locate s)"
  shows "fs w' = fs w" "r \<noteq> None"
proof -
  obtain e w1 where o: "open_truncated (locate s) m w = (e, w1)" by fastforce
  have "e \<noteq> None" using open_truncated_facts(2) [OF o] assms(2) by auto
  moreover have "fs w1 = fs w"
    using open_truncated_facts(1) [OF o calculation] by (rule readsD(1))
  ultimately show "fs w' = fs w" "r \<noteq> None"
    using assms(1) o by (auto simp: os_WriteFile_def Let_def)
qed

lemma os_WriteFile_healthy:
  assumes h: "healthy w" and p: "locate s \<noteq> []" "\<not> name_too_long (locate s)"
    "dir_at w (butlast (locate s))"
    and free: "fs w (locate s) = None \<or> (\<exists>d old. fs w (locate s) = Some (Reg d old))"
  shows "\<exists>w'. os_WriteFile s content m w = (None, w') \<and> healthy w'"
proof -
  let ?p = "locate s"
  obtain t w1 where t: "take_fault w = (t, w1)" by fastforce
  have 1: "t = None" "healthy w1" "fs w1 = fs w" "dir_at w1 = dir_at w"
    using take_fault_healthy [OF h t] h only_fsD(7) readsD [OF take_fault_reads [OF t]] by auto
  obtain d where o: "open_truncated ?p m w = (None, set_fs ?p (Reg d '''') w1)"
    using t 1 p free by (auto simp: open_truncated_def)
  let ?w2 = "set_fs ?p (Reg d '''') w1"
  have h2: "healthy ?w2" using 1(2) by (simp add: healthy_def)
  obtain t3 w3 where t3: "take_fault ?w2 = (t3, w3)" by fastforce
  have 3: "t3 = None" "healthy w3"
    using take_fault_healthy [OF h2 t3] h2 only_fsD(7) readsD(4) [OF take_fault_reads [OF t3]] by auto
  let ?w4 = "set_fs ?p (Reg (file_mode w3 ?p) content) w3"
  have h4: "healthy ?w4" using 3(2) by (simp add: healthy_def)
  obtain t5 w5 where t5: "take_fault ?w4 = (t5, w5)" by fastforce
  have "t5 = None" "healthy w5"
    using take_fault_healthy [OF h4 t5] h4 only_fsD(7) readsD(4) [OF take_fault_reads [OF t5]] by auto
  with o t3 3 t5 show ?thesis by (auto simp: os_WriteFile_def Let_def)
qed

end
