(* ===== verification/Store.thy ===== *)
theory Store
  imports Handle Os_Remove
begin

section \<open>store.go: the copies and the holds on the disk\<close>

text \<open>
  The paths under the store's root, the making, listing, removing and measuring of a copy, and
  the room on its filesystem. A copy's size is summed in an \<open>int64\<close>, which wraps around.
  The lemmas say where the paths are, what each operation may change, and what it achieves.
\<close>

definition copiesDirectory :: string where
  "copiesDirectory = ''copies''"

definition holdsDirectory :: string where
  "holdsDirectory = ''holds''"

definition copyMode :: mode where
  "copyMode = 0x1FF"

record store =
  root :: string

definition newStore :: "string \<Rightarrow> store" where
  "newStore r = \<lparr>root = r\<rparr>"

definition copyPath :: "store \<Rightarrow> string \<Rightarrow> string" where
  "copyPath s handle = filepath_Join [root s, copiesDirectory, handle]"

definition holdPath :: "store \<Rightarrow> string \<Rightarrow> string" where
  "holdPath s handle = filepath_Join [root s, holdsDirectory, handle]"

definition makeCopy :: "store \<Rightarrow> string \<Rightarrow> world \<Rightarrow> goerror option \<times> world" where
  "makeCopy s handle w =
     (let path = copyPath s handle
      in case os_MkdirAll path copyMode w of
        (Some err, w) \<Rightarrow> (Some err, w)
      | (None, w) \<Rightarrow> os_Chmod path copyMode w)"

definition handles :: "store \<Rightarrow> world \<Rightarrow> string list \<times> world" where
  "handles s w =
     (case os_ReadDir (filepath_Join [root s, copiesDirectory]) w of
        (Inl err, w) \<Rightarrow> ([], w)
      | (Inr entries, w) \<Rightarrow> (entries, w))"

definition removeCopy :: "store \<Rightarrow> string \<Rightarrow> world \<Rightarrow> goerror option \<times> world" where
  "removeCopy s handle w = os_RemoveAll (copyPath s handle) w"

subsection \<open>copySize and spaceOf\<close>

text \<open>
  \<open>filepath.Walk\<close> visits the place itself and then everything below it, a directory before
  its entries and the entries by name, asking for each place what it is and reading each
  directory. The callback stops the walk at the first error.
\<close>

type_synonym int64 = "64 word"

fun sum_sizes :: "path list \<Rightarrow> int64 \<Rightarrow> world \<Rightarrow> (int64 \<times> goerror option) \<times> world" where
  "sum_sizes [] acc w = ((acc, None), w)"
| "sum_sizes (p # ps) acc w =
     (case sys_stat p w of
        (Inl e, w) \<Rightarrow> ((acc, Some (PathError ''lstat'' (path_text p) e)), w)
      | (Inr (Reg m content), w) \<Rightarrow> sum_sizes ps (acc + of_nat (length content)) w
      | (Inr (Special m), w) \<Rightarrow> sum_sizes ps acc w
      | (Inr (Dir m), w) \<Rightarrow>
          (case take_fault w of
             (Some (e, n), w) \<Rightarrow> ((acc, Some (PathError ''open'' (path_text p) e)), w)
           | (None, w) \<Rightarrow> sum_sizes ps acc w))"

definition walk_places :: "world \<Rightarrow> path \<Rightarrow> path list" where
  "walk_places w p = (if fs w p = None then [p] else places_below w p)"

definition copySize :: "string \<Rightarrow> world \<Rightarrow> (int64 \<times> goerror option) \<times> world" where
  "copySize dir w = sum_sizes (walk_places w (locate dir)) 0 w"

text \<open>What statfs(2) fills in, as far as the driver reads it.\<close>

record statfs_t =
  Bsize :: int64
  Bavail :: "64 word"
  Blocks :: "64 word"

type_synonym statfs_call = "string \<Rightarrow> world \<Rightarrow> (errno + statfs_t) \<times> world"

definition spaceOf ::
  "statfs_call \<Rightarrow> string \<Rightarrow> world \<Rightarrow> (goerror + int64 \<times> int64) \<times> world" where
  "spaceOf statfs path w =
     (case statfs path w of
        (Inl err, w) \<Rightarrow> (Inl (SysError err), w)
      | (Inr filesystem, w) \<Rightarrow>
          (let block = Bsize filesystem
           in (Inr (Bavail filesystem * block, Blocks filesystem * block), w)))"

subsection \<open>Where the paths are\<close>

definition copies_place :: "store \<Rightarrow> path" where
  "copies_place s = locate (root s) @ [copiesDirectory]"

definition holds_place :: "store \<Rightarrow> path" where
  "holds_place s = locate (root s) @ [holdsDirectory]"

definition copy_place :: "store \<Rightarrow> string \<Rightarrow> path" where
  "copy_place s h = copies_place s @ [h]"

definition hold_place :: "store \<Rightarrow> string \<Rightarrow> path" where
  "hold_place s h = holds_place s @ [h]"

lemma plain_directories: "plain_name copiesDirectory" "plain_name holdsDirectory"
  by (simp_all add: plain_name_def copiesDirectory_def holdsDirectory_def)

lemma locate_copyPath: "plain_name h \<Longrightarrow> locate (copyPath s h) = copy_place s h"
  using locate_Join_plain [of "[copiesDirectory, h]" "root s"]
  by (simp add: copyPath_def copy_place_def copies_place_def plain_directories)

lemma locate_holdPath: "plain_name h \<Longrightarrow> locate (holdPath s h) = hold_place s h"
  using locate_Join_plain [of "[holdsDirectory, h]" "root s"]
  by (simp add: holdPath_def hold_place_def holds_place_def plain_directories)

lemma locate_copies: "locate (filepath_Join [root s, copiesDirectory]) = copies_place s"
  using locate_Join_plain [of "[copiesDirectory]" "root s"]
  by (simp add: copies_place_def plain_directories)

lemma locate_holds: "locate (filepath_Join [root s, holdsDirectory]) = holds_place s"
  using locate_Join_plain [of "[holdsDirectory]" "root s"]
  by (simp add: holds_place_def plain_directories)

lemma copy_place_inject [simp]: "copy_place s h = copy_place s h' \<longleftrightarrow> h = h'"
  by (simp add: copy_place_def)

lemma hold_place_inject [simp]: "hold_place s h = hold_place s h' \<longleftrightarrow> h = h'"
  by (simp add: hold_place_def)

lemma copy_not_below_hold [simp]: "\<not> prefix (copy_place s h) (hold_place s h')"
  by (simp add: copy_place_def hold_place_def copies_place_def holds_place_def
      copiesDirectory_def holdsDirectory_def)

lemma hold_not_below_copy [simp]: "\<not> prefix (hold_place s h) (copy_place s h' @ q)"
  by (simp add: copy_place_def hold_place_def copies_place_def holds_place_def
      copiesDirectory_def holdsDirectory_def)

lemma hold_place_not_copy [simp]: "hold_place s h \<noteq> copy_place s h'"
  by (simp add: copy_place_def hold_place_def copies_place_def holds_place_def
      copiesDirectory_def holdsDirectory_def)

lemma prefix_copy_place: "prefix (copy_place s h) (copy_place s h' @ q) \<longleftrightarrow> h = h'"
  by (simp add: copy_place_def)

text \<open>A handle that \<open>checkHandle\<close> accepts is a name under the store.\<close>

lemma checked_plain: "checkHandle h = None \<Longrightarrow> plain_name h"
  using dns_subdomain_no_slash [of h] dns_subdomain_not_special [of h]
  by (auto simp: checkHandle_None_iff plain_name_def)

lemma checked_length: "checkHandle h = None \<Longrightarrow> length h \<le> 253"
  by (simp add: checkHandle_None_iff handleLimit_def)

lemma copyPath_not_Nil: "plain_name h \<Longrightarrow> copyPath s h \<noteq> ''''"
  using locate_copyPath [of h s] by (auto simp: copy_place_def locate_def)

subsection \<open>What the operations change\<close>

lemma makeCopy_facts:
  assumes "makeCopy s h w = (r, w')" "plain_name h"
  shows "only_fs w w'" "wf_tree w \<Longrightarrow> wf_tree w'"
    "\<not> prefix q (copy_place s h) \<Longrightarrow> fs w' q = fs w q"
    "q \<noteq> copy_place s h \<Longrightarrow> fs w q \<noteq> None \<Longrightarrow> fs w' q = fs w q"
    "r = None \<Longrightarrow> fs w' (copy_place s h) = Some (Dir copyMode)"
    "dir_at w q \<Longrightarrow> dir_at w' q"
    "fs w' q \<noteq> fs w q \<Longrightarrow> q \<noteq> copy_place s h \<Longrightarrow> dir_at w' q"
proof -
  let ?p = "copy_place s h"
  obtain e w1 where m: "os_MkdirAll (copyPath s h) copyMode w = (e, w1)" by fastforce
  note M = os_MkdirAll_facts [OF m, unfolded locate_copyPath [OF assms(2)]]
  have g: "only_fs w w1"
    "\<And>q. fs w1 q = fs w q \<or> (fs w q = None \<and> fs w1 q = Some (Dir (copyMode AND NOT (umask w))) \<and> prefix q ?p)"
    using M(1) by (auto simp: grows_to_def)
  have c: "(\<exists>i. e = None \<and> fs w1 ?p = Some i \<and> fs w' = (fs w1)(?p \<mapsto> with_mode copyMode i) \<and> only_fs w1 w') \<or>
      (only_fs w1 w' \<and> fs w' = fs w1 \<and> r \<noteq> None)"
  proof (cases e)
    case None
    with assms(1) m have ch: "os_Chmod (copyPath s h) copyMode w1 = (r, w')"
      by (simp add: makeCopy_def Let_def)
    show ?thesis
    proof (cases r)
      case None
      with ch have "os_Chmod (copyPath s h) copyMode w1 = (None, w')" by simp
      from os_Chmod_None [OF this] show ?thesis
        using \<open>e = None\<close> by (auto simp: locate_copyPath [OF assms(2)])
    next
      case (Some x)
      with ch os_Chmod_Some have "only_fs w1 w' \<and> tree w' = tree w1" by blast
      with Some show ?thesis by (auto dest: fs_cong)
    qed
  qed (use assms(1) m in \<open>auto simp: makeCopy_def Let_def\<close>)
  show "only_fs w w'" using c g(1) by (auto intro: only_fs_trans)
  show "wf_tree w'" if "wf_tree w"
    using assms(1) m M(2) [OF that]
    by (cases e) (auto simp: makeCopy_def Let_def intro: os_Chmod_wf)
  show "fs w' q = fs w q" if "\<not> prefix q ?p"
    using that c g(2) [of q] by auto
  show "fs w' q = fs w q" if "q \<noteq> ?p" "fs w q \<noteq> None"
    using that c g(2) [of q] by auto
  show "fs w' ?p = Some (Dir copyMode)" if "r = None"
    using that c M(3) by (auto simp: dir_at_iff)
  show "dir_at w' q" if "dir_at w q"
    using c g(2) [of q] that by (auto simp: dir_at_iff)
  show "dir_at w' q" if "fs w' q \<noteq> fs w q" "q \<noteq> ?p"
    using that c g(2) [of q] by (auto simp: dir_at_iff split: if_splits)
qed

lemma handles_reads [frame]: "handles s w = (hs, w') \<Longrightarrow> reads w w'"
  by (auto simp: handles_def dest: os_ReadDir_reads split: call_splits)

lemma handles_child:
  assumes "handles s w = (hs, w')" "h \<in> set hs"
  shows "fs w (copy_place s h) \<noteq> None"
  using assms os_ReadDir_Inr [of "filepath_Join [root s, copiesDirectory]" w _ w']
  by (auto simp: handles_def locate_copies copy_place_def child_names_iff split: call_splits)

lemma handles_healthy:
  assumes "healthy w" "dir_at w (copies_place s)" "handles s w = (hs, w')"
  shows "set hs = {h. fs w (copy_place s h) \<noteq> None}"
  using os_ReadDir_healthy [of w "filepath_Join [root s, copiesDirectory]"] assms
  by (auto simp: handles_def locate_copies copy_place_def child_names_iff)

lemma removeCopy_facts:
  assumes "removeCopy s h w = (r, w')" "plain_name h"
  shows "only_fs w w'" "wf_tree w \<Longrightarrow> wf_tree w'"
    "\<not> prefix (copy_place s h) q \<Longrightarrow> fs w' q = fs w q"
    "fs w' q = fs w q \<or> fs w' q = None"
    "wf_tree w \<Longrightarrow> honest w \<Longrightarrow> r = None \<Longrightarrow> prefix (copy_place s h) q \<Longrightarrow> fs w' q = None"
  using os_RemoveAll_facts [OF assms(1) [unfolded removeCopy_def]]
    os_RemoveAll_gone [of w "copyPath s h" w' q] copyPath_not_Nil [OF assms(2)]
    assms(1)
  by (auto simp: removes_below_def locate_copyPath [OF assms(2)] removeCopy_def)

subsection \<open>The size of a copy\<close>

definition file_bytes :: "world \<Rightarrow> path \<Rightarrow> nat" where
  "file_bytes w p = (case fs w p of Some (Reg m content) \<Rightarrow> length content | _ \<Rightarrow> 0)"

lemma sum_sizes_reads [frame]: "sum_sizes ps acc w = (r, w') \<Longrightarrow> reads w w'"
proof (induction ps arbitrary: acc w)
  case (Cons p ps)
  show ?case
    using Cons.prems
    by (auto split: call_splits dest!: sys_stat_reads take_fault_reads Cons.IH intro: reads_trans)
qed simp

text \<open>A walk that ends without an error has counted every regular file, modulo \<open>2^64\<close>.\<close>

lemma sum_sizes_done:
  "sum_sizes ps acc w = ((t, None), w') \<Longrightarrow>
     t = acc + of_nat (\<Sum>p\<leftarrow>ps. file_bytes w p) \<and> (\<forall>p \<in> set ps. fs w p \<noteq> None)"
proof (induction ps arbitrary: acc w)
  case (Cons p ps)
  obtain r w1 where st: "sys_stat p w = (r, w1)" by fastforce
  have tr1: "fs w1 = fs w" using sys_stat_frame(2) [OF st] by (rule fs_cong)
  then have fb1: "file_bytes w1 = file_bytes w" by (simp add: file_bytes_def fun_eq_iff)
  from Cons.prems st obtain i where r: "r = Inr i" by (cases r) auto
  have i: "fs w p = Some i" using sys_stat_Inr st r by blast
  show ?case
  proof (cases i)
    case (Dir m)
    obtain f w2 where tf: "take_fault w1 = (f, w2)" by fastforce
    then have tr2: "fs w2 = fs w1" using take_fault_frame(2) fs_cong by blast
    then have "file_bytes w2 = file_bytes w1" by (simp add: file_bytes_def fun_eq_iff)
    moreover have "f = None" using Cons.prems st r Dir tf by (auto split: option.splits)
    ultimately show ?thesis
      using Cons.prems Cons.IH [of acc w2] st r Dir tf tr1 tr2 fb1 i
      by (simp add: file_bytes_def)
  next
    case (Reg m c)
    then show ?thesis
      using Cons.prems Cons.IH [of "acc + of_nat (length c)" w1] st r tr1 fb1 i
      by (simp add: file_bytes_def ac_simps)
  next
    case (Special m)
    then show ?thesis
      using Cons.prems Cons.IH [of acc w1] st r tr1 fb1 i by (simp add: file_bytes_def)
  qed
qed simp

definition copy_bytes :: "world \<Rightarrow> path \<Rightarrow> nat" where
  "copy_bytes w p = (\<Sum>q\<leftarrow>places_below w p. file_bytes w q)"

lemma copySize_reads [frame]: "copySize dir w = (r, w') \<Longrightarrow> reads w w'"
  by (auto simp: copySize_def dest: sum_sizes_reads)

lemma copySize_done:
  assumes "copySize dir w = ((t, None), w')"
  shows "fs w (locate dir) \<noteq> None" "t = of_nat (copy_bytes w (locate dir))"
  using sum_sizes_done [OF assms [unfolded copySize_def]]
  by (auto simp: walk_places_def copy_bytes_def split: if_splits)

lemma sum_sizes_healthy:
  "healthy w \<Longrightarrow> \<forall>p \<in> set ps. fs w p \<noteq> None \<Longrightarrow> \<exists>t w'. sum_sizes ps acc w = ((t, None), w')"
proof (induction ps arbitrary: acc w)
  case (Cons p ps)
  obtain r w1 where st: "sys_stat p w = (r, w1)" by fastforce
  have 1: "fs w1 = fs w" "healthy w1"
    using sys_stat_frame [OF st] Cons.prems(1) by (auto dest: fs_cong only_fsD(7))
  obtain i where r: "r = Inr i"
    using sys_stat_healthy [OF Cons.prems(1) st] Cons.prems(2) by (cases "fs w p") auto
  obtain f w2 where tf: "take_fault w1 = (f, w2)" by fastforce
  have 2: "fs w2 = fs w1" "healthy w2" "f = None"
    using take_fault_frame [OF tf] 1(2) take_fault_healthy [OF 1(2) tf]
    by (auto dest: fs_cong only_fsD(7))
  show ?case
    using Cons.prems Cons.IH [of w1] Cons.IH [of w2] st r tf 1 2 by (cases i) auto
qed simp

text \<open>A count below \<open>2^63\<close> is kept as it is in an \<open>int64\<close>.\<close>

lemma sint_int64_of_nat: "n < 2 ^ 63 \<Longrightarrow> sint (of_nat n :: int64) = int n"
  by (simp add: signed_of_nat signed_take_bit_int_eq_self)

lemma copySize_healthy:
  assumes "healthy w" "fs w (locate dir) \<noteq> None"
  shows "\<exists>w'. copySize dir w = ((of_nat (copy_bytes w (locate dir)), None), w')"
proof -
  have "\<forall>p \<in> set (walk_places w (locate dir)). fs w p \<noteq> None"
    using assms(2) by (auto simp: walk_places_def places_below_set)
  then obtain t w' where "copySize dir w = ((t, None), w')"
    using sum_sizes_healthy [OF assms(1)] by (metis copySize_def)
  then show ?thesis using copySize_done by blast
qed

text \<open>
  C23. The copy and the hold of an accepted handle are entries of the store's two directories:
  whatever text the root is, the copy is the place \<open>copies/<handle>\<close> below it and the hold
  \<open>holds/<handle>\<close>, two handles share neither, no copy is at or below another handle's copy or
  any hold, and the name fits a directory entry.
\<close>

theorem paths_stay_in_the_store:
  assumes "checkHandle h = None" "checkHandle h' = None"
  shows "locate (copyPath s h) = locate (root s) @ [''copies'', h] \<and>
    locate (holdPath s h) = locate (root s) @ [''holds'', h] \<and>
    (prefix (locate (copyPath s h)) (locate (copyPath s h')) \<longleftrightarrow> h = h') \<and>
    (prefix (locate (holdPath s h)) (locate (holdPath s h')) \<longleftrightarrow> h = h') \<and>
    \<not> prefix (locate (copyPath s h)) (locate (holdPath s h')) \<and>
    \<not> prefix (locate (holdPath s h)) (locate (copyPath s h')) \<and>
    length h < 256"
  using checked_plain [OF assms(1)] checked_plain [OF assms(2)] checked_length [OF assms(1)]
  by (simp add: locate_copyPath locate_holdPath copy_place_def hold_place_def copies_place_def
      holds_place_def copiesDirectory_def holdsDirectory_def)

lemma paths_stay_in_the_store_witness:
  "locate (copyPath \<lparr>root = ''/a//b/''\<rparr> ''x.y'') = locate ''/a//b/'' @ [''copies'', ''x.y''] \<and>
   checkHandle ''x.y'' = None \<and> checkHandle ''z'' = None"
proof -
  have c: "checkHandle ''x.y'' = None" "checkHandle ''z'' = None" by code_simp+
  show ?thesis using paths_stay_in_the_store [OF c, of "\<lparr>root = ''/a//b/''\<rparr>"] c by simp
qed

text \<open>
  Making a copy that is there already changes nothing but the mode of its directory, a
  success leaves a directory with all permission bits whatever the umask took, and no call of
  it, refused or not, removes a place or changes a file.
\<close>

theorem makeCopy_keeps_what_is_there:
  assumes "makeCopy s h w = (r, w')" "checkHandle h = None"
  shows "(r = None \<longrightarrow> fs w' (locate (copyPath s h)) = Some (Dir 0x1FF)) \<and>
    (\<forall>q i. q \<noteq> locate (copyPath s h) \<longrightarrow> fs w q = Some i \<longrightarrow> fs w' q = Some i) \<and>
    (\<forall>q. dir_at w q \<longrightarrow> dir_at w' q) \<and>
    (\<forall>q. \<not> prefix q (locate (copyPath s h)) \<longrightarrow> fs w' q = fs w q) \<and>
    mtab w' = mtab w \<and> effects w' = effects w"
proof -
  note p = checked_plain [OF assms(2)]
  note F = makeCopy_facts [OF assms(1) p, folded locate_copyPath [OF p, of s]]
  show ?thesis using F(1,3-6) only_fsD(1,5) [OF F(1)] by (auto simp: copyMode_def)
qed

lemma makeCopy_keeps_what_is_there_witness:
  "\<exists>r w'. makeCopy \<lparr>root = ''/s''\<rparr> ''x''
       \<lparr>tree = [([], Dir 1), ([''s''], Dir 1)], mtab = [], faults = [Some (EIO, 0)], api_answers = [],
        umask = 0x12, clock = 0, effects = []\<rparr> = (r, w') \<and> mtab w' = []"
proof -
  let ?w = "\<lparr>tree = [([], Dir 1), ([''s''], Dir 1)], mtab = [], faults = [Some (EIO, 0)], api_answers = [],
      umask = 0x12, clock = 0, effects = []\<rparr>"
  obtain r w' where m: "makeCopy \<lparr>root = ''/s''\<rparr> ''x'' ?w = (r, w')" by fastforce
  have "checkHandle ''x'' = None" by code_simp
  from makeCopy_keeps_what_is_there [OF m this] m show ?thesis by auto
qed

text \<open>
  The size of a copy: a walk that reports no error has summed the lengths of all the regular
  files at and below the copy, and the sum, an \<open>int64\<close>, is the true one for fewer than
  \<open>2^63\<close> bytes; where nothing is refused a copy that is there has its size reported, and one
  that is not is an error.
\<close>

theorem copySize_sums_the_files:
  "(copySize dir w = ((t, None), w') \<longrightarrow>
      fs w (locate dir) \<noteq> None \<and> t = of_nat (copy_bytes w (locate dir)) \<and>
      (copy_bytes w (locate dir) < 2 ^ 63 \<longrightarrow> sint t = int (copy_bytes w (locate dir)))) \<and>
   (healthy w \<longrightarrow> (fs w (locate dir) \<noteq> None \<longleftrightarrow> snd (fst (copySize dir w)) = None))"
proof (intro conjI impI)
  assume c: "copySize dir w = ((t, None), w')"
  show "fs w (locate dir) \<noteq> None" "t = of_nat (copy_bytes w (locate dir))"
    using copySize_done [OF c] by auto
  then show "sint t = int (copy_bytes w (locate dir))" if "copy_bytes w (locate dir) < 2 ^ 63"
    using that by (simp add: sint_int64_of_nat)
next
  assume "healthy w"
  then show "fs w (locate dir) \<noteq> None \<longleftrightarrow> snd (fst (copySize dir w)) = None"
    using copySize_healthy [of w dir] copySize_done(1) [of dir w] by (metis prod.collapse snd_conv fst_conv)
qed

lemma copySize_sums_the_files_witness:
  "healthy \<lparr>tree = [([], Dir 1), ([''f''], Reg 1 ''abc'')], mtab = [], faults = [], api_answers = [],
      umask = 0, clock = 0, effects = []\<rparr> \<and>
   snd (fst (copySize ''/'' \<lparr>tree = [([], Dir 1), ([''f''], Reg 1 ''abc'')], mtab = [], faults = [],
      api_answers = [], umask = 0, clock = 0, effects = []\<rparr>)) = None"
proof -
  let ?w = "\<lparr>tree = [([], Dir 1), ([''f''], Reg 1 ''abc'')], mtab = [], faults = [],
      api_answers = [], umask = 0, clock = 0, effects = []\<rparr>"
  have h: "healthy ?w" by code_simp
  have "fs ?w (locate ''/'') \<noteq> None" by code_simp
  with h copySize_sums_the_files [of "''/''" ?w] show ?thesis by blast
qed

end
