(* ===== verification/Bind_Mount.thy ===== *)
theory Bind_Mount
  imports Os_Remove
begin

section \<open>mount.go: bind mounts\<close>

text \<open>
  The interface \<open>mountSyscalls\<close> is a record of two functions over the state \<open>'w\<close> they act
  on; the functions of \<open>mount.go\<close> take any such record, as the Go functions take any value of
  the interface. The kernel behind \<open>unix.Mount\<close> and \<open>unix.Unmount\<close> is not code of the
  repository: the locale \<open>bind_kernel\<close> states what mount(2) and umount2(2) document of the
  calls the driver makes, in terms of the mount table, and the driver's lemmas are proved from
  that. \<open>linux_calls\<close> is one kernel that behaves so.
\<close>

type_synonym uintptr = "64 word"

record 'w mountSyscalls =
  Mount :: "string \<Rightarrow> string \<Rightarrow> string \<Rightarrow> uintptr \<Rightarrow> string \<Rightarrow> 'w \<Rightarrow> goerror option \<times> 'w"
  Unmount :: "string \<Rightarrow> int \<Rightarrow> 'w \<Rightarrow> goerror option \<times> 'w"

text \<open>\<open>kernelMounts\<close> passes both calls on to the two functions of the package \<open>unix\<close>.\<close>

definition kernelMounts ::
  "(string \<Rightarrow> string \<Rightarrow> string \<Rightarrow> uintptr \<Rightarrow> string \<Rightarrow> 'w \<Rightarrow> goerror option \<times> 'w) \<Rightarrow>
   (string \<Rightarrow> int \<Rightarrow> 'w \<Rightarrow> goerror option \<times> 'w) \<Rightarrow> 'w mountSyscalls"
where
  "kernelMounts unix_Mount unix_Unmount =
     \<lparr>Mount = (\<lambda>source target fstype flags data. unix_Mount source target fstype flags data),
      Unmount = (\<lambda>target flags. unix_Unmount target flags)\<rparr>"

lemma kernelMounts_calls [simp]:
  "Mount (kernelMounts m u) = m" "Unmount (kernelMounts m u) = u"
  by (simp_all add: kernelMounts_def)

definition MS_RDONLY :: uintptr where "MS_RDONLY = 0x1"
definition MS_REMOUNT :: uintptr where "MS_REMOUNT = 0x20"
definition MS_BIND :: uintptr where "MS_BIND = 0x1000"
definition MNT_DETACH :: int where "MNT_DETACH = 2"

definition bindReadWrite :: "'w mountSyscalls \<Rightarrow> string \<Rightarrow> string \<Rightarrow> 'w \<Rightarrow> goerror option \<times> 'w" where
  "bindReadWrite calls source target w =
     (case Mount calls source target '''' MS_BIND '''' w of
        (Some err, w) \<Rightarrow>
          (Some (WrapError (''bind '' @ source @ '' onto '' @ target) err), w)
      | (None, w) \<Rightarrow> (None, w))"

definition bindReadOnly :: "'w mountSyscalls \<Rightarrow> string \<Rightarrow> string \<Rightarrow> 'w \<Rightarrow> goerror option \<times> 'w" where
  "bindReadOnly calls source target w =
     (case Mount calls source target '''' MS_BIND '''' w of
        (Some err, w) \<Rightarrow>
          (Some (WrapError (''bind '' @ source @ '' onto '' @ target) err), w)
      | (None, w) \<Rightarrow>
          (case Mount calls source target '''' (MS_BIND OR MS_REMOUNT OR MS_RDONLY) '''' w of
             (Some err, w) \<Rightarrow>
               (case Unmount calls target MNT_DETACH w of
                  (ignored, w) \<Rightarrow>
                    (Some (WrapError (''remount '' @ target @ '' read-only'') err), w))
           | (None, w) \<Rightarrow> (None, w)))"

definition bind_mount :: "'w mountSyscalls \<Rightarrow> string \<Rightarrow> string \<Rightarrow> bool \<Rightarrow> 'w \<Rightarrow> goerror option \<times> 'w" where
  "bind_mount calls source target readOnly w =
     (if readOnly then bindReadOnly calls source target w
      else bindReadWrite calls source target w)"

definition unbind :: "'w mountSyscalls \<Rightarrow> string \<Rightarrow> 'w \<Rightarrow> goerror option \<times> 'w" where
  "unbind calls target w =
     (case Unmount calls target MNT_DETACH w of
        (None, w) \<Rightarrow> (None, w)
      | (Some err, w) \<Rightarrow>
          if errors_is err EINVAL \<or> errors_is err ENOENT then (None, w)
          else (Some (WrapError (''unmount '' @ target) err), w))"

subsection \<open>The mount table\<close>

definition push_mount :: "path \<Rightarrow> path \<Rightarrow> mount_entry list \<Rightarrow> mount_entry list" where
  "push_mount p src ms = \<lparr>mnt_point = p, mnt_source = src, mnt_ro = False\<rparr> # ms"

fun make_ro :: "path \<Rightarrow> mount_entry list \<Rightarrow> mount_entry list" where
  "make_ro p [] = []"
| "make_ro p (m # ms) = (if mnt_point m = p then m\<lparr>mnt_ro := True\<rparr> # ms else m # make_ro p ms)"

text \<open>
  A lazy unmount takes the newest mount at the place away, with every mount that was made below
  it since.
\<close>

fun detach :: "path \<Rightarrow> mount_entry list \<Rightarrow> mount_entry list" where
  "detach p [] = []"
| "detach p (m # ms) =
     (if mnt_point m = p then ms
      else if p \<in> set (map mnt_point ms) \<and> strict_prefix p (mnt_point m) then detach p ms
      else m # detach p ms)"

definition only_mtab :: "world \<Rightarrow> world \<Rightarrow> bool" where
  "only_mtab w w' \<longleftrightarrow>
     suffix (faults w') (faults w) \<and> tree w' = tree w \<and> api_answers w' = api_answers w \<and>
     umask w' = umask w \<and> clock w' = clock w \<and> effects w' = effects w"

lemma only_mtab_refl [simp, intro]: "only_mtab w w"
  by (simp add: only_mtab_def)

lemma only_mtab_trans: "only_mtab w w' \<Longrightarrow> only_mtab w' w'' \<Longrightarrow> only_mtab w w''"
  by (auto simp: only_mtab_def intro: suffix_order.trans)

lemma only_mtabD:
  assumes "only_mtab w w'"
  shows "tree w' = tree w" "fs w' = fs w" "dir_at w' = dir_at w" "wf_tree w' = wf_tree w"
    "effects w' = effects w" "umask w' = umask w" "clock w' = clock w" "api_answers w' = api_answers w"
    "honest w \<Longrightarrow> honest w'" "healthy w \<Longrightarrow> healthy w'"
  using assms
  by (auto simp: only_mtab_def honest_def healthy_def suffix_def intro: fs_cong dir_at_cong)
    (auto dest: wf_tree_cong)

lemma detach_subset: "set (detach p ms) \<subseteq> set ms"
  by (induction ms) auto

lemma distinct_detach:
  "distinct (map mnt_point ms) \<Longrightarrow> distinct (map mnt_point (detach p ms))"
proof (induction ms)
  case (Cons a ms)
  then show ?case using detach_subset [of p ms] by (auto simp: subset_iff)
qed simp

lemma detach_gone:
  "distinct (map mnt_point ms) \<Longrightarrow> m \<in> set (detach p ms) \<Longrightarrow> mnt_point m \<noteq> p"
  by (induction ms) (auto simp: image_iff split: if_splits)

lemma detach_other:
  "m \<in> set ms \<Longrightarrow> \<not> prefix p (mnt_point m) \<Longrightarrow> m \<in> set (detach p ms)"
  by (induction ms) auto

lemma detach_push [simp]: "detach p (push_mount p src ms) = ms"
  by (simp add: push_mount_def)

lemma make_ro_push [simp]:
  "make_ro p (push_mount p src ms) = \<lparr>mnt_point = p, mnt_source = src, mnt_ro = True\<rparr> # ms"
  by (simp add: push_mount_def)

subsection \<open>What the driver relies on the kernel for\<close>

locale bind_kernel =
  fixes calls :: "world mountSyscalls"
  assumes mount_bind:
    "Mount calls s t '''' MS_BIND '''' w = (None, w') \<Longrightarrow>
       mtab w' = push_mount (locate t) (locate s) (mtab w)"
  and mount_remount:
    "Mount calls s t '''' (MS_BIND OR MS_REMOUNT OR MS_RDONLY) '''' w = (None, w') \<Longrightarrow>
       mtab w' = make_ro (locate t) (mtab w)"
  and mount_refused:
    "Mount calls s t fstype flags data w = (Some e, w') \<Longrightarrow> mtab w' = mtab w"
  and mount_frame:
    "Mount calls s t fstype flags data w = (r, w') \<Longrightarrow> only_mtab w w'"
  and unmount_done:
    "Unmount calls t MNT_DETACH w = (None, w') \<Longrightarrow>
       mounted_at w (locate t) \<and> mtab w' = detach (locate t) (mtab w)"
  and unmount_refused:
    "Unmount calls t MNT_DETACH w = (Some e, w') \<Longrightarrow> mtab w' = mtab w"
  and unmount_no_mount:
    "Unmount calls t MNT_DETACH w = (Some e, w') \<Longrightarrow> errors_is e EINVAL \<or> errors_is e ENOENT \<Longrightarrow>
       \<not> mounted_at w (locate t)"
  and unmount_frame:
    "Unmount calls t MNT_DETACH w = (r, w') \<Longrightarrow> only_mtab w w'"
begin

lemma bindReadWrite_done:
  "bindReadWrite calls s t w = (None, w') \<Longrightarrow>
     mtab w' = \<lparr>mnt_point = locate t, mnt_source = locate s, mnt_ro = False\<rparr> # mtab w"
  by (auto simp: bindReadWrite_def push_mount_def dest: mount_bind split: call_splits)

lemma bindReadWrite_refused: "bindReadWrite calls s t w = (Some e, w') \<Longrightarrow> mtab w' = mtab w"
  by (auto simp: bindReadWrite_def dest: mount_refused split: call_splits)

lemma bindReadOnly_done:
  "bindReadOnly calls s t w = (None, w') \<Longrightarrow>
     mtab w' = \<lparr>mnt_point = locate t, mnt_source = locate s, mnt_ro = True\<rparr> # mtab w"
  by (auto simp: bindReadOnly_def dest!: mount_bind mount_remount split: call_splits)

text \<open>
  After a refused read-only bind, the table is the one before, unless the kernel refused the
  remount and then the detach as well.
\<close>

lemma bindReadOnly_refused:
  assumes "bindReadOnly calls s t w = (Some e, w')"
  shows "mtab w' = mtab w \<or>
    (mtab w' = push_mount (locate t) (locate s) (mtab w) \<and>
      (\<exists>w1 e1. Unmount calls t MNT_DETACH w1 = (Some e1, w') \<and> mounted_at w1 (locate t)))"
proof -
  obtain r1 w1 where m1: "Mount calls s t '''' MS_BIND '''' w = (r1, w1)" by fastforce
  show ?thesis
  proof (cases r1)
    case None
    note b = mount_bind [OF m1 [unfolded None]]
    obtain r2 w2 where m2: "Mount calls s t '''' (MS_BIND OR MS_REMOUNT OR MS_RDONLY) '''' w1 = (r2, w2)"
      by fastforce
    with assms m1 None obtain e2 r3 where r2: "r2 = Some e2"
      and u: "Unmount calls t MNT_DETACH w2 = (r3, w')"
      by (auto simp: bindReadOnly_def split: call_splits)
    have w2: "mtab w2 = push_mount (locate t) (locate s) (mtab w)"
      using mount_refused [of s t _ _ _ w1 e2 w2] m2 r2 b by simp
    show ?thesis
    proof (cases r3)
      case None
      with u w2 show ?thesis by (auto dest!: unmount_done)
    next
      case (Some e3)
      moreover have "mounted_at w2 (locate t)" by (simp add: mounted_at_def w2 push_mount_def)
      ultimately show ?thesis using u w2 unmount_refused by metis
    qed
  qed (use assms m1 mount_refused in \<open>auto simp: bindReadOnly_def\<close>)
qed

lemma bind_mount_frame [frame]:
  "bind_mount calls s t ro w = (r, w') \<Longrightarrow> only_mtab w w'"
  by (auto simp: bind_mount_def bindReadOnly_def bindReadWrite_def
      dest!: mount_frame unmount_frame intro: only_mtab_trans split: call_splits)

lemma bind_mount_done:
  "bind_mount calls s t ro w = (None, w') \<Longrightarrow>
     mtab w' = \<lparr>mnt_point = locate t, mnt_source = locate s, mnt_ro = ro\<rparr> # mtab w"
  by (auto simp: bind_mount_def dest: bindReadOnly_done bindReadWrite_done split: if_splits)

lemma unbind_frame [frame]: "unbind calls t w = (r, w') \<Longrightarrow> only_mtab w w'"
  by (auto simp: unbind_def dest: unmount_frame split: call_splits)

lemma unbind_done:
  "unbind calls t w = (None, w') \<Longrightarrow>
     mtab w' = (if mounted_at w (locate t) then detach (locate t) (mtab w) else mtab w)"
  by (auto simp: unbind_def dest: unmount_done unmount_no_mount unmount_refused split: call_splits)

lemma unbind_refused:
  "unbind calls t w = (Some e, w') \<Longrightarrow> mtab w' = mtab w"
  by (auto simp: unbind_def dest: unmount_refused split: call_splits)

text \<open>After an unbind that succeeds, nothing is mounted at a target that had one mount.\<close>

lemma unbind_clears:
  assumes "unbind calls t w = (None, w')" "distinct (map mnt_point (mtab w))"
  shows "\<not> mounted_at w' (locate t)" "distinct (map mnt_point (mtab w'))"
  using unbind_done [OF assms(1)] assms(2) detach_gone [OF assms(2)] distinct_detach [OF assms(2)]
  by (auto simp: mounted_at_def split: if_splits)

end

text \<open>
  A kernel that always detaches a mount the driver made: the calls of a privileged process for a
  mount of its own namespace.
\<close>

locale detaching_kernel = bind_kernel +
  assumes unmount_detaches:
    "Unmount calls t MNT_DETACH w = (Some e, w') \<Longrightarrow> \<not> mounted_at w (locate t)"
begin

lemma bind_mount_refused:
  "bind_mount calls s t ro w = (Some e, w') \<Longrightarrow> mtab w' = mtab w"
  by (auto simp: bind_mount_def dest: bindReadWrite_refused bindReadOnly_refused unmount_detaches
      split: if_splits)

end

text \<open>
  A kernel that grants what it is asked where no call is refused from outside: a bind of a place
  that is there onto one that is there, a remount of a mount, a detach of a mount. Where nothing
  is mounted, an unmount answers one of the two errors that say so.
\<close>

locale answering_kernel = bind_kernel +
  assumes mount_answers:
    "healthy w \<Longrightarrow> fs w (locate s) \<noteq> None \<Longrightarrow> fs w (locate t) \<noteq> None \<Longrightarrow>
       \<exists>w'. Mount calls s t '''' MS_BIND '''' w = (None, w')"
  and remount_answers:
    "healthy w \<Longrightarrow> fs w (locate t) \<noteq> None \<Longrightarrow> mounted_at w (locate t) \<Longrightarrow>
       \<exists>w'. Mount calls s t '''' (MS_BIND OR MS_REMOUNT OR MS_RDONLY) '''' w = (None, w')"
  and unmount_answers:
    "healthy w \<Longrightarrow> mounted_at w (locate t) \<Longrightarrow> \<exists>w'. Unmount calls t MNT_DETACH w = (None, w')"
  and unmount_nothing:
    "healthy w \<Longrightarrow> \<not> mounted_at w (locate t) \<Longrightarrow>
       \<exists>e w'. Unmount calls t MNT_DETACH w = (Some e, w') \<and> (errors_is e EINVAL \<or> errors_is e ENOENT)"
begin

lemma unbind_healthy: "healthy w \<Longrightarrow> \<exists>w'. unbind calls t w = (None, w') \<and> healthy w'"
  using unmount_answers [of w t] unmount_nothing [of w t] unmount_frame [of t w] only_mtabD(10)
  by (cases "mounted_at w (locate t)") (fastforce simp: unbind_def)+

lemma bind_mount_healthy:
  assumes "healthy w" "fs w (locate s) \<noteq> None" "fs w (locate t) \<noteq> None"
  shows "\<exists>w'. bind_mount calls s t ro w = (None, w') \<and> healthy w'"
proof -
  obtain w1 where m: "Mount calls s t '''' MS_BIND '''' w = (None, w1)"
    using mount_answers [OF assms] by blast
  note f = only_mtabD [OF mount_frame [OF m]]
  have "mounted_at w1 (locate t)"
    using mount_bind [OF m] by (simp add: mounted_at_def push_mount_def)
  then obtain w2 where r: "Mount calls s t '''' (MS_BIND OR MS_REMOUNT OR MS_RDONLY) '''' w1 = (None, w2)"
    using remount_answers [of w1 t s] f assms(1,3) by auto
  have "healthy w1" "healthy w2"
    using assms(1) f(10) only_mtabD(10) [OF mount_frame [OF r]] by auto
  then show ?thesis using m r by (cases ro) (simp_all add: bind_mount_def bindReadOnly_def bindReadWrite_def)
qed

end

subsection \<open>A kernel that behaves so\<close>

text \<open>
  mount(2) and umount2(2) on the model's tree and mount table. A refusal that the environment
  injects is never one of the two errors that mean ``no mount here''.
\<close>

definition other_refusal :: "errno \<Rightarrow> errno" where
  "other_refusal e = (if e = EINVAL \<or> e = ENOENT then EIO else e)"

definition linux_mount ::
  "string \<Rightarrow> string \<Rightarrow> string \<Rightarrow> uintptr \<Rightarrow> string \<Rightarrow> world \<Rightarrow> goerror option \<times> world" where
  "linux_mount source target fstype flags data w =
     (case take_fault w of
        (Some (e, n), w) \<Rightarrow> (Some (SysError e), w)
      | (None, w) \<Rightarrow>
          if fs w (locate target) = None then (Some (SysError ENOENT), w)
          else if flags = MS_BIND then
            if fs w (locate source) = None then (Some (SysError ENOENT), w)
            else (None, w\<lparr>mtab := push_mount (locate target) (locate source) (mtab w)\<rparr>)
          else if flags = (MS_BIND OR MS_REMOUNT OR MS_RDONLY) \<and> mounted_at w (locate target) then
            (None, w\<lparr>mtab := make_ro (locate target) (mtab w)\<rparr>)
          else (Some (SysError EINVAL), w))"

definition linux_unmount :: "string \<Rightarrow> int \<Rightarrow> world \<Rightarrow> goerror option \<times> world" where
  "linux_unmount target flags w =
     (if mounted_at w (locate target) then
        (case take_fault w of
           (Some (e, n), w) \<Rightarrow> (Some (SysError (other_refusal e)), w)
         | (None, w) \<Rightarrow> (None, w\<lparr>mtab := detach (locate target) (mtab w)\<rparr>))
      else (Some (SysError (if fs w (locate target) = None then ENOENT else EINVAL)), w))"

definition linux_calls :: "world mountSyscalls" where
  "linux_calls = kernelMounts linux_mount linux_unmount"

text \<open>The same kernel where an unmount of a mount is never refused.\<close>

definition steady_unmount :: "string \<Rightarrow> int \<Rightarrow> world \<Rightarrow> goerror option \<times> world" where
  "steady_unmount target flags w =
     (if mounted_at w (locate target)
      then (None, w\<lparr>mtab := detach (locate target) (mtab w)\<rparr>)
      else (Some (SysError (if fs w (locate target) = None then ENOENT else EINVAL)), w))"

definition steady_calls :: "world mountSyscalls" where
  "steady_calls = kernelMounts linux_mount steady_unmount"

lemma take_fault_only_mtab: "take_fault w = (r, w') \<Longrightarrow> only_mtab w w' \<and> mtab w' = mtab w"
  by (auto dest!: take_fault_reads simp: reads_def only_fs_def only_mtab_def)

lemma only_mtab_update [simp]: "only_mtab w (w'\<lparr>mtab := ms\<rparr>) \<longleftrightarrow> only_mtab w w'"
  by (simp add: only_mtab_def)

lemma bind_flags [simp]: "MS_BIND OR (MS_REMOUNT OR MS_RDONLY) \<noteq> MS_BIND"
  by (simp add: MS_BIND_def MS_REMOUNT_def MS_RDONLY_def)

interpretation lk: bind_kernel linux_calls
  by unfold_locales
    (auto simp: linux_calls_def linux_mount_def linux_unmount_def mounted_at_def other_refusal_def
      dest: take_fault_only_mtab split: call_splits)

interpretation sk: detaching_kernel steady_calls
  by unfold_locales
    (auto simp: steady_calls_def linux_mount_def steady_unmount_def mounted_at_def
      dest: take_fault_only_mtab split: call_splits)

text \<open>Where no call is refused from outside, both kernels grant what they are asked.\<close>

lemma take_fault_healthy_obtain:
  assumes "healthy w"
  obtains w' where "take_fault w = (None, w')" "mtab w' = mtab w" "fs w' = fs w" "mounted_at w' = mounted_at w"
proof -
  obtain r w' where t: "take_fault w = (r, w')" by fastforce
  have "r = None" using take_fault_healthy [OF assms t] .
  with t show thesis
    using take_fault_frame [OF t] that by (auto dest: fs_cong only_fsD(1,6))
qed

interpretation la: answering_kernel linux_calls
proof
  fix w s t assume h: "healthy w"
  from h obtain w1 where w1: "take_fault w = (None, w1)" "mtab w1 = mtab w" "fs w1 = fs w"
    "mounted_at w1 = mounted_at w" by (rule take_fault_healthy_obtain)
  show "\<exists>w'. Mount linux_calls s t [] MS_BIND [] w = (None, w')"
    if "fs w (locate s) \<noteq> None" "fs w (locate t) \<noteq> None"
    using w1 that by (simp add: linux_calls_def linux_mount_def)
  show "\<exists>w'. Mount linux_calls s t [] (MS_BIND OR MS_REMOUNT OR MS_RDONLY) [] w = (None, w')"
    if "fs w (locate t) \<noteq> None" "mounted_at w (locate t)"
    using w1 that by (simp add: linux_calls_def linux_mount_def or.assoc)
  show "\<exists>w'. Unmount linux_calls t MNT_DETACH w = (None, w')" if "mounted_at w (locate t)"
    using w1 that by (simp add: linux_calls_def linux_unmount_def)
  show "\<exists>e w'. Unmount linux_calls t MNT_DETACH w = (Some e, w') \<and> (errors_is e EINVAL \<or> errors_is e ENOENT)"
    if "\<not> mounted_at w (locate t)"
    using that by (simp add: linux_calls_def linux_unmount_def)
qed

interpretation sa: answering_kernel steady_calls
proof
  fix w s t assume h: "healthy w"
  from h obtain w1 where w1: "take_fault w = (None, w1)" "mtab w1 = mtab w" "fs w1 = fs w"
    "mounted_at w1 = mounted_at w" by (rule take_fault_healthy_obtain)
  show "\<exists>w'. Mount steady_calls s t [] MS_BIND [] w = (None, w')"
    if "fs w (locate s) \<noteq> None" "fs w (locate t) \<noteq> None"
    using w1 that by (simp add: steady_calls_def linux_mount_def)
  show "\<exists>w'. Mount steady_calls s t [] (MS_BIND OR MS_REMOUNT OR MS_RDONLY) [] w = (None, w')"
    if "fs w (locate t) \<noteq> None" "mounted_at w (locate t)"
    using w1 that by (simp add: steady_calls_def linux_mount_def or.assoc)
  show "\<exists>w'. Unmount steady_calls t MNT_DETACH w = (None, w')" if "mounted_at w (locate t)"
    using that by (simp add: steady_calls_def steady_unmount_def)
  show "\<exists>e w'. Unmount steady_calls t MNT_DETACH w = (Some e, w') \<and> (errors_is e EINVAL \<or> errors_is e ENOENT)"
    if "\<not> mounted_at w (locate t)"
    using that by (simp add: steady_calls_def steady_unmount_def)
qed

subsection \<open>Properties\<close>

text \<open>
  C19. A read-only bind that reports success leaves one new mount, read-only, of the source on
  the target. One that reports an error leaves the mount table as it was, with one exception: the
  kernel refused the remount and then refused the detach of the mount that was made.
\<close>

theorem bindReadOnly_is_read_only:
  assumes "bind_kernel calls" "bindReadOnly calls source target w = (r, w')"
  shows "case r of
      None \<Rightarrow> mtab w' = \<lparr>mnt_point = locate target, mnt_source = locate source, mnt_ro = True\<rparr> # mtab w
    | Some err \<Rightarrow>
        mtab w' = mtab w \<or>
        (mtab w' = push_mount (locate target) (locate source) (mtab w) \<and>
          (\<exists>w1 e1. Unmount calls target MNT_DETACH w1 = (Some e1, w') \<and> mounted_at w1 (locate target)))"
  using bind_kernel.bindReadOnly_done [OF assms(1), of source target w w']
    bind_kernel.bindReadOnly_refused [OF assms(1), of source target w _ w'] assms(2)
  by (cases r) auto

definition sample_mounts :: world where
  "sample_mounts =
     \<lparr>tree = [([], Dir 1), ([''a''], Dir 1), ([''b''], Dir 1)], mtab = [],
      faults = [None, Some (EIO, 0)], api_answers = [], umask = 0, clock = 0, effects = []\<rparr>"

lemma bindReadOnly_is_read_only_witness:
  "\<exists>err w'. bindReadOnly linux_calls ''/a'' ''/b'' sample_mounts = (Some err, w') \<and> mtab w' = []"
proof -
  obtain r w' where b: "bindReadOnly linux_calls ''/a'' ''/b'' sample_mounts = (r, w')" by fastforce
  have "fst (bindReadOnly linux_calls ''/a'' ''/b'' sample_mounts) \<noteq> None \<and>
      mtab (snd (bindReadOnly linux_calls ''/a'' ''/b'' sample_mounts)) = []"
    by code_simp
  then show ?thesis
    using bindReadOnly_is_read_only [OF lk.bind_kernel_axioms b] b by auto
qed

text \<open>
  An unbind that reports success has taken the newest mount at the target away, or found
  none; with one mount per place nothing is mounted there afterwards, and a second unbind
  reports success and changes no mount. One that reports an error changed no mount.
\<close>

theorem unbind_twice:
  assumes "answering_kernel calls" "unbind calls target w = (r, w1)" "distinct (map mnt_point (mtab w))"
  shows "(r \<noteq> None \<longrightarrow> mtab w1 = mtab w) \<and>
    (r = None \<longrightarrow> \<not> mounted_at w1 (locate target) \<and> distinct (map mnt_point (mtab w1)) \<and>
      (healthy w1 \<longrightarrow> (\<exists>w2. unbind calls target w1 = (None, w2) \<and> mtab w2 = mtab w1)))"
proof -
  have bk: "bind_kernel calls" using assms(1) by (simp add: answering_kernel_def)
  show ?thesis
  proof (cases r)
    case None
    note c = bind_kernel.unbind_clears [OF bk assms(2) [unfolded None] assms(3)]
    have "\<exists>w2. unbind calls target w1 = (None, w2) \<and> mtab w2 = mtab w1" if "healthy w1"
      using answering_kernel.unbind_healthy [OF assms(1) that, of target]
        bind_kernel.unbind_done [OF bk, of target w1] c(1) by auto
    with c None show ?thesis by blast
  next
    case (Some e)
    then show ?thesis using bind_kernel.unbind_refused [OF bk] assms(2) by auto
  qed
qed

lemma unbind_twice_witness:
  "\<exists>r w1. unbind linux_calls ''/b'' (sample_mounts\<lparr>faults := [],
      mtab := [\<lparr>mnt_point = [''b''], mnt_source = [''a''], mnt_ro = False\<rparr>]\<rparr>) = (r, w1) \<and>
    (r = None \<longrightarrow> \<not> mounted_at w1 [''b''])"
proof -
  let ?w = "sample_mounts\<lparr>faults := [], mtab := [\<lparr>mnt_point = [''b''], mnt_source = [''a''], mnt_ro = False\<rparr>]\<rparr>"
  obtain r w1 where u: "unbind linux_calls ''/b'' ?w = (r, w1)" by fastforce
  have "locate ''/b'' = [''b'']" by code_simp
  with unbind_twice [OF la.answering_kernel_axioms u] u show ?thesis by auto
qed

end
