(* ===== verification/Mountinfo.thy ===== *)
theory Mountinfo
  imports Bind_Mount
begin

section \<open>holds.go: reading the kernel's mount table\<close>

text \<open>
  \<open>mountedNow\<close> and \<open>mountedIn\<close> with what they use of the standard library: the lines of a
  \<open>bufio.Scanner\<close> with its limit on a token, \<open>strings.Fields\<close>, and the
  \<open>strings.Replacer\<close> of the octal escapes. The kernel's side is the locale
  \<open>proc_table\<close>: the shape proc(5) documents of a line. Reading back what the kernel wrote
  gives the mount points again.
\<close>

subsection \<open>bufio.Scanner over lines\<close>

definition maxTokenSize :: nat where
  "maxTokenSize = 65536"

definition newline :: char where
  "newline = CHR 0x0A"

definition drop_cr :: "string \<Rightarrow> string" where
  "drop_cr s = (if s \<noteq> [] \<and> last s = CHR 0x0D then butlast s else s)"

text \<open>
  A line, with what ends it, has to fit the scanner's buffer. At a line that does not, the scan
  ends without an error that the driver looks at.
\<close>

fun scanned :: "string list \<Rightarrow> string list" where
  "scanned [] = []"
| "scanned [l] = (if l = [] \<or> length l \<ge> maxTokenSize then [] else [drop_cr l])"
| "scanned (l # m # ms) =
     (if length l \<ge> maxTokenSize then [] else drop_cr l # scanned (m # ms))"

definition scan_lines :: "string \<Rightarrow> string list" where
  "scan_lines s = scanned (split_on newline s)"

subsection \<open>strings.Fields\<close>

text \<open>The bytes of the white space that a text starts with, 0 if none: \<open>unicode.IsSpace\<close>.\<close>

definition ascii_space :: "char \<Rightarrow> bool" where
  "ascii_space c \<longleftrightarrow> c = CHR '' '' \<or> CHR 0x09 \<le> c \<and> c \<le> CHR 0x0D"

fun space_width :: "string \<Rightarrow> nat" where
  "space_width [] = 0"
| "space_width (c # s) =
     (if ascii_space c then 1
      else if c = CHR 0xC2 \<and> (case s of [] \<Rightarrow> False | d # t \<Rightarrow> d = CHR 0x85 \<or> d = CHR 0xA0) then 2
      else case s of
        d # e # t \<Rightarrow>
          if c = CHR 0xE1 \<and> d = CHR 0x9A \<and> e = CHR 0x80 then 3
          else if c = CHR 0xE2 \<and> d = CHR 0x80 \<and>
            (CHR 0x80 \<le> e \<and> e \<le> CHR 0x8A \<or> e = CHR 0xA8 \<or> e = CHR 0xA9 \<or> e = CHR 0xAF) then 3
          else if c = CHR 0xE2 \<and> d = CHR 0x81 \<and> e = CHR 0x9F then 3
          else if c = CHR 0xE3 \<and> d = CHR 0x80 \<and> e = CHR 0x80 then 3
          else 0
      | t \<Rightarrow> 0)"

text \<open>The arguments: bytes of a white space still to skip, the field so far, the rest.\<close>

fun fields_from :: "nat \<Rightarrow> string \<Rightarrow> string \<Rightarrow> string list" where
  "fields_from k field [] = (if field = [] then [] else [field])"
| "fields_from (Suc k) field (c # s) = fields_from k field s"
| "fields_from 0 field (c # s) =
     (case space_width (c # s) of
        0 \<Rightarrow> fields_from 0 (field @ [c]) s
      | Suc k \<Rightarrow> (if field = [] then [] else [field]) @ fields_from k [] s)"

definition strings_Fields :: "string \<Rightarrow> string list" where
  "strings_Fields s = fields_from 0 [] s"

subsection \<open>strings.Replacer and the escapes\<close>

fun first_match :: "(string \<times> string) list \<Rightarrow> string \<Rightarrow> (nat \<times> string) option" where
  "first_match [] s = None"
| "first_match ((old, new) # ps) s =
     (if prefix old s then Some (length old, new) else first_match ps s)"

text \<open>The first argument after the pairs: bytes of a match still to skip.\<close>

fun replace_from :: "(string \<times> string) list \<Rightarrow> nat \<Rightarrow> string \<Rightarrow> string" where
  "replace_from ps k [] = []"
| "replace_from ps (Suc k) (c # s) = replace_from ps k s"
| "replace_from ps 0 (c # s) =
     (case first_match ps (c # s) of
        None \<Rightarrow> c # replace_from ps 0 s
      | Some (n, new) \<Rightarrow> new @ replace_from ps (n - 1) s)"

definition backslash :: char where
  "backslash = CHR 0x5C"

definition mountEscapes :: "(string \<times> string) list" where
  "mountEscapes =
     [(backslash # ''040'', '' ''), (backslash # ''011'', [CHR 0x09]),
      (backslash # ''012'', [CHR 0x0A]), (backslash # ''134'', [backslash])]"

definition mountEscapes_Replace :: "string \<Rightarrow> string" where
  "mountEscapes_Replace s = replace_from mountEscapes 0 s"

subsection \<open>mountedIn and mountedNow\<close>

definition names_mount :: "string \<Rightarrow> string \<Rightarrow> bool" where
  "names_mount path line =
     (let fields = strings_Fields line
      in length fields > 4 \<and> mountEscapes_Replace (fields ! 4) = path)"

definition mountedIn :: "string \<Rightarrow> string \<Rightarrow> bool" where
  "mountedIn table path = list_ex (names_mount path) (scan_lines table)"

definition mountTable :: string where
  "mountTable = ''/proc/self/mountinfo''"

text \<open>
  What reading an opened file to its end gives. The kernel writes the mount table when it is
  read: \<open>row\<close> is its line for one mount. A refused read ends the text early, and the driver
  does not ask the scanner why it ended.
\<close>

definition table_text :: "(mount_entry \<Rightarrow> string) \<Rightarrow> mount_entry list \<Rightarrow> string" where
  "table_text row ms = concat (map (\<lambda>m. row m @ [newline]) (rev ms))"

definition open_and_read ::
  "(mount_entry \<Rightarrow> string) \<Rightarrow> string \<Rightarrow> world \<Rightarrow> (goerror + string) \<times> world" where
  "open_and_read row s w =
     (case take_fault w of
        (Some (e, n), w) \<Rightarrow> (Inl (PathError ''open'' s e), w)
      | (None, w) \<Rightarrow>
          (case (if locate s = locate mountTable then Inr (table_text row (mtab w))
                 else case fs w (locate s) of
                   None \<Rightarrow> Inl (absent_errno w (locate s))
                 | Some (Reg m content) \<Rightarrow> Inr content
                 | Some (Dir m) \<Rightarrow> Inr ''''
                 | Some (Special m) \<Rightarrow> Inl (OtherErrno 6 ''no such device or address'')) of
             Inl e \<Rightarrow> (Inl (PathError ''open'' s e), w)
           | Inr content \<Rightarrow>
               (case take_fault w of
                  (Some (e, n), w) \<Rightarrow> (Inr (take n content), w)
                | (None, w) \<Rightarrow> (Inr content, w))))"

definition mountedNow :: "(mount_entry \<Rightarrow> string) \<Rightarrow> string \<Rightarrow> string \<Rightarrow> world \<Rightarrow> bool \<times> world" where
  "mountedNow row table path w =
     (case open_and_read row table w of
        (Inl err, w) \<Rightarrow> (False, w)
      | (Inr published, w) \<Rightarrow> (mountedIn published path, w))"

lemma mountedNow_reads [frame]: "mountedNow row table path w = (r, w') \<Longrightarrow> reads w w'"
  by (auto simp: mountedNow_def open_and_read_def split: call_splits
      dest!: take_fault_reads intro: reads_trans)

subsection \<open>The kernel's escapes and the driver's\<close>

text \<open>The kernel writes a blank, a tab, a newline and a backslash of a path in octal.\<close>

fun mangle :: "string \<Rightarrow> string" where
  "mangle [] = []"
| "mangle (c # s) =
     (if c = CHR '' '' then backslash # ''040''
      else if c = CHR 0x09 then backslash # ''011''
      else if c = CHR 0x0A then backslash # ''012''
      else if c = backslash then backslash # ''134''
      else [c]) @ mangle s"

lemma mountEscapes_mangle [simp]: "mountEscapes_Replace (mangle s) = s"
proof (induction s)
  case (Cons c s)
  then show ?case
    by (auto simp: mountEscapes_Replace_def mountEscapes_def backslash_def eval_nat_numeral)
qed (simp add: mountEscapes_Replace_def)

text \<open>A text that \<open>Fields\<close> keeps in one piece when a blank follows it.\<close>

fun solid :: "string \<Rightarrow> bool" where
  "solid [] = True"
| "solid (c # s) = (space_width (c # s @ '' '') = 0 \<and> solid s)"

definition word :: "string \<Rightarrow> bool" where
  "word s \<longleftrightarrow> s \<noteq> [] \<and> solid s"

declare space_width.simps(2) [simp del]

lemma space_width_blank:
  "space_width (c # s @ CHR '' '' # t) = space_width (c # s @ '' '')"
  by (cases s; cases "tl s") (auto simp: space_width.simps split: list.splits)

lemma fields_word_gen:
  "solid s \<Longrightarrow> field @ s \<noteq> [] \<Longrightarrow>
     fields_from 0 field (s @ CHR '' '' # t) = (field @ s) # fields_from 0 [] t"
proof (induction s arbitrary: field)
  case Nil
  then show ?case by (simp add: space_width.simps ascii_space_def)
next
  case (Cons c s)
  then show ?case by (simp add: space_width_blank [of c s t])
qed

lemma strings_Fields_word:
  "word s \<Longrightarrow> strings_Fields (s @ CHR '' '' # t) = s # strings_Fields t"
  using fields_word_gen [of s "[]" t] by (simp add: strings_Fields_def word_def)

text \<open>A line of the table for a mount point: four fields, the mount point, and the rest.\<close>

definition row_for :: "string \<Rightarrow> string \<Rightarrow> bool" where
  "row_for path line \<longleftrightarrow>
     (\<exists>a b c d rest. word a \<and> word b \<and> word c \<and> word d \<and>
        line = a @ '' '' @ b @ '' '' @ c @ '' '' @ d @ '' '' @ mangle path @ '' '' @ rest)"

lemma names_mount_row:
  assumes "row_for p line" "word (mangle p)"
  shows "names_mount path line \<longleftrightarrow> path = p"
proof -
  from assms(1) obtain a b c d rest where w: "word a" "word b" "word c" "word d"
    and line: "line = a @ '' '' @ b @ '' '' @ c @ '' '' @ d @ '' '' @ mangle p @ '' '' @ rest"
    unfolding row_for_def by blast
  have "strings_Fields line = a # b # c # d # mangle p # strings_Fields rest"
    using w assms(2) by (simp add: line strings_Fields_word)
  then show ?thesis by (auto simp: names_mount_def)
qed

lemma names_mount_drop_cr:
  "row_for p line \<Longrightarrow> word (mangle p) \<Longrightarrow> last line \<noteq> CHR 0x0D \<Longrightarrow>
     names_mount path (drop_cr line) \<longleftrightarrow> path = p"
  by (simp add: drop_cr_def names_mount_row)

subsection \<open>The scanner over a text of short lines\<close>

lemma split_on_lines:
  "\<forall>l \<in> set ls. newline \<notin> set l \<Longrightarrow>
     split_on newline (concat (map (\<lambda>l. l @ [newline]) ls)) = ls @ [[]]"
  by (induction ls) (auto simp: split_on_append)

lemma scanned_short:
  "\<forall>l \<in> set ls. length l < maxTokenSize \<Longrightarrow> scanned (ls @ [[]]) = map drop_cr ls"
proof (induction ls)
  case (Cons l ls)
  then show ?case by (cases ls) auto
qed simp

lemma scan_lines_text:
  assumes "\<forall>l \<in> set ls. newline \<notin> set l \<and> length l < maxTokenSize"
  shows "scan_lines (concat (map (\<lambda>l. l @ [newline]) ls)) = map drop_cr ls"
  using assms by (simp add: scan_lines_def split_on_lines scanned_short)

subsection \<open>What the driver relies on the kernel's table for\<close>

definition printable_mount :: "mount_entry \<Rightarrow> bool" where
  "printable_mount m \<longleftrightarrow>
     word (mangle (path_text (mnt_point m))) \<and> word (mangle (path_text (mnt_source m)))"

text \<open>
  A line holds no newline but the one that ends it, does not end in a carriage return, and has
  the mount point in the fifth of its fields; the paths it shows hold no white space that is
  not escaped.
\<close>

locale proc_table =
  fixes row :: "mount_entry \<Rightarrow> string"
  assumes row_shape: "printable_mount m \<Longrightarrow> row_for (path_text (mnt_point m)) (row m)"
    and row_line: "newline \<notin> set (row m)"
    and row_end: "last (row m) \<noteq> CHR 0x0D"
begin

lemma mountedIn_table:
  assumes "\<forall>m \<in> set ms. length (row m) < maxTokenSize"
    and "\<forall>m \<in> set ms. printable_mount m"
  shows "mountedIn (table_text row ms) path \<longleftrightarrow> path \<in> (\<lambda>m. path_text (mnt_point m)) ` set ms"
proof -
  have "table_text row ms = concat (map (\<lambda>l. l @ [newline]) (map row (rev ms)))"
    by (simp add: table_text_def comp_def)
  then have "scan_lines (table_text row ms) = map drop_cr (map row (rev ms))"
    using scan_lines_text [of "map row (rev ms)"] assms(1) row_line by simp
  moreover have "names_mount path (drop_cr (row m)) \<longleftrightarrow> path = path_text (mnt_point m)"
    if "m \<in> set ms" for m
    using names_mount_drop_cr [OF row_shape _ row_end] assms(2) that
    by (auto simp: printable_mount_def)
  ultimately show ?thesis
    by (auto simp: mountedIn_def list_ex_iff image_iff)
qed

end

text \<open>A line as Linux writes it, with fixed numbers and options.\<close>

definition linux_row :: "mount_entry \<Rightarrow> string" where
  "linux_row m =
     ''26'' @ '' '' @ ''25'' @ '' '' @ ''0:23'' @ '' '' @ mangle (path_text (mnt_source m)) @ '' '' @
     mangle (path_text (mnt_point m)) @ '' '' @
     ((if mnt_ro m then ''ro'' else ''rw'') @ '',relatime shared:4 - ext4 /dev/vda rw'')"

lemma newline_mangle: "newline \<notin> set (mangle s)"
  by (induction s) (auto simp: newline_def backslash_def)

lemma word_numbers: "word ''26''" "word ''25''" "word ''0:23''"
  by (simp_all add: word_def space_width.simps ascii_space_def less_eq_char_def)

interpretation lr: proc_table linux_row
proof
  fix m
  show "row_for (path_text (mnt_point m)) (linux_row m)" if "printable_mount m"
    unfolding row_for_def linux_row_def
    using that word_numbers unfolding printable_mount_def by blast
  show "newline \<notin> set (linux_row m)"
    using newline_mangle by (auto simp: linux_row_def) (auto simp: newline_def)
  show "last (linux_row m) \<noteq> CHR 0x0D"
    by (simp add: linux_row_def)
qed

text \<open>
  C21. Over a mount table as the kernel writes it, the driver finds a path exactly when it is the
  mount point of one of the mounts: octal escapes, carriage returns and the splitting at white
  space lose nothing, for lines below the scanner's 64 KiB.
\<close>

theorem mountedIn_is_exact:
  assumes "proc_table row"
    and "\<forall>m \<in> set ms. length (row m) < 65536 \<and> printable_mount m"
  shows "mountedIn (table_text row ms) target \<longleftrightarrow> target \<in> (\<lambda>m. path_text (mnt_point m)) ` set ms"
  using proc_table.mountedIn_table [OF assms(1), of ms target] assms(2)
  by (simp add: maxTokenSize_def)

lemma mountedIn_is_exact_witness:
  "mountedIn (table_text linux_row [\<lparr>mnt_point = [''a b''], mnt_source = [''c''], mnt_ro = True\<rparr>]) ''/a b''"
proof -
  have "\<forall>m \<in> set [\<lparr>mnt_point = [''a b''], mnt_source = [''c''], mnt_ro = True\<rparr>].
      length (linux_row m) < 65536 \<and> printable_mount m"
    by (simp add: printable_mount_def word_def space_width.simps ascii_space_def less_eq_char_def
        path_text_def backslash_def linux_row_def)
  from mountedIn_is_exact [OF lr.proc_table_axioms this] show ?thesis
    by (simp add: path_text_def)
qed

end
