(* ===== verification/Hold_Json.thy ===== *)
theory Hold_Json
  imports Go_Errors
begin

section \<open>A hold as JSON\<close>

text \<open>
  The struct \<open>hold\<close> with its tags, and what \<open>json.Marshal\<close> and \<open>json.Unmarshal\<close> do with
  it: a writer that escapes as \<open>encoding/json\<close> does, a reader of the whole of JSON, and the
  assignment of a value's members to the fields. A hold whose texts are valid UTF-8 is read back
  as it was written.
\<close>

record hold =
  PodUID :: string
  PodName :: string
  PodNamespace :: string
  Target :: string

definition empty_hold :: hold where
  "empty_hold = \<lparr>PodUID = '''', PodName = '''', PodNamespace = '''', Target = ''''\<rparr>"

subsection \<open>UTF-8\<close>

abbreviation byte :: "char \<Rightarrow> nat" where
  "byte c \<equiv> of_char c"

definition cont_byte :: "char \<Rightarrow> bool" where
  "cont_byte c \<longleftrightarrow> 0x80 \<le> byte c \<and> byte c \<le> 0xBF"

text \<open>The bytes of the rune a text starts with, 0 where it starts with no valid rune.\<close>

fun rune_width :: "string \<Rightarrow> nat" where
  "rune_width [] = 0"
| "rune_width (a # s) =
     (if byte a < 0x80 then 1
      else case s of
        [] \<Rightarrow> 0
      | b # t \<Rightarrow>
          if 0xC2 \<le> byte a \<and> byte a \<le> 0xDF \<and> cont_byte b then 2
          else case t of
            [] \<Rightarrow> 0
          | c # u \<Rightarrow>
              if 0xE0 \<le> byte a \<and> byte a \<le> 0xEF \<and> cont_byte b \<and> cont_byte c \<and>
                (byte a = 0xE0 \<longrightarrow> 0xA0 \<le> byte b) \<and> (byte a = 0xED \<longrightarrow> byte b \<le> 0x9F) then 3
              else case u of
                [] \<Rightarrow> 0
              | d # v \<Rightarrow>
                  if 0xF0 \<le> byte a \<and> byte a \<le> 0xF4 \<and> cont_byte b \<and> cont_byte c \<and> cont_byte d \<and>
                    (byte a = 0xF0 \<longrightarrow> 0x90 \<le> byte b) \<and> (byte a = 0xF4 \<longrightarrow> byte b \<le> 0x8F) then 4
                  else 0)"

declare rune_width.simps(2) [simp del]

definition replacement :: string where
  "replacement = [CHR 0xEF, CHR 0xBF, CHR 0xBD]"

definition encode_rune :: "nat \<Rightarrow> string" where
  "encode_rune r =
     (if r < 0x80 then [char_of r]
      else if r < 0x800 then [char_of (0xC0 + r div 64), char_of (0x80 + r mod 64)]
      else if r < 0x10000 then
        [char_of (0xE0 + r div 4096), char_of (0x80 + r div 64 mod 64), char_of (0x80 + r mod 64)]
      else
        [char_of (0xF0 + r div 262144), char_of (0x80 + r div 4096 mod 64),
         char_of (0x80 + r div 64 mod 64), char_of (0x80 + r mod 64)])"

lemma rune_width_le: "rune_width s \<le> length s"
  by (induction s rule: rune_width.induct) (auto simp: rune_width.simps split: list.splits)

lemma rune_width_append:
  "rune_width s \<noteq> 0 \<Longrightarrow> rune_width (s @ t) = rune_width s"
proof -
  consider "s = []" | a where "s = [a]" | a b where "s = [a, b]" | a b c where "s = [a, b, c]"
    | a b c d u where "s = a # b # c # d # u"
    by (metis list.exhaust)
  then show "rune_width s \<noteq> 0 \<Longrightarrow> rune_width (s @ t) = rune_width s"
    by cases (auto simp: rune_width.simps split: if_splits)
qed

lemma rune_width_take:
  "rune_width s = n \<Longrightarrow> n \<noteq> 0 \<Longrightarrow> rune_width (take n s @ t) = n"
  by (cases s) (auto simp: rune_width.simps split: list.splits if_splits)

function valid_utf8 :: "string \<Rightarrow> bool" where
  "valid_utf8 s =
     (if s = [] then True
      else if rune_width s = 0 then False
      else valid_utf8 (drop (rune_width s) s))"
  by pat_completeness auto
termination
  by (relation "measure length") auto

declare valid_utf8.simps [simp del]

lemma valid_utf8_Nil [simp]: "valid_utf8 []"
  by (subst valid_utf8.simps) simp

lemma valid_utf8_ascii: "list_all (\<lambda>c. byte c < 0x80) s \<Longrightarrow> valid_utf8 s"
  by (induction s) (simp_all add: rune_width.simps valid_utf8.simps [of "_ # _"])

subsection \<open>json.Marshal\<close>

definition quote_mark :: char where
  "quote_mark = CHR 0x22"

definition json_backslash :: char where
  "json_backslash = CHR 0x5C"

definition hex_digit :: "nat \<Rightarrow> char" where
  "hex_digit n = (if n < 10 then char_of (48 + n) else char_of (87 + n))"

definition html_byte :: "char \<Rightarrow> bool" where
  "html_byte c \<longleftrightarrow> c = CHR ''<'' \<or> c = CHR ''>'' \<or> c = CHR ''&''"

definition escape_rune :: "string \<Rightarrow> string" where
  "escape_rune r =
     (case r of
        [c] \<Rightarrow>
          if c = quote_mark \<or> c = json_backslash then [json_backslash, c]
          else if byte c = 8 then [json_backslash, CHR ''b'']
          else if byte c = 12 then [json_backslash, CHR ''f'']
          else if byte c = 10 then [json_backslash, CHR ''n'']
          else if byte c = 13 then [json_backslash, CHR ''r'']
          else if byte c = 9 then [json_backslash, CHR ''t'']
          else if byte c < 0x20 \<or> html_byte c then
            [json_backslash, CHR ''u'', CHR ''0'', CHR ''0'',
             hex_digit (byte c div 16), hex_digit (byte c mod 16)]
          else [c]
      | _ \<Rightarrow>
          if r = [CHR 0xE2, CHR 0x80, CHR 0xA8] then json_backslash # ''u2028''
          else if r = [CHR 0xE2, CHR 0x80, CHR 0xA9] then json_backslash # ''u2029''
          else r)"

function escape_text :: "string \<Rightarrow> string" where
  "escape_text s =
     (if s = [] then []
      else if rune_width s = 0 then (json_backslash # ''ufffd'') @ escape_text (tl s)
      else escape_rune (take (rune_width s) s) @ escape_text (drop (rune_width s) s))"
  by pat_completeness auto
termination
  by (relation "measure length") auto

declare escape_text.simps [simp del]

lemma escape_text_plain:
  assumes "0x20 \<le> byte c" "byte c < 0x80" "c \<noteq> quote_mark" "c \<noteq> json_backslash" "\<not> html_byte c"
  shows "escape_text (c # s) = c # escape_text s"
  using assms by (simp add: escape_text.simps [of "c # s"] rune_width.simps escape_rune_def)

lemma byte_bits:
  "\<not> b7 \<Longrightarrow> byte (Char b0 b1 b2 b3 b4 b5 b6 b7) < 0x80"
  "b5 \<or> b6 \<Longrightarrow> 0x20 \<le> byte (Char b0 b1 b2 b3 b4 b5 b6 b7)"
  by (auto simp: of_char_Char)

lemma if_shortcut: "e = r \<Longrightarrow> (p \<Longrightarrow> e = x) \<Longrightarrow> e = (if p then x else r)"
  by simp

text \<open>Printable ASCII is copied; for evaluation.\<close>

lemma escape_text_code [code]:
  "escape_text [] = []"
  "escape_text (Char b0 b1 b2 b3 b4 b5 b6 b7 # s) =
     (let c = Char b0 b1 b2 b3 b4 b5 b6 b7
      in if \<not> b7 \<and> (b5 \<or> b6) \<and> c \<noteq> quote_mark \<and> c \<noteq> json_backslash \<and> \<not> html_byte c
         then c # escape_text s
         else let n = rune_width (c # s)
           in if n = 0 then (json_backslash # ''ufffd'') @ escape_text s
              else escape_rune (take n (c # s)) @ escape_text (drop n (c # s)))"
proof -
  let ?c = "Char b0 b1 b2 b3 b4 b5 b6 b7"
  show "escape_text [] = []" by (simp add: escape_text.simps [of "[]"])
  have "escape_text (?c # s) =
      (if rune_width (?c # s) = 0 then (json_backslash # ''ufffd'') @ escape_text s
       else escape_rune (take (rune_width (?c # s)) (?c # s)) @ escape_text (drop (rune_width (?c # s)) (?c # s)))"
    by (subst escape_text.simps) (simp only: list.sel list.distinct if_False simp_thms)
  moreover have "escape_text (?c # s) = ?c # escape_text s"
    if "\<not> b7 \<and> (b5 \<or> b6) \<and> ?c \<noteq> quote_mark \<and> ?c \<noteq> json_backslash \<and> \<not> html_byte ?c"
    using that byte_bits by (intro escape_text_plain) blast+
  ultimately show "escape_text (?c # s) =
      (let c = ?c
       in if \<not> b7 \<and> (b5 \<or> b6) \<and> c \<noteq> quote_mark \<and> c \<noteq> json_backslash \<and> \<not> html_byte c
          then c # escape_text s
          else let n = rune_width (c # s)
            in if n = 0 then (json_backslash # ''ufffd'') @ escape_text s
               else escape_rune (take n (c # s)) @ escape_text (drop n (c # s)))"
    unfolding Let_def by (rule if_shortcut)
qed

definition json_string :: "string \<Rightarrow> string" where
  "json_string s = [quote_mark] @ escape_text s @ [quote_mark]"

definition json_member :: "string \<Rightarrow> string \<Rightarrow> string" where
  "json_member key v = json_string key @ '':'' @ json_string v"

text \<open>The tags \<open>podUid\<close>, \<open>podName,omitempty\<close>, \<open>podNamespace,omitempty\<close>, \<open>targetPath\<close>.\<close>

definition hold_members :: "hold \<Rightarrow> (string \<times> string) list" where
  "hold_members h =
     [(''podUid'', PodUID h)] @
     (if PodName h = '''' then [] else [(''podName'', PodName h)]) @
     (if PodNamespace h = '''' then [] else [(''podNamespace'', PodNamespace h)]) @
     [(''targetPath'', Target h)]"

definition json_Marshal :: "hold \<Rightarrow> string" where
  "json_Marshal h =
     ''{'' @ join_with '','' (map (\<lambda>(k, v). json_member k v) (hold_members h)) @ ''}''"

subsection \<open>The syntax of JSON\<close>

datatype json =
    JNull
  | JBool bool
  | JNumber string
  | JString string
  | JArray "json list"
  | JObject "(string \<times> json) list"

definition json_space :: "char \<Rightarrow> bool" where
  "json_space c \<longleftrightarrow> byte c = 32 \<or> byte c = 9 \<or> byte c = 10 \<or> byte c = 13"

definition skip_space :: "string \<Rightarrow> string" where
  "skip_space s = dropWhile json_space s"

definition hex_value :: "char \<Rightarrow> nat option" where
  "hex_value c =
     (if 48 \<le> byte c \<and> byte c \<le> 57 then Some (byte c - 48)
      else if 97 \<le> byte c \<and> byte c \<le> 102 then Some (byte c - 87)
      else if 65 \<le> byte c \<and> byte c \<le> 70 then Some (byte c - 55)
      else None)"

text \<open>The number of an escape \<open>\uXXXX\<close> that a text starts with.\<close>

fun get_u4 :: "string \<Rightarrow> nat option" where
  "get_u4 (b # u # w # x # y # z # s) =
     (if b = json_backslash \<and> u = CHR ''u'' then
        (case (hex_value w, hex_value x, hex_value y, hex_value z) of
           (Some i, Some j, Some k, Some l) \<Rightarrow> Some (4096 * i + 256 * j + 16 * k + l)
         | _ \<Rightarrow> None)
      else None)"
| "get_u4 s = None"

definition simple_escape :: "char \<Rightarrow> char option" where
  "simple_escape c =
     (if c = quote_mark \<or> c = json_backslash \<or> c = CHR ''/'' then Some c
      else if c = CHR ''b'' then Some (CHR 8)
      else if c = CHR ''f'' then Some (CHR 12)
      else if c = CHR ''n'' then Some (CHR 10)
      else if c = CHR ''r'' then Some (CHR 13)
      else if c = CHR ''t'' then Some (CHR 9)
      else None)"

text \<open>
  What the first element of a quoted text stands for, and how many bytes it takes: an escape
  (with the two halves of a surrogate pair as one), a rune, or one byte that is none.
\<close>

definition string_element :: "string \<Rightarrow> (string \<times> nat) option" where
  "string_element s =
     (case s of
        [] \<Rightarrow> None
      | c # t \<Rightarrow>
          if c = json_backslash then
            (case get_u4 s of
               Some r \<Rightarrow>
                 if 0xD800 \<le> r \<and> r < 0xE000 then
                   (case get_u4 (drop 6 s) of
                      Some q \<Rightarrow>
                        if r < 0xDC00 \<and> 0xDC00 \<le> q \<and> q < 0xE000
                        then Some (encode_rune ((r - 0xD800) * 1024 + (q - 0xDC00) + 0x10000), 12)
                        else Some (replacement, 6)
                    | None \<Rightarrow> Some (replacement, 6))
                 else Some (encode_rune r, 6)
             | None \<Rightarrow>
                 (case t of
                    [] \<Rightarrow> None
                  | d # u \<Rightarrow> map_option (\<lambda>e. ([e], 2)) (simple_escape d)))
          else if byte c < 0x20 then None
          else if rune_width s = 0 then Some (replacement, 1)
          else Some (take (rune_width s) s, rune_width s))"

text \<open>The text up to the closing quote, and what follows it.\<close>

function unquote :: "string \<Rightarrow> (string \<times> string) option" where
  "unquote s =
     (if s = [] then None
      else if hd s = quote_mark then Some ([], tl s)
      else case string_element s of
        None \<Rightarrow> None
      | Some (t, n) \<Rightarrow>
          if n = 0 then None
          else map_option (\<lambda>(u, rest). (t @ u, rest)) (unquote (drop n s)))"
  by pat_completeness auto
termination
  by (relation "measure length") auto

declare unquote.simps [simp del]

subsection \<open>A text that is written is read back\<close>

lemma hex_value_digit: "n < 16 \<Longrightarrow> hex_value (hex_digit n) = Some n"
  by (auto simp: hex_value_def hex_digit_def)

lemma hex_value_0: "hex_value (CHR ''0'') = Some 0"
  by (simp add: hex_value_def)

lemma rune_single: "rune_width r = length r \<Longrightarrow> r = [c] \<Longrightarrow> byte c < 0x80"
  by (auto simp: rune_width.simps(2) split: if_splits)

lemma rune_long: "rune_width (c # s) = Suc (length s) \<Longrightarrow> s \<noteq> [] \<Longrightarrow> 0x80 \<le> byte c"
  by (auto simp: rune_width.simps(2) split: if_splits)

lemma get_u4_byte:
  "get_u4 (json_backslash # CHR ''u'' # CHR ''0'' # CHR ''0'' # hex_digit (byte c div 16) #
     hex_digit (byte c mod 16) # t) = Some (byte c)"
proof -
  have "byte c div 16 < (16::nat)"
    by (rule less_mult_imp_div_less) (simp add: nat_of_char_less_256)
  then show ?thesis by (simp add: hex_value_digit hex_value_0)
qed

lemma get_u4_other: "u \<noteq> CHR ''u'' \<Longrightarrow> get_u4 (b # u # s) = None"
  by (cases "b # u # s" rule: get_u4.cases) auto

lemma control_bytes:
  "char_of (8::nat) = CHR 8" "char_of (9::nat) = CHR 9" "char_of (10::nat) = CHR 10"
  "char_of (12::nat) = CHR 12" "char_of (13::nat) = CHR 13"
  by code_simp+

lemma separator_bytes:
  "char_of (226::nat) = CHR 0xE2" "char_of (128::nat) = CHR 0x80"
  "char_of (168::nat) = CHR 0xA8" "char_of (169::nat) = CHR 0xA9"
  by code_simp+

text \<open>Every rune's escape is one element, which stands for the rune.\<close>

lemma string_element_escape1:
  assumes "byte c < (0x80::nat)"
  shows "string_element (escape_rune [c] @ t) = Some ([c], length (escape_rune [c])) \<and>
    escape_rune [c] \<noteq> [] \<and> hd (escape_rune [c]) \<noteq> quote_mark"
proof -
  have ch: "c = char_of n" if "byte c = n" for n :: nat
    using that by auto
  consider (mark) "c = quote_mark \<or> c = json_backslash"
    | (named) "c = char_of (8::nat) \<or> c = char_of (12::nat) \<or> c = char_of (10::nat) \<or>
        c = char_of (13::nat) \<or> c = char_of (9::nat)"
    | (coded) "c \<noteq> quote_mark" "c \<noteq> json_backslash"
        "byte c \<noteq> (8::nat)" "byte c \<noteq> (12::nat)" "byte c \<noteq> (10::nat)" "byte c \<noteq> (13::nat)" "byte c \<noteq> (9::nat)"
        "byte c < (0x20::nat) \<or> html_byte c"
    | (plain) "c \<noteq> quote_mark" "c \<noteq> json_backslash" "\<not> byte c < (0x20::nat)" "\<not> html_byte c"
    using ch [of 8] ch [of 12] ch [of 10] ch [of 13] ch [of 9] by blast
  then show ?thesis
  proof cases
    case mark
    then show ?thesis
      by (auto simp: escape_rune_def string_element_def simple_escape_def quote_mark_def
          json_backslash_def get_u4_other)
  next
    case named
    then show ?thesis
      unfolding control_bytes
      by (elim disjE; hypsubst)
        (simp add: escape_rune_def string_element_def simple_escape_def quote_mark_def
          json_backslash_def get_u4_other)+
  next
    case coded
    then have e: "escape_rune [c] = [json_backslash, CHR ''u'', CHR ''0'', CHR ''0'',
        hex_digit (byte c div 16), hex_digit (byte c mod 16)]"
      by (auto simp: escape_rune_def)
    show ?thesis
      using assms get_u4_byte [of c t]
      by (simp add: e string_element_def encode_rune_def) (simp add: quote_mark_def json_backslash_def)
  next
    case plain
    then have "escape_rune [c] = [c]" by (auto simp: escape_rune_def)
    then show ?thesis
      using plain assms by (simp add: string_element_def rune_width.simps(2))
  qed
qed

lemma string_element_escape:
  assumes "rune_width r = length r" "r \<noteq> []"
  shows "string_element (escape_rune r @ t) = Some (r, length (escape_rune r)) \<and>
    escape_rune r \<noteq> [] \<and> hd (escape_rune r) \<noteq> quote_mark"
proof (cases r)
  case (Cons c s)
  show ?thesis
  proof (cases "s = []")
    case True
    with assms Cons have "byte c < (0x80::nat)" using rune_single [of r c] by simp
    with True Cons show ?thesis using string_element_escape1 by simp
  next
    case False
    then have big: "(0x80::nat) \<le> byte c" using assms Cons rune_long [of c s] by simp
    then have c: "c \<noteq> quote_mark" "c \<noteq> json_backslash"
      by (auto simp: quote_mark_def json_backslash_def)
    show ?thesis
    proof (cases "r = [CHR 0xE2, CHR 0x80, CHR 0xA8] \<or> r = [CHR 0xE2, CHR 0x80, CHR 0xA9]")
      case True
      then show ?thesis
        by (auto simp: escape_rune_def string_element_def hex_value_def encode_rune_def
            json_backslash_def quote_mark_def separator_bytes)
    next
      case neither: False
      then have "escape_rune r = r"
        using False Cons by (auto simp: escape_rune_def split: list.splits)
      moreover have "rune_width (r @ t) = length r"
        using assms rune_width_append [of r t] by simp
      ultimately show ?thesis
        using big c Cons by (auto simp: string_element_def)
    qed
  qed
qed (use assms in simp)

lemma unquote_rune:
  assumes "rune_width r = length r" "r \<noteq> []"
  shows "unquote (escape_rune r @ t) = map_option (\<lambda>(u, rest). (r @ u, rest)) (unquote t)"
  using string_element_escape [OF assms, of t]
  by (subst unquote.simps) (auto simp: neq_Nil_conv)

lemma unquote_escape_text:
  "valid_utf8 s \<Longrightarrow> unquote (escape_text s @ quote_mark # t) = Some (s, t)"
proof (induction s rule: valid_utf8.induct)
  case (1 s)
  show ?case
  proof (cases "s = []")
    case True
    then show ?thesis by (simp add: escape_text.simps unquote.simps)
  next
    case False
    let ?n = "rune_width s"
    from "1.prems" False have n: "?n \<noteq> 0" and v: "valid_utf8 (drop ?n s)"
      by (subst (asm) valid_utf8.simps, auto split: if_splits)+
    let ?r = "take ?n s"
    have r: "rune_width ?r = length ?r" "?r \<noteq> []"
      using rune_width_take [of s ?n "[]"] rune_width_le [of s] n by (auto simp: min_def)
    have "escape_text s = escape_rune ?r @ escape_text (drop ?n s)"
      using False n by (subst escape_text.simps) simp
    then show ?thesis
      using "1.IH" [OF False n v] unquote_rune [OF r] by simp
  qed
qed


subsection \<open>The rest of the syntax\<close>

text \<open>
  A value and what follows it. The first argument is how many objects and arrays may still open:
  \<open>encoding/json\<close> refuses the 10001st. Every call is on a shorter text; the guards on the
  lengths say so, and are never false.
\<close>

definition is_digit :: "char \<Rightarrow> bool" where
  "is_digit c \<longleftrightarrow> 48 \<le> byte c \<and> byte c \<le> 57"

definition digits :: "string \<Rightarrow> (string \<times> string) option" where
  "digits s =
     (if takeWhile is_digit s = [] then None else Some (takeWhile is_digit s, dropWhile is_digit s))"

definition integer_part :: "string \<Rightarrow> (string \<times> string) option" where
  "integer_part s =
     (case s of
        [] \<Rightarrow> None
      | c # t \<Rightarrow> if c = CHR ''0'' then Some ([c], t) else digits s)"

definition fraction_part :: "string \<Rightarrow> (string \<times> string) option" where
  "fraction_part s =
     (case s of
        [] \<Rightarrow> Some ([], [])
      | c # t \<Rightarrow>
          if c = CHR ''.'' then map_option (\<lambda>(d, rest). (c # d, rest)) (digits t) else Some ([], s))"

definition exponent_part :: "string \<Rightarrow> (string \<times> string) option" where
  "exponent_part s =
     (case s of
        [] \<Rightarrow> Some ([], [])
      | c # t \<Rightarrow>
          if c = CHR ''e'' \<or> c = CHR ''E'' then
            (case t of
               [] \<Rightarrow> None
             | g # u \<Rightarrow>
                 if g = CHR ''+'' \<or> g = CHR ''-''
                 then map_option (\<lambda>(d, rest). (c # g # d, rest)) (digits u)
                 else map_option (\<lambda>(d, rest). (c # d, rest)) (digits t))
          else Some ([], s))"

definition number_text :: "string \<Rightarrow> (string \<times> string) option" where
  "number_text s =
     (let (sign, s) = (if s \<noteq> [] \<and> hd s = CHR ''-'' then (''-'', tl s) else ([], s))
      in case integer_part s of
        None \<Rightarrow> None
      | Some (i, s) \<Rightarrow>
          (case fraction_part s of
             None \<Rightarrow> None
           | Some (f, s) \<Rightarrow>
               map_option (\<lambda>(e, rest). (sign @ i @ f @ e, rest)) (exponent_part s)))"

definition json_literal :: "string \<Rightarrow> (json \<times> string) option" where
  "json_literal s =
     (if prefix ''null'' s then Some (JNull, drop 4 s)
      else if prefix ''true'' s then Some (JBool True, drop 4 s)
      else if prefix ''false'' s then Some (JBool False, drop 5 s)
      else map_option (\<lambda>(n, rest). (JNumber n, rest)) (number_text s))"

function (sequential)
  json_value :: "nat \<Rightarrow> string \<Rightarrow> (json \<times> string) option" and
  json_elements :: "nat \<Rightarrow> string \<Rightarrow> (json list \<times> string) option" and
  json_entries :: "nat \<Rightarrow> string \<Rightarrow> ((string \<times> json) list \<times> string) option"
where
  "json_value d s =
     (case s of
        [] \<Rightarrow> None
      | c # t \<Rightarrow>
          if c = quote_mark then map_option (\<lambda>(u, rest). (JString u, rest)) (unquote t)
          else if c = CHR ''{'' then
            (if d = 0 then None
             else let u = skip_space t
               in if u \<noteq> [] \<and> hd u = CHR ''}'' then Some (JObject [], tl u)
                 else if length u < length s
                 then map_option (\<lambda>(es, rest). (JObject es, rest)) (json_entries (d - 1) u)
                 else None)
          else if c = CHR ''['' then
            (if d = 0 then None
             else let u = skip_space t
               in if u \<noteq> [] \<and> hd u = CHR '']'' then Some (JArray [], tl u)
                 else if length u < length s
                 then map_option (\<lambda>(vs, rest). (JArray vs, rest)) (json_elements (d - 1) u)
                 else None)
          else json_literal s)"
| "json_elements d s =
     (case json_value d s of
        None \<Rightarrow> None
      | Some (v, rest) \<Rightarrow>
          (case skip_space rest of
             [] \<Rightarrow> None
           | c # t \<Rightarrow>
               if c = CHR '']'' then Some ([v], t)
               else if c = CHR '','' \<and> length (skip_space t) < length s
               then map_option (\<lambda>(vs, rest). (v # vs, rest)) (json_elements d (skip_space t))
               else None))"
| "json_entries d s =
     (if s = [] \<or> hd s \<noteq> quote_mark then None
      else case unquote (tl s) of
        None \<Rightarrow> None
      | Some (key, rest) \<Rightarrow>
          (case skip_space rest of
             [] \<Rightarrow> None
           | c # t \<Rightarrow>
               if c = CHR '':'' \<and> length (skip_space t) < length s then
                 (case json_value d (skip_space t) of
                    None \<Rightarrow> None
                  | Some (v, rest) \<Rightarrow>
                      (case skip_space rest of
                         [] \<Rightarrow> None
                       | c # t \<Rightarrow>
                           if c = CHR ''}'' then Some ([(key, v)], t)
                           else if c = CHR '','' \<and> length (skip_space t) < length s
                           then map_option (\<lambda>(es, rest). ((key, v) # es, rest))
                             (json_entries d (skip_space t))
                           else None))
               else None))"
  by pat_completeness auto
termination
  by (relation "measures [\<lambda>x. case x of
        Inl (d, s) \<Rightarrow> length s | Inr (Inl (d, s)) \<Rightarrow> length s | Inr (Inr (d, s)) \<Rightarrow> length s,
      \<lambda>x. case x of Inl (d, s) \<Rightarrow> 0 | Inr y \<Rightarrow> 1]") auto

declare json_value.simps [simp del] json_elements.simps [simp del] json_entries.simps [simp del]

definition json_document :: "string \<Rightarrow> json option" where
  "json_document s =
     (case json_value 10000 (skip_space s) of
        None \<Rightarrow> None
      | Some (v, rest) \<Rightarrow> if skip_space rest = [] then Some v else None)"

subsection \<open>json.Unmarshal into a hold\<close>

text \<open>
  A member goes to the field whose tag its key is, or else to the one whose tag it is when
  case is folded; \<open>U+017F\<close> folds to \<open>s\<close> and \<open>U+212A\<close> to \<open>k\<close>. Of two members for a
  field the later one stands, \<open>null\<close> changes nothing, and a member of another type is an
  error of the whole.
\<close>

definition lower_byte :: "char \<Rightarrow> char" where
  "lower_byte c = (if 65 \<le> byte c \<and> byte c \<le> (90::nat) then char_of (byte c + (32::nat)) else c)"

fun fold_name :: "string \<Rightarrow> string" where
  "fold_name [] = []"
| "fold_name (a # s) =
     (if prefix [CHR 0xC5, CHR 0xBF] (a # s) then CHR ''s'' # fold_name (drop 1 s)
      else if prefix [CHR 0xE2, CHR 0x84, CHR 0xAA] (a # s) then CHR ''k'' # fold_name (drop 2 s)
      else lower_byte a # fold_name s)"

definition hold_field :: "string \<Rightarrow> ((string \<Rightarrow> string) \<Rightarrow> hold \<Rightarrow> hold) option" where
  "hold_field key =
     (if fold_name key = ''poduid'' then Some PodUID_update
      else if fold_name key = ''podname'' then Some PodName_update
      else if fold_name key = ''podnamespace'' then Some PodNamespace_update
      else if fold_name key = ''targetpath'' then Some Target_update
      else None)"

fun assign_members :: "(string \<times> json) list \<Rightarrow> hold \<Rightarrow> hold option" where
  "assign_members [] h = Some h"
| "assign_members ((key, v) # es) h =
     (case hold_field key of
        None \<Rightarrow> assign_members es h
      | Some upd \<Rightarrow>
          (case v of
             JString t \<Rightarrow> assign_members es (upd (\<lambda>_. t) h)
           | JNull \<Rightarrow> assign_members es h
           | _ \<Rightarrow> None))"

definition json_Unmarshal :: "string \<Rightarrow> goerror + hold" where
  "json_Unmarshal s =
     (case json_document s of
        Some (JObject es) \<Rightarrow>
          (case assign_members es empty_hold of Some h \<Rightarrow> Inr h | None \<Rightarrow> Inl (JsonError s))
      | Some JNull \<Rightarrow> Inr empty_hold
      | _ \<Rightarrow> Inl (JsonError s))"


subsection \<open>The guards on the lengths are never false\<close>

lemma length_skip_space: "length (skip_space s) \<le> length s"
  by (simp add: skip_space_def length_dropWhile_le)

lemma skip_space_Cons: "skip_space s = c # t \<Longrightarrow> length t < length s"
  using length_skip_space [of s] by simp

lemma unquote_length: "unquote s = Some (u, rest) \<Longrightarrow> length rest < length s"
proof (induction s arbitrary: u rule: unquote.induct)
  case (1 s)
  from "1.prems" show ?case
  proof (cases "hd s = quote_mark")
    case False
    with "1.prems" obtain t n v where e: "string_element s = Some (t, n)" "n \<noteq> 0"
      and v: "unquote (drop n s) = Some (v, rest)" and s: "s \<noteq> []"
      by (subst (asm) unquote.simps) (auto split: if_splits option.splits)
    have "length rest < length (drop n s)"
      by (rule "1.IH" [OF s False e(1) refl e(2) v])
    then show ?thesis by simp
  qed (subst (asm) unquote.simps, auto split: if_splits)
qed

lemma digits_length: "digits s = Some (d, rest) \<Longrightarrow> length rest < length s"
  by (cases s) (auto simp: digits_def le_imp_less_Suc length_dropWhile_le split: if_splits)

lemma number_parts_length:
  "integer_part s = Some (i, rest) \<Longrightarrow> length rest < length s"
  "fraction_part s = Some (f, rest) \<Longrightarrow> length rest \<le> length s"
  "exponent_part s = Some (e, rest) \<Longrightarrow> length rest \<le> length s"
  by (auto simp: integer_part_def fraction_part_def exponent_part_def dest!: digits_length
      split: list.splits if_splits)

lemma number_text_length:
  assumes "number_text s = Some (n, rest)"
  shows "length rest < length s"
proof -
  let ?u = "if s \<noteq> [] \<and> hd s = CHR ''-'' then tl s else s"
  obtain i v f x e where "integer_part ?u = Some (i, v)"
    "fraction_part v = Some (f, x)" "exponent_part x = Some (e, rest)"
    using assms by (auto simp: number_text_def Let_def split: option.splits if_splits prod.splits)
  moreover have "length ?u \<le> length s" by simp
  ultimately show ?thesis using number_parts_length by (meson le_less_trans less_le_trans)
qed

lemma json_literal_length: "json_literal s = Some (v, rest) \<Longrightarrow> length rest < length s"
  by (auto simp: json_literal_def prefix_def dest!: number_text_length split: if_splits)

definition consumes :: "(string \<Rightarrow> ('a \<times> string) option) \<Rightarrow> string \<Rightarrow> bool" where
  "consumes f s \<longleftrightarrow> (\<forall>v rest. f s = Some (v, rest) \<longrightarrow> length rest < length s)"

lemma json_consumes:
  "consumes (json_value d) s \<and> consumes (json_elements d) s \<and> consumes (json_entries d) s"
proof (induction "length s" arbitrary: d s rule: less_induct)
  case less
  show ?case
  proof (cases s)
    case Nil
    then show ?thesis
      by (simp add: consumes_def json_value.simps json_elements.simps json_entries.simps)
  next
    case (Cons c t)
    have vs: "length rest < Suc (length t)"
      if "json_value e u = Some (v, rest)" "length u < Suc (length t)" for e u v rest
      using less [of u e] that Cons by (auto simp: consumes_def)
    have es: "length rest < Suc (length t)"
      if "json_elements e u = Some (v, rest)" "length u < Suc (length t)" for e u v rest
      using less [of u e] that Cons by (auto simp: consumes_def)
    have ms: "length rest < Suc (length t)"
      if "json_entries e u = Some (v, rest)" "length u < Suc (length t)" for e u v rest
      using less [of u e] that Cons by (auto simp: consumes_def)
    have skip: "length (skip_space t) < Suc (length t)"
      using length_skip_space [of t] by simp
    have val: "consumes (json_value d) (c # t)"
      unfolding consumes_def json_value.simps [of d "c # t"]
      using skip
      by (auto split: if_splits dest!: unquote_length json_literal_length
          simp: Let_def intro: vs es ms)
    moreover have "consumes (json_elements d) (c # t)"
      unfolding consumes_def json_elements.simps [of d "c # t"]
      using val
      by (auto split: list.splits if_splits option.splits dest!: skip_space_Cons
          simp: consumes_def intro: es)
    moreover have "consumes (json_entries d) (c # t)"
      unfolding consumes_def json_entries.simps [of d "c # t"]
      by (auto split: list.splits if_splits option.splits dest!: skip_space_Cons intro: ms)
        (meson vs less_trans)+
    ultimately show ?thesis by (simp add: Cons)
  qed
qed

lemma json_lengths:
  "json_value d s = Some (v, rest) \<Longrightarrow> length rest < length s"
  "json_elements d s = Some (vs, rest) \<Longrightarrow> length rest < length s"
  "json_entries d s = Some (es, rest) \<Longrightarrow> length rest < length s"
  using json_consumes [of d s] by (auto simp: consumes_def)

subsection \<open>A hold that is written is read back\<close>

lemma skip_space_id: "s \<noteq> [] \<Longrightarrow> \<not> json_space (hd s) \<Longrightarrow> skip_space s = s"
  by (cases s) (auto simp: skip_space_def)

lemma json_value_string:
  "valid_utf8 s \<Longrightarrow> json_value d (json_string s @ t) = Some (JString s, t)"
  by (subst json_value.simps) (simp add: json_string_def unquote_escape_text)

lemma json_string_start:
  "\<exists>u. json_string s @ t = quote_mark # u"
  by (simp add: json_string_def)

lemma skip_space_json_string [simp]: "skip_space (json_string s @ t) = json_string s @ t"
  by (rule skip_space_id) (simp_all add: json_string_def quote_mark_def json_space_def)

definition members_text :: "(string \<times> string) list \<Rightarrow> string" where
  "members_text ms = join_with '','' (map (\<lambda>(k, v). json_member k v) ms)"

lemma json_member_shape:
  "json_member k v @ t = quote_mark # escape_text k @ quote_mark # CHR '':'' # json_string v @ t"
  by (simp add: json_member_def json_string_def)

lemma json_entries_members:
  assumes "ms \<noteq> []" "\<forall>(k, v) \<in> set ms. valid_utf8 k \<and> valid_utf8 v"
  shows "json_entries d (members_text ms @ CHR ''}'' # t) =
    Some (map (\<lambda>(k, v). (k, JString v)) ms, t)"
  using assms
proof (induction ms)
  case (Cons m ms)
  obtain k v where m: "m = (k, v)" by (cases m)
  have kv: "valid_utf8 k" "valid_utf8 v" using Cons.prems m by auto
  let ?later = "if ms = [] then CHR ''}'' # t else CHR '','' # members_text ms @ CHR ''}'' # t"
  have shape: "members_text (m # ms) @ CHR ''}'' # t =
      quote_mark # escape_text k @ quote_mark # CHR '':'' # json_string v @ ?later"
    by (simp add: members_text_def join_with_Cons m json_member_shape)
  have sp: "skip_space (CHR '':'' # u) = CHR '':'' # u" "skip_space (CHR '','' # u) = CHR '','' # u"
    "skip_space (CHR ''}'' # u) = CHR ''}'' # u" for u
    by (simp_all add: skip_space_def json_space_def)
  show ?case
  proof (cases "ms = []")
    case True
    then show ?thesis
      unfolding shape
      by (subst json_entries.simps)
        (simp add: unquote_escape_text [OF kv(1)] sp json_value_string [OF kv(2)] m)
  next
    case False
    then have start: "skip_space (members_text ms @ CHR ''}'' # t) = members_text ms @ CHR ''}'' # t"
      by (cases ms) (auto simp: members_text_def join_with_Cons json_member_def json_string_def
          skip_space_def json_space_def quote_mark_def)
    have "json_entries d (members_text ms @ CHR ''}'' # t) =
        Some (map (\<lambda>(k, v). (k, JString v)) ms, t)"
      using Cons False by simp
    with False show ?thesis
      unfolding shape
      by (subst json_entries.simps)
        (simp add: unquote_escape_text [OF kv(1)] sp json_value_string [OF kv(2)] start m)
  qed
qed simp

lemma json_Marshal_members: "json_Marshal h = CHR ''{'' # members_text (hold_members h) @ ''}''"
  by (simp add: json_Marshal_def members_text_def)

lemma members_text_start:
  "ms \<noteq> [] \<Longrightarrow> \<exists>u. members_text ms = quote_mark # u"
  by (cases ms) (auto simp: members_text_def join_with_Cons json_member_def json_string_def)

lemma json_document_members:
  assumes "ms \<noteq> []" "\<forall>(k, v) \<in> set ms. valid_utf8 k \<and> valid_utf8 v"
  shows "json_document (CHR ''{'' # members_text ms @ ''}'') =
    Some (JObject (map (\<lambda>(k, v). (k, JString v)) ms))"
proof -
  obtain u where u: "members_text ms = quote_mark # u"
    using members_text_start [OF assms(1)] by blast
  have sp: "skip_space (CHR ''{'' # v) = CHR ''{'' # v" "skip_space (quote_mark # v) = quote_mark # v"
    "skip_space [] = []" for v
    by (simp_all add: skip_space_def json_space_def quote_mark_def)
  have ne: "CHR ''{'' \<noteq> quote_mark" "quote_mark \<noteq> CHR ''}''"
    by (simp_all add: quote_mark_def)
  have "json_value 10000 (CHR ''{'' # quote_mark # u @ ''}'') =
      Some (JObject (map (\<lambda>(k, v). (k, JString v)) ms), [])"
    using json_entries_members [OF assms, of 9999 "[]"]
    by (subst json_value.simps) (simp add: u sp ne)
  then show ?thesis by (simp add: json_document_def sp u)
qed

lemma fold_tags [simp]:
  "fold_name ''podUid'' = ''poduid''" "fold_name ''podName'' = ''podname''"
  "fold_name ''podNamespace'' = ''podnamespace''" "fold_name ''targetPath'' = ''targetpath''"
  by code_simp+

declare fold_name.simps [simp del]

lemma hold_field_tags [simp]:
  "hold_field ''podUid'' = Some PodUID_update" "hold_field ''podName'' = Some PodName_update"
  "hold_field ''podNamespace'' = Some PodNamespace_update"
  "hold_field ''targetPath'' = Some Target_update"
  by (simp_all add: hold_field_def)

lemma assign_members_hold:
  "assign_members (map (\<lambda>(k, v). (k, JString v)) (hold_members h)) empty_hold = Some h"
  by (cases h) (auto simp: hold_members_def empty_hold_def)

definition utf8_hold :: "hold \<Rightarrow> bool" where
  "utf8_hold h \<longleftrightarrow>
     valid_utf8 (PodUID h) \<and> valid_utf8 (PodName h) \<and> valid_utf8 (PodNamespace h) \<and>
     valid_utf8 (Target h)"

lemma hold_members_utf8:
  "utf8_hold h \<Longrightarrow> \<forall>(k, v) \<in> set (hold_members h). valid_utf8 k \<and> valid_utf8 v"
  by (auto simp: hold_members_def utf8_hold_def intro!: valid_utf8_ascii)

lemma hold_members_not_Nil: "hold_members h \<noteq> []"
  by (simp add: hold_members_def)

lemma Unmarshal_Marshal: "utf8_hold h \<Longrightarrow> json_Unmarshal (json_Marshal h) = Inr h"
  using json_document_members [OF hold_members_not_Nil hold_members_utf8]
  by (simp add: json_Unmarshal_def json_Marshal_members assign_members_hold)

text \<open>
  C20. The record of a hold survives its trip to the disk: what \<open>json.Unmarshal\<close> makes of the
  bytes \<open>json.Marshal\<close> wrote is the hold itself, whatever quotes, control characters, HTML
  characters, separators or runes its texts hold, for texts that are valid UTF-8.
\<close>

theorem hold_survives_json: "utf8_hold h \<Longrightarrow> json_Unmarshal (json_Marshal h) = Inr h"
  by (rule Unmarshal_Marshal)

lemma hold_survives_json_witness:
  "json_Unmarshal (json_Marshal \<lparr>PodUID = ''u<1>'', PodName = '''', PodNamespace = [CHR 0xC3, CHR 0xA9],
      Target = [CHR 0x22, CHR 0x5C, CHR 0x0A]\<rparr>) =
    Inr \<lparr>PodUID = ''u<1>'', PodName = '''', PodNamespace = [CHR 0xC3, CHR 0xA9],
      Target = [CHR 0x22, CHR 0x5C, CHR 0x0A]\<rparr>"
  by (rule hold_survives_json) code_simp

end
