(* ===== verification/Metrics.thy ===== *)
theory Metrics
  imports World
begin

section \<open>metrics.go: the readings\<close>

text \<open>
  Every update of a gauge, a histogram or a counter is an effect. What a registry reports after
  a sequence of effects is a function of the sequence: \<open>volumes_gauge\<close>, \<open>copy_gauge\<close>,
  \<open>calls_observed\<close>, \<open>errors_counted\<close>, \<open>restarts_counted\<close> and \<open>mount_failures\<close> are
  the client library's documented reading of each collector. The registry and its handler are in
  the theory \<open>Registry\<close>.
\<close>

text \<open>\<open>float64(i)\<close> of an integer: 53 significant bits, ties to even.\<close>

text \<open>How often a number has to be halved to fit; \<open>0x20000000000000\<close> is \<open>2^53\<close>.\<close>

fun excess_bits :: "nat \<Rightarrow> nat" where
  "excess_bits n = (if int n < 0x20000000000000 then 0 else Suc (excess_bits (n div 2)))"

declare excess_bits.simps [simp del]

definition round_bits :: "nat \<Rightarrow> nat \<Rightarrow> nat" where
  "round_bits n k =
     (if k = 0 then n
      else
        let q = n div 2 ^ k; r = n mod 2 ^ k; half = 2 ^ (k - 1)
        in (if r > half \<or> (r = half \<and> odd q) then q + 1 else q) * 2 ^ k)"

definition float64_of :: "int \<Rightarrow> int" where
  "float64_of i =
     (let n = nat \<bar>i\<bar>; m = int (round_bits n (excess_bits n)) in if i < 0 then - m else m)"

definition record_bytes :: "string \<Rightarrow> int \<Rightarrow> world \<Rightarrow> world" where
  "record_bytes handle bytes = emit (Measured (CopyBytesSet handle (float64_of bytes)))"

definition forget :: "string \<Rightarrow> world \<Rightarrow> world" where
  "forget handle = emit (Measured (CopyBytesDelete handle))"

text \<open>A call's duration is kept in nanoseconds, as \<open>time.Duration\<close> has it.\<close>

definition recordCall :: "string \<Rightarrow> int \<Rightarrow> bool \<Rightarrow> world \<Rightarrow> world" where
  "recordCall kind duration failed w =
     (let w = emit (Measured (ReconcileObserve kind duration)) w
      in if failed then emit (Measured (ReconcileErrorsInc kind)) w else w)"

definition watchRestarted :: "string \<Rightarrow> world \<Rightarrow> world" where
  "watchRestarted kind = emit (Measured (WatchRestartsInc kind))"

definition setVolumes :: "nat \<Rightarrow> world \<Rightarrow> world" where
  "setVolumes n = emit (Measured (VolumesSet (float64_of (int n))))"

definition mountFailed :: "world \<Rightarrow> world" where
  "mountFailed = emit (Measured MountFailuresInc)"

subsection \<open>What the registry reports\<close>

fun volumes_gauge :: "effect list \<Rightarrow> int \<Rightarrow> int" where
  "volumes_gauge [] g = g"
| "volumes_gauge (Measured (VolumesSet n) # es) g = volumes_gauge es n"
| "volumes_gauge (e # es) g = volumes_gauge es g"

fun copy_gauge :: "string \<Rightarrow> effect list \<Rightarrow> int option \<Rightarrow> int option" where
  "copy_gauge h [] g = g"
| "copy_gauge h (Measured (CopyBytesSet h' n) # es) g = copy_gauge h es (if h' = h then Some n else g)"
| "copy_gauge h (Measured (CopyBytesDelete h') # es) g = copy_gauge h es (if h' = h then None else g)"
| "copy_gauge h (e # es) g = copy_gauge h es g"

definition mount_failures :: "effect list \<Rightarrow> nat" where
  "mount_failures es = count_list es (Measured MountFailuresInc)"

definition errors_counted :: "effect list \<Rightarrow> string \<Rightarrow> nat" where
  "errors_counted es kind = count_list es (Measured (ReconcileErrorsInc kind))"

definition restarts_counted :: "effect list \<Rightarrow> string \<Rightarrow> nat" where
  "restarts_counted es kind = count_list es (Measured (WatchRestartsInc kind))"

fun calls_observed :: "effect list \<Rightarrow> string \<Rightarrow> int list" where
  "calls_observed [] kind = []"
| "calls_observed (Measured (ReconcileObserve k d) # es) kind =
     (if k = kind then [d] else []) @ calls_observed es kind"
| "calls_observed (e # es) kind = calls_observed es kind"

subsection \<open>Facts\<close>

lemma round_bits_exact: "n < 2 ^ 53 \<Longrightarrow> round_bits n (excess_bits n) = n"
  by (subst excess_bits.simps) (simp add: round_bits_def)

lemma float64_of_exact: "\<bar>i\<bar> < 2 ^ 53 \<Longrightarrow> float64_of i = i"
proof -
  assume "\<bar>i\<bar> < 2 ^ 53"
  then have "round_bits (nat \<bar>i\<bar>) (excess_bits (nat \<bar>i\<bar>)) = nat \<bar>i\<bar>"
    by (intro round_bits_exact) simp
  then show ?thesis unfolding float64_of_def Let_def by (simp only:) simp
qed

text \<open>The rounding is off by at most half of the last kept bit.\<close>

lemma round_bits_close:
  "2 * \<bar>int (round_bits n k) - int n\<bar> \<le> 2 ^ k"
proof (cases k)
  case (Suc j)
  define q where "q = n div 2 ^ k"
  define r where "r = n mod 2 ^ k"
  define up where "up = (r > 2 ^ j \<or> (r = 2 ^ j \<and> odd q))"
  have "n = q * 2 ^ k + r" unfolding q_def r_def by (rule div_mult_mod_eq [symmetric])
  then have n: "int n = int q * 2 ^ k + int r" by simp
  have "r < 2 ^ k" by (simp add: r_def)
  then have r: "int r < 2 ^ k" by (metis of_nat_less_iff of_nat_numeral of_nat_power)
  have h: "(2::int) ^ k = 2 * 2 ^ j" using Suc by simp
  have "round_bits n k = (if up then q + 1 else q) * 2 ^ k"
    unfolding round_bits_def Let_def up_def q_def r_def using Suc by simp
  then have rb: "int (round_bits n k) = (if up then int q + 1 else int q) * 2 ^ k" by simp
  have "up \<Longrightarrow> 2 ^ j \<le> r" "\<not> up \<Longrightarrow> r \<le> 2 ^ j" by (auto simp: up_def)
  then have "up \<Longrightarrow> 2 ^ j \<le> int r" "\<not> up \<Longrightarrow> int r \<le> 2 ^ j"
    by (metis of_nat_le_iff of_nat_numeral of_nat_power)+
  with n r h rb show ?thesis by (cases up) (simp_all add: algebra_simps)
qed (simp add: round_bits_def)

text \<open>So the relative error of \<open>float64(i)\<close> is at most \<open>2^-53\<close>.\<close>

lemma excess_bits_bound: "excess_bits n \<noteq> 0 \<Longrightarrow> 2 ^ (52 + excess_bits n) \<le> n"
proof (induction n rule: excess_bits.induct)
  case (1 n)
  then have n: "excess_bits n = Suc (excess_bits (n div 2))" "2 ^ 53 \<le> n"
    by (auto simp: excess_bits.simps [of n] split: if_splits)
  show ?case
  proof (cases "excess_bits (n div 2)")
    case (Suc j)
    then have "2 ^ (52 + excess_bits (n div 2)) \<le> n div 2" using 1 n(2) by simp
    then have "2 * 2 ^ (52 + excess_bits (n div 2)) \<le> n" by linarith
    then show ?thesis unfolding n(1) add_Suc_right power_Suc .
  qed (use n in simp)
qed

lemma float64_of_close: "\<bar>float64_of i - i\<bar> * 2 ^ 53 \<le> \<bar>i\<bar>"
proof (cases "excess_bits (nat \<bar>i\<bar>)")
  case 0
  then have "round_bits (nat \<bar>i\<bar>) (excess_bits (nat \<bar>i\<bar>)) = nat \<bar>i\<bar>" by (simp add: round_bits_def)
  then have "float64_of i = i" unfolding float64_of_def Let_def by (simp only:) simp
  then show ?thesis by (simp only:) simp
next
  case (Suc j)
  let ?n = "nat \<bar>i\<bar>"
  let ?m = "int (round_bits ?n (excess_bits ?n))"
  have "2 ^ (53 + j) \<le> ?n" using excess_bits_bound [of ?n] Suc by simp
  then have n: "2 ^ 53 * 2 ^ j \<le> \<bar>i\<bar>" by (simp add: power_add nat_le_eq_zle le_nat_iff)
  have "2 * \<bar>?m - \<bar>i\<bar>\<bar> \<le> 2 * 2 ^ j" using round_bits_close [of ?n "excess_bits ?n"] Suc by simp
  then have "\<bar>float64_of i - i\<bar> \<le> 2 ^ j" by (auto simp: float64_of_def Let_def)
  then have "\<bar>float64_of i - i\<bar> * 2 ^ 53 \<le> 2 ^ j * 2 ^ 53" by (rule mult_right_mono) simp
  also have "\<dots> \<le> \<bar>i\<bar>" using n unfolding mult.commute [of "2 ^ 53"] .
  finally show ?thesis .
qed

text \<open>Effects only grow, and an update of a reading changes nothing else.\<close>

definition only_effects :: "world \<Rightarrow> world \<Rightarrow> bool" where
  "only_effects w w' \<longleftrightarrow>
     tree w' = tree w \<and> mtab w' = mtab w \<and> faults w' = faults w \<and> api_answers w' = api_answers w \<and>
     umask w' = umask w \<and> clock w' = clock w"

lemma only_effects_refl [simp, intro]: "only_effects w w"
  by (simp add: only_effects_def)

lemma only_effects_emit [simp]: "only_effects w (emit e w') \<longleftrightarrow> only_effects w w'"
  by (simp add: only_effects_def)

lemma only_effects_trans: "only_effects w w' \<Longrightarrow> only_effects w' w'' \<Longrightarrow> only_effects w w''"
  by (simp add: only_effects_def)

lemma only_effectsD:
  assumes "only_effects w w'"
  shows "tree w' = tree w" "mtab w' = mtab w" "faults w' = faults w" "api_answers w' = api_answers w"
    "umask w' = umask w" "clock w' = clock w" "fs w' = fs w" "dir_at w' = dir_at w"
    "wf_tree w' = wf_tree w" "healthy w' = healthy w" "mounted_at w' = mounted_at w"
  using assms fs_cong [of w' w] dir_at_cong [of w' w] wf_tree_cong [of w' w]
  by (auto simp: only_effects_def healthy_def mounted_at_def fun_eq_iff)

lemma metrics_only_effects [simp]:
  "only_effects w (record_bytes h b w)" "only_effects w (forget h w)"
  "only_effects w (recordCall k d f w)" "only_effects w (watchRestarted k w)"
  "only_effects w (setVolumes n w)" "only_effects w (mountFailed w)"
  by (simp_all add: record_bytes_def forget_def recordCall_def watchRestarted_def setVolumes_def
      mountFailed_def Let_def)

lemma metrics_effects [simp]:
  "effects (record_bytes h b w) = effects w @ [Measured (CopyBytesSet h (float64_of b))]"
  "effects (forget h w) = effects w @ [Measured (CopyBytesDelete h)]"
  "effects (watchRestarted k w) = effects w @ [Measured (WatchRestartsInc k)]"
  "effects (setVolumes n w) = effects w @ [Measured (VolumesSet (float64_of (int n)))]"
  "effects (mountFailed w) = effects w @ [Measured MountFailuresInc]"
  by (simp_all add: record_bytes_def forget_def watchRestarted_def setVolumes_def mountFailed_def)

lemma volumes_gauge_append [simp]:
  "volumes_gauge (es @ es') g = volumes_gauge es' (volumes_gauge es g)"
  by (induction es g rule: volumes_gauge.induct) auto

lemma copy_gauge_append [simp]:
  "copy_gauge h (es @ es') g = copy_gauge h es' (copy_gauge h es g)"
  by (induction h es g rule: copy_gauge.induct) auto

lemma calls_observed_append [simp]:
  "calls_observed (es @ es') kind = calls_observed es kind @ calls_observed es' kind"
  by (induction es kind rule: calls_observed.induct) auto

lemma mount_failures_append [simp]:
  "mount_failures (es @ es') = mount_failures es + mount_failures es'"
  by (simp add: mount_failures_def)

lemma mount_failures_Cons [simp]:
  "mount_failures (e # es) = (if e = Measured MountFailuresInc then 1 else 0) + mount_failures es"
  "mount_failures [] = 0"
  by (simp_all add: mount_failures_def)

lemma errors_counted_append [simp]:
  "errors_counted (es @ es') kind = errors_counted es kind + errors_counted es' kind"
  by (simp add: errors_counted_def)

end
