(* ===== verification/Events.thy ===== *)
theory Events
  imports Metrics
begin

section \<open>events.go: Events on the pod\<close>

text \<open>
  The pod of a request's volume context, the Event that is made of a refusal, and its posting.
  The API server's answer to a creation comes from the world; a creation that is refused is
  logged and changes nothing else.
\<close>

definition driverName :: string where
  "driverName = ''per-node.liken.sh''"

definition reasonRefused :: string where "reasonRefused = ''PerNodeVolumeRefused''"
definition reasonHeld :: string where "reasonHeld = ''PerNodeVolumeHeld''"
definition reasonMountFailed :: string where "reasonMountFailed = ''PerNodeMountFailed''"

definition EventTypeWarning :: string where
  "EventTypeWarning = ''Warning''"

record podReference =
  name :: string
  namespace :: string
  uid :: string

definition podNameKey :: string where "podNameKey = ''csi.storage.k8s.io/pod.name''"
definition podNamespaceKey :: string where "podNamespaceKey = ''csi.storage.k8s.io/pod.namespace''"
definition podUIDKey :: string where "podUIDKey = ''csi.storage.k8s.io/pod.uid''"

text \<open>A Go map answers an absent key with the empty string.\<close>

definition map_get :: "(string \<times> string) list \<Rightarrow> string \<Rightarrow> string" where
  "map_get m k = (case map_of m k of Some v \<Rightarrow> v | None \<Rightarrow> '''')"

definition podOf :: "(string \<times> string) list \<Rightarrow> podReference" where
  "podOf context =
     \<lparr>name = map_get context podNameKey, namespace = map_get context podNamespaceKey,
      uid = map_get context podUIDKey\<rparr>"

text \<open>The client of the cluster's API is there or not; there is nothing else to know of it.\<close>

record events =
  client :: bool
  events_node :: string

text \<open>
  \<open>load\<close> and \<open>new_client\<close> are \<open>rest.InClusterConfig\<close> and \<open>kubernetes.NewForConfig\<close>, as
  their answers: an error or a configuration, an error or none.
\<close>

definition eventsFrom ::
  "string \<Rightarrow> string + 'config \<Rightarrow> ('config \<Rightarrow> string option) \<Rightarrow> world \<Rightarrow> events \<times> world" where
  "eventsFrom node_id load new_client w =
     (let posting = \<lparr>client = False, events_node = node_id\<rparr>
      in case load of
        Inl err \<Rightarrow> (posting, emit (Logged LogWarn ''no events'' [(''reason'', Err (TextError err))]) w)
      | Inr config \<Rightarrow>
          (case new_client config of
             Some err \<Rightarrow>
               (posting, emit (Logged LogWarn ''no events'' [(''reason'', Err (TextError err))]) w)
           | None \<Rightarrow> (posting\<lparr>client := True\<rparr>, w)))"

definition event_for :: "events \<Rightarrow> podReference \<Rightarrow> string \<Rightarrow> string \<Rightarrow> message \<Rightarrow> int \<Rightarrow> kube_event" where
  "event_for e pod kind rsn msg now =
     (let involved = \<lparr>ref_kind = ''Pod'', ref_apiVersion = ''v1'', ref_name = name pod,
        ref_namespace = namespace pod, ref_uid = uid pod\<rparr>
      in \<lparr>generateName = ref_name involved @ ''.'', event_namespace = ref_namespace involved,
          involvedObject = involved, reason = rsn, event_message = msg, event_type = kind,
          source_component = driverName, source_host = events_node e,
          firstTimestamp = now, lastTimestamp = now, event_count = 1\<rparr>)"

definition create_event :: "kube_event \<Rightarrow> world \<Rightarrow> string option \<times> world" where
  "create_event event w =
     (case api_answers w of
        Some err # later \<Rightarrow> (Some err, w\<lparr>api_answers := later\<rparr>)
      | None # later \<Rightarrow> (None, emit (Posted event) (w\<lparr>api_answers := later\<rparr>))
      | [] \<Rightarrow> (None, emit (Posted event) w))"

definition post :: "events \<Rightarrow> podReference \<Rightarrow> string \<Rightarrow> string \<Rightarrow> message \<Rightarrow> world \<Rightarrow> world" where
  "post e pod kind rsn msg w =
     (if \<not> client e \<or> name pod = '''' \<or> namespace pod = '''' then w
      else case create_event (event_for e pod kind rsn msg (clock w)) w of
        (Some err, w) \<Rightarrow>
          emit (Logged LogWarn ''the event was not posted''
            [(''pod'', Str (namespace pod @ ''/'' @ name pod)), (''reason'', Str rsn),
             (''error'', Err (TextError err))]) w
      | (None, w) \<Rightarrow> w)"

subsection \<open>Facts\<close>

fun posted :: "effect list \<Rightarrow> kube_event list" where
  "posted [] = []"
| "posted (Posted e # es) = e # posted es"
| "posted (e # es) = posted es"

lemma posted_append [simp]: "posted (es @ es') = posted es @ posted es'"
  by (induction es rule: posted.induct) auto

text \<open>Posting touches nothing of the node: an Event or a log line, and an answer used up.\<close>

lemma post_frame:
  "tree (post e pod kind rsn msg w) = tree w" "mtab (post e pod kind rsn msg w) = mtab w"
  "faults (post e pod kind rsn msg w) = faults w" "umask (post e pod kind rsn msg w) = umask w"
  "clock (post e pod kind rsn msg w) = clock w"
  by (auto simp: post_def create_event_def split: list.splits option.splits)

lemma post_fs [simp]:
  "fs (post e pod kind rsn msg w) = fs w" "mounted_at (post e pod kind rsn msg w) = mounted_at w"
  "healthy (post e pod kind rsn msg w) = healthy w" "wf_tree (post e pod kind rsn msg w) = wf_tree w"
  using post_frame(1,2,3) [of e pod kind rsn msg w]
  by (auto simp: mounted_at_def healthy_def fun_eq_iff dest: fs_cong wf_tree_cong)

definition api_accepts :: "world \<Rightarrow> bool" where
  "api_accepts w \<longleftrightarrow> (case api_answers w of Some err # later \<Rightarrow> False | _ \<Rightarrow> True)"

lemma post_posted:
  "posted (effects (post e pod kind rsn msg w)) =
     posted (effects w) @
       (if client e \<and> name pod \<noteq> '''' \<and> namespace pod \<noteq> '''' \<and> api_accepts w
        then [event_for e pod kind rsn msg (clock w)] else [])"
  by (auto simp: post_def create_event_def api_accepts_def split: list.splits option.splits)

lemma post_volumes_gauge [simp]:
  "volumes_gauge (effects (post e pod kind rsn msg w)) g = volumes_gauge (effects w) g"
  by (auto simp: post_def create_event_def split: list.splits option.splits)

lemma post_mount_failures [simp]:
  "mount_failures (effects (post e pod kind rsn msg w)) = mount_failures (effects w)"
  by (auto simp: post_def create_event_def mount_failures_def split: list.splits option.splits)

end
