(* ===== verification/Node.thy ===== *)
theory Node
  imports Store Bind_Mount Mountinfo Hold_Json Events
begin

section \<open>node.go and holds.go: the Node service\<close>

text \<open>
  The Node service's state is the record \<open>node\<close>: its configuration, the calls it makes through
  fields (\<open>mounts\<close>, \<open>mounted\<close>, \<open>space\<close>), and \<open>holds\<close>, the one map that says which pod
  holds which handle. Each handler takes the node, the request and the world and returns its
  answer (\<open>Inl\<close> a status that is not OK, or \<open>Inr\<close> the response), the node and the world.
  The mutex guards single accesses to \<open>holds\<close>; a handler here runs from its start to its end,
  which is how the kubelet calls the driver for one volume.
\<close>

record node =
  nodeID :: string
  node_store :: store
  mounts :: "world mountSyscalls"
  node_events :: events
  mounted :: "string \<Rightarrow> world \<Rightarrow> bool \<times> world"
  mountinfo :: string
  space :: "string \<Rightarrow> world \<Rightarrow> (goerror + int64 \<times> int64) \<times> world"
  holds :: "(string \<times> hold) list"

text \<open>
  The kernel's calls are the parameters: \<open>kernelMounts{}\<close> is \<open>calls\<close>, the mount table's lines
  are \<open>row\<close>, and \<open>spaceOf\<close> calls \<open>statfs\<close>.
\<close>

definition newNode ::
  "world mountSyscalls \<Rightarrow> (mount_entry \<Rightarrow> string) \<Rightarrow> statfs_call \<Rightarrow> string \<Rightarrow> string \<Rightarrow> events \<Rightarrow> node"
where
  "newNode calls row statfs node_id store_root posting =
     \<lparr>nodeID = node_id, node_store = newStore store_root, mounts = calls, node_events = posting,
      mounted = mountedNow row mountTable, mountinfo = mountTable, space = spaceOf statfs,
      holds = []\<rparr>"

subsection \<open>holds.go: the holds\<close>

definition holder :: "node \<Rightarrow> string \<Rightarrow> hold option" where
  "holder n handle = map_of (holds n) handle"

definition heldHandles :: "node \<Rightarrow> string list" where
  "heldHandles n = map fst (holds n)"

definition reportVolumes :: "node \<Rightarrow> world \<Rightarrow> world" where
  "reportVolumes n w = setVolumes (length (holds n)) w"

definition mkdir_and_write :: "string \<Rightarrow> string \<Rightarrow> world \<Rightarrow> goerror option \<times> world" where
  "mkdir_and_write path content w =
     (case os_MkdirAll (filepath_Dir path) 0x1ED w of
        (Some err, w) \<Rightarrow> (Some err, w)
      | (None, w) \<Rightarrow> os_WriteFile path content 0x180 w)"

definition keepHold :: "node \<Rightarrow> string \<Rightarrow> hold \<Rightarrow> world \<Rightarrow> node \<times> world" where
  "keepHold n handle taken w =
     (let n = n\<lparr>holds := AList.update handle taken (holds n)\<rparr>;
          w = reportVolumes n w;
          path = holdPath (node_store n) handle
      in case mkdir_and_write path (json_Marshal taken) w of
        (Some err, w) \<Rightarrow>
          (n, emit (Logged LogWarn ''the hold was not written''
                [(''volume'', Str handle), (''error'', Err err)]) w)
      | (None, w) \<Rightarrow> (n, w))"

definition dropHold :: "node \<Rightarrow> string \<Rightarrow> world \<Rightarrow> node \<times> world" where
  "dropHold n handle w =
     (let n = n\<lparr>holds := AList.delete handle (holds n)\<rparr>;
          w = reportVolumes n w
      in case os_Remove (holdPath (node_store n) handle) w of
        (Some err, w) \<Rightarrow>
          if os_IsNotExist err then (n, w)
          else (n, emit (Logged LogWarn ''the hold was not removed''
                [(''volume'', Str handle), (''error'', Err err)]) w)
      | (None, w) \<Rightarrow> (n, w))"

definition readHold :: "string \<Rightarrow> world \<Rightarrow> (goerror + hold) \<times> world" where
  "readHold path w =
     (case os_ReadFile path w of
        (Inl err, w) \<Rightarrow> (Inl err, w)
      | (Inr content, w) \<Rightarrow> (json_Unmarshal content, w))"

definition resume_entry :: "string \<Rightarrow> node \<Rightarrow> world \<Rightarrow> node \<times> world" where
  "resume_entry handle n w =
     (case readHold (holdPath (node_store n) handle) w of
        (Inl err, w) \<Rightarrow>
          dropHold n handle (emit (Logged LogWarn ''the hold was not read''
            [(''volume'', Str handle), (''error'', Err err)]) w)
      | (Inr taken, w) \<Rightarrow>
          (case mounted n (Target taken) w of
             (False, w) \<Rightarrow>
               dropHold n handle (emit (Logged LogInfo ''the hold was given up while the plugin was down''
                 [(''volume'', Str handle), (''target'', Str (Target taken))]) w)
           | (True, w) \<Rightarrow> (n\<lparr>holds := AList.update handle taken (holds n)\<rparr>, w)))"

fun resume_entries :: "string list \<Rightarrow> node \<Rightarrow> world \<Rightarrow> node \<times> world" where
  "resume_entries [] n w = (n, w)"
| "resume_entries (handle # entries) n w =
     (case resume_entry handle n w of (n, w) \<Rightarrow> resume_entries entries n w)"

definition resume :: "node \<Rightarrow> world \<Rightarrow> node \<times> world" where
  "resume n w =
     (case os_ReadDir (filepath_Join [root (node_store n), holdsDirectory]) w of
        (Inl err, w) \<Rightarrow> (n, w)
      | (Inr entries, w) \<Rightarrow>
          (case resume_entries entries n w of (n, w) \<Rightarrow> (n, reportVolumes n w)))"

subsection \<open>node.go: the calls of the kubelet\<close>

datatype capability_type = RPC_GET_VOLUME_STATS | RPC_SINGLE_NODE_MULTI_WRITER

definition NodeGetInfo :: "node \<Rightarrow> status + string" where
  "NodeGetInfo n = Inr (nodeID n)"

definition NodeGetCapabilities :: "node \<Rightarrow> status + capability_type list" where
  "NodeGetCapabilities n = Inr [RPC_GET_VOLUME_STATS, RPC_SINGLE_NODE_MULTI_WRITER]"

record NodePublishVolumeRequest =
  publish_VolumeId :: string
  publish_TargetPath :: string
  publish_VolumeContext :: "(string \<times> string) list"
  publish_Readonly :: bool

record NodeUnpublishVolumeRequest =
  unpublish_VolumeId :: string
  unpublish_TargetPath :: string

record NodeGetVolumeStatsRequest =
  stats_VolumeId :: string
  stats_VolumePath :: string

record VolumeUsage =
  Used :: int64
  Available :: int64
  Total :: int64

definition internal :: "goerror \<Rightarrow> status" where
  "internal err = status_Error Internal [Lit (error_text err)]"

definition no_target :: status where
  "no_target = status_Error InvalidArgument [Lit ''target_path: the call names no path'']"

definition no_volume :: status where
  "no_volume = status_Error InvalidArgument [Lit ''volume_id: the call names no volume'']"

definition node_mount ::
  "node \<Rightarrow> NodePublishVolumeRequest \<Rightarrow> string \<Rightarrow> string \<Rightarrow> world \<Rightarrow> status option \<times> world" where
  "node_mount n request handle target w =
     (case makeCopy (node_store n) handle w of
        (Some err, w) \<Rightarrow> (Some (internal err), w)
      | (None, w) \<Rightarrow>
          (case os_MkdirAll target 0x1ED w of
             (Some err, w) \<Rightarrow> (Some (internal err), w)
           | (None, w) \<Rightarrow>
               (case unbind (mounts n) target w of
                  (Some err, w) \<Rightarrow> (Some (internal err), w)
                | (None, w) \<Rightarrow>
                    (case bind_mount (mounts n) (copyPath (node_store n) handle) target
                        (publish_Readonly request) w of
                       (Some err, w) \<Rightarrow> (Some (internal err), w)
                     | (None, w) \<Rightarrow> (None, w)))))"

definition held_by :: "node \<Rightarrow> string \<Rightarrow> hold \<Rightarrow> status" where
  "held_by n handle standing =
     status_Error FailedPrecondition
       [Lit (''volume_id: '' @ handle @ '' is held on '' @ nodeID n @ '' by pod '' @
         PodNamespace standing @ ''/'' @ PodName standing)]"

definition hold_for :: "podReference \<Rightarrow> string \<Rightarrow> hold" where
  "hold_for pod target =
     \<lparr>PodUID = uid pod, PodName = name pod, PodNamespace = namespace pod, Target = target\<rparr>"

definition NodePublishVolume ::
  "node \<Rightarrow> NodePublishVolumeRequest \<Rightarrow> world \<Rightarrow> (status + unit) \<times> node \<times> world" where
  "NodePublishVolume n request w =
     (let handle = publish_VolumeId request;
          target = publish_TargetPath request;
          pod = podOf (publish_VolumeContext request);
          refuse = (\<lambda>rsn err w.
            (Inl err, n, post (node_events n) pod EventTypeWarning rsn (message err) w))
      in case checkHandle handle of
        Some err \<Rightarrow> refuse reasonRefused err w
      | None \<Rightarrow>
          if target = '''' then (Inl no_target, n, w)
          else
            let standing = holder n handle;
                mount_and_hold = (\<lambda>w.
                  case node_mount n request handle target w of
                    (Some err, w) \<Rightarrow> refuse reasonMountFailed err (mountFailed w)
                  | (None, w) \<Rightarrow>
                      (case keepHold n handle (hold_for pod target) w of
                         (n, w) \<Rightarrow>
                           (Inr (), n, emit (Logged LogInfo ''published''
                              [(''volume'', Str handle), (''target'', Str target)]) w)))
            in case standing of
              None \<Rightarrow> mount_and_hold w
            | Some standing \<Rightarrow>
                if PodUID standing \<noteq> uid pod then refuse reasonHeld (held_by n handle standing) w
                else if Target standing = target then (Inr (), n, w)
                else mount_and_hold w)"

definition NodeUnpublishVolume ::
  "node \<Rightarrow> NodeUnpublishVolumeRequest \<Rightarrow> world \<Rightarrow> (status + unit) \<times> node \<times> world" where
  "NodeUnpublishVolume n request w =
     (let handle = unpublish_VolumeId request;
          target = unpublish_TargetPath request
      in if handle = '''' then (Inl no_volume, n, w)
        else if target = '''' then (Inl no_target, n, w)
        else case unbind (mounts n) target w of
          (Some err, w) \<Rightarrow> (Inl (internal err), n, w)
        | (None, w) \<Rightarrow>
            (case os_Remove target w of
               (removed, w) \<Rightarrow>
                 if (case removed of Some err \<Rightarrow> \<not> os_IsNotExist err | None \<Rightarrow> False)
                 then (Inl (internal (the removed)), n, w)
                 else
                   let release = (\<lambda>w.
                     case dropHold n handle w of
                       (n, w) \<Rightarrow>
                         (Inr (), n, emit (Logged LogInfo ''unpublished'' [(''volume'', Str handle)])
                            (forget handle w)))
                   in case holder n handle of
                     None \<Rightarrow> release w
                   | Some standing \<Rightarrow>
                       if Target standing \<noteq> target then
                         (Inr (), n, emit (Logged LogInfo ''unpublished a target the hold does not name''
                            [(''volume'', Str handle), (''target'', Str target),
                             (''held'', Str (Target standing))]) w)
                       else release w))"

definition NodeGetVolumeStats ::
  "node \<Rightarrow> NodeGetVolumeStatsRequest \<Rightarrow> world \<Rightarrow> (status + VolumeUsage) \<times> world" where
  "NodeGetVolumeStats n request w =
     (let handle = stats_VolumeId request
      in if handle = '''' then (Inl no_volume, w)
        else if stats_VolumePath request = '''' then
          (Inl (status_Error InvalidArgument [Lit ''volume_path: the call names no path'']), w)
        else case copySize (copyPath (node_store n) handle) w of
          ((used, Some err), w) \<Rightarrow>
            (Inl (status_Error NotFound
               [Lit (''volume_id: '' @ handle @ '' has no copy on '' @ nodeID n @ '': '' @ error_text err)]), w)
        | ((used, None), w) \<Rightarrow>
            (case space n (root (node_store n)) w of
               (Inl err, w) \<Rightarrow> (Inl (internal err), w)
             | (Inr (available, all), w) \<Rightarrow>
                 (Inr \<lparr>Used = used, Available = available, Total = all\<rparr>,
                  record_bytes handle (sint used) w)))"

definition NodeExpandVolume :: "node \<Rightarrow> status + unit" where
  "NodeExpandVolume n =
     Inl (status_Error Unimplemented [Lit ''NodeExpandVolume: a copy has no size of its own''])"

end
