(* ===== verification/Node_Facts.thy ===== *)
theory Node_Facts
  imports Node
begin

section \<open>What the Node service's operations do\<close>

text \<open>
  The frames and the effects of the operations of \<open>holds.go\<close> and \<open>node.go\<close> that the
  properties rest on: what keeping and dropping a hold write, what a mount attempt leaves behind
  on every path, and what a restart takes back.
\<close>

subsection \<open>A world later on\<close>

definition onward :: "world \<Rightarrow> world \<Rightarrow> bool" where
  "onward w w' \<longleftrightarrow> suffix (faults w') (faults w) \<and> umask w' = umask w \<and> clock w' = clock w"

lemma onward_refl [simp, intro]: "onward w w"
  by (simp add: onward_def)

lemma onward_trans [trans]: "onward w w' \<Longrightarrow> onward w' w'' \<Longrightarrow> onward w w''"
  by (auto simp: onward_def intro: suffix_order.trans)

lemma onwardD:
  assumes "onward w w'"
  shows "healthy w \<Longrightarrow> healthy w'" "honest w \<Longrightarrow> honest w'" "umask w' = umask w" "clock w' = clock w"
  using assms by (auto simp: onward_def healthy_def honest_def suffix_def)

lemma onward_only_fs: "only_fs w w' \<Longrightarrow> onward w w'"
  by (simp add: onward_def only_fs_def)

lemma onward_only_mtab: "only_mtab w w' \<Longrightarrow> onward w w'"
  by (simp add: onward_def only_mtab_def)

lemma onward_only_effects: "only_effects w w' \<Longrightarrow> onward w w'"
  by (simp add: onward_def only_effects_def)

lemma onward_reads: "reads w w' \<Longrightarrow> onward w w'"
  by (simp add: reads_def onward_only_fs)

lemma onward_post: "onward w (post e pod kind rsn msg w)"
  by (simp add: onward_def post_frame)

lemma onward_emit [simp]: "onward w (emit e w') \<longleftrightarrow> onward w w'"
  by (simp add: onward_def)

lemmas onwards = onward_only_fs onward_only_mtab onward_only_effects onward_reads onward_post

subsection \<open>Keeping a hold\<close>

lemma locate_holdPath_Dir:
  assumes "plain_name h"
  shows "locate (filepath_Dir (holdPath s h)) = holds_place s"
proof -
  obtain t where "holdPath s h = t @ slash # h"
    using Join_ends [OF plain_directories(2) assms, of "root s"] by (auto simp: holdPath_def)
  then show ?thesis
    using locate_Dir [OF assms, of t] locate_holdPath [OF assms, of s] by (simp add: hold_place_def)
qed

lemma mkdir_and_write_facts:
  assumes "mkdir_and_write (holdPath s h) content w = (r, w')" "plain_name h"
  shows "only_fs w w'" "wf_tree w \<Longrightarrow> wf_tree w'"
    "\<not> prefix q (hold_place s h) \<Longrightarrow> fs w' q = fs w q"
    "q \<noteq> hold_place s h \<Longrightarrow> fs w q \<noteq> None \<Longrightarrow> fs w' q = fs w q"
    "q \<noteq> hold_place s h \<Longrightarrow> fs w' q \<noteq> fs w q \<Longrightarrow> dir_at w' q"
    "r = None \<Longrightarrow> \<exists>d. fs w' (hold_place s h) = Some (Reg d content)"
    "dir_at w q \<Longrightarrow> dir_at w' q"
proof -
  let ?p = "hold_place s h"
  obtain e w1 where m: "os_MkdirAll (filepath_Dir (holdPath s h)) 0x1ED w = (e, w1)" by fastforce
  note M = os_MkdirAll_facts [OF m, unfolded locate_holdPath_Dir [OF assms(2)]]
  have g: "only_fs w w1"
    "\<And>q. fs w1 q = fs w q \<or> (fs w q = None \<and> fs w1 q = Some (Dir (0x1ED AND NOT (umask w))) \<and> prefix q (holds_place s))"
    using M(1) by (auto simp: grows_to_def)
  have up: "\<And>q. prefix q (holds_place s) \<Longrightarrow> prefix q ?p"
    by (simp add: hold_place_def)
  have "only_fs w w' \<and> (wf_tree w \<longrightarrow> wf_tree w') \<and> (\<forall>q. q \<noteq> ?p \<longrightarrow> fs w' q = fs w1 q) \<and>
      (\<not> prefix ?p (holds_place s)) \<and> (dir_at w1 ?p \<longrightarrow> dir_at w' ?p) \<and>
      (r = None \<longrightarrow> (\<exists>d. fs w' ?p = Some (Reg d content)))"
  proof (cases e)
    case None
    with assms(1) m have wr: "os_WriteFile (holdPath s h) content 0x180 w1 = (r, w')"
      by (simp add: mkdir_and_write_def)
    note W = os_WriteFile_facts [OF wr, unfolded locate_holdPath [OF assms(2)]]
    have d: "dir_at w1 ?p \<longrightarrow> dir_at w' ?p"
      using os_WriteFile_dir(1) [OF wr] by (auto simp: locate_holdPath [OF assms(2)] dir_at_iff)
    from W(1-4) g(1) M(2) d show ?thesis
      by (auto simp: hold_place_def intro: only_fs_trans)
  next
    case (Some x)
    with assms(1) m g(1) M(2) show ?thesis by (auto simp: mkdir_and_write_def hold_place_def)
  qed
  note N = this
  then show "only_fs w w'" "wf_tree w \<Longrightarrow> wf_tree w'"
    "r = None \<Longrightarrow> \<exists>d. fs w' ?p = Some (Reg d content)" by auto
  have q: "q \<noteq> ?p \<Longrightarrow> fs w' q = fs w1 q" using N by auto
  show "fs w' q = fs w q" if "\<not> prefix q ?p"
    using that q g(2) [of q] up [of q] by auto
  show "fs w' q = fs w q" if "q \<noteq> ?p" "fs w q \<noteq> None"
    using that q g(2) [of q] by auto
  show "dir_at w' q" if "q \<noteq> ?p" "fs w' q \<noteq> fs w q"
    using that q g(2) [of q] by (auto simp: dir_at_iff)
  show "dir_at w' q" if "dir_at w q"
    using that q g(2) [of q] N by (cases "q = ?p") (auto simp: dir_at_iff)
qed

lemma reportVolumes_only_effects [simp]: "only_effects w (reportVolumes n w)"
  by (simp add: reportVolumes_def)

lemma reportVolumes_effects [simp]:
  "effects (reportVolumes n w) = effects w @ [Measured (VolumesSet (float64_of (int (length (holds n)))))]"
  by (simp add: reportVolumes_def)

lemma reportVolumes_fields [simp]:
  "fs (reportVolumes n w) = fs w" "mtab (reportVolumes n w) = mtab w"
  "wf_tree (reportVolumes n w) = wf_tree w" "healthy (reportVolumes n w) = healthy w"
  "dir_at (reportVolumes n w) = dir_at w" "mounted_at (reportVolumes n w) = mounted_at w"
  using only_effectsD [OF reportVolumes_only_effects [of w n]] by auto

lemma keepHold_facts:
  assumes "keepHold n h k w = (n', w')" "plain_name h"
  shows "n' = n\<lparr>holds := AList.update h k (holds n)\<rparr>" "onward w w'" "mtab w' = mtab w"
    "wf_tree w \<Longrightarrow> wf_tree w'"
    "\<not> prefix q (hold_place (node_store n) h) \<Longrightarrow> fs w' q = fs w q"
    "q \<noteq> hold_place (node_store n) h \<Longrightarrow> fs w q \<noteq> None \<Longrightarrow> fs w' q = fs w q"
    "q \<noteq> hold_place (node_store n) h \<Longrightarrow> fs w' q \<noteq> fs w q \<Longrightarrow> dir_at w' q"
    "volumes_gauge (effects w') g = float64_of (int (length (holds n')))"
    "mount_failures (effects w') = mount_failures (effects w)"
    "posted (effects w') = posted (effects w)"
    "dir_at w q \<Longrightarrow> dir_at w' q"
proof -
  let ?n = "n\<lparr>holds := AList.update h k (holds n)\<rparr>"
  obtain r w1 where m: "mkdir_and_write (holdPath (node_store n) h) (json_Marshal k)
      (reportVolumes ?n w) = (r, w1)" by fastforce
  note M = mkdir_and_write_facts [OF m assms(2)]
  have w': "n' = ?n" "w' = w1 \<or> (\<exists>m a. w' = emit (Logged LogWarn m a) w1)"
    using assms(1) m by (auto simp: keepHold_def Let_def split: option.splits)
  have fs: "fs w' = fs w1" "mtab w' = mtab w1" "wf_tree w' = wf_tree w1" "dir_at w' = dir_at w1"
    using w'(2) by (auto simp: dir_at_def fun_eq_iff)
  show "n' = ?n" by (rule w'(1))
  show "onward w w'"
    using w'(2) onward_trans [OF onward_only_effects [OF reportVolumes_only_effects [of w ?n]]
      onward_only_fs [OF M(1)]] by auto
  show "mtab w' = mtab w" using M(1) fs(2) by (simp add: only_fs_def)
  show "wf_tree w \<Longrightarrow> wf_tree w'" using M(2) fs(3) by simp
  show "\<not> prefix q (hold_place (node_store n) h) \<Longrightarrow> fs w' q = fs w q" using M(3) fs by simp
  show "q \<noteq> hold_place (node_store n) h \<Longrightarrow> fs w q \<noteq> None \<Longrightarrow> fs w' q = fs w q"
    using M(4) fs by simp
  show "q \<noteq> hold_place (node_store n) h \<Longrightarrow> fs w' q \<noteq> fs w q \<Longrightarrow> dir_at w' q"
    using M(5) fs by simp
  show "dir_at w q \<Longrightarrow> dir_at w' q" using M(7) fs by simp
  have "effects w1 = effects w @ [Measured (VolumesSet (float64_of (int (length (holds ?n)))))]"
    using M(1) by (simp add: only_fs_def)
  with w' show "volumes_gauge (effects w') g = float64_of (int (length (holds n')))"
    "mount_failures (effects w') = mount_failures (effects w)"
    "posted (effects w') = posted (effects w)"
    by (auto simp: mount_failures_def)
qed

subsection \<open>Dropping a hold\<close>

text \<open>
  Dropping takes the handle out of the map and at most one place out of the tree, the one that
  the handle's hold path names.
\<close>

lemma dropHold_facts:
  assumes "dropHold n h w = (n', w')"
  shows "n' = n\<lparr>holds := AList.delete h (holds n)\<rparr>" "onward w w'" "mtab w' = mtab w"
    "wf_tree w \<Longrightarrow> wf_tree w'"
    "q \<noteq> locate (holdPath (node_store n) h) \<Longrightarrow> fs w' q = fs w q"
    "fs w' q = fs w q \<or> fs w' q = None"
    "volumes_gauge (effects w') g = float64_of (int (length (holds n')))"
    "mount_failures (effects w') = mount_failures (effects w)"
    "posted (effects w') = posted (effects w)"
proof -
  let ?n = "n\<lparr>holds := AList.delete h (holds n)\<rparr>"
  let ?p = "locate (holdPath (node_store n) h)"
  obtain r w1 where m: "os_Remove (holdPath (node_store n) h) (reportVolumes ?n w) = (r, w1)"
    by fastforce
  have o: "only_fs (reportVolumes ?n w) w1" using os_Remove_only_fs [OF m] .
  have t: "fs w1 = (fs w)(?p := None) \<or> fs w1 = fs w"
    using m by (cases r) (auto dest!: os_Remove_None os_Remove_Some dest: fs_cong)
  have w': "n' = ?n" "w' = w1 \<or> (\<exists>m a. w' = emit (Logged LogWarn m a) w1)"
    using assms m by (auto simp: dropHold_def Let_def split: option.splits if_splits)
  have fs: "fs w' = fs w1" "mtab w' = mtab w1" "wf_tree w' = wf_tree w1"
    using w'(2) by auto
  show "n' = ?n" by (rule w'(1))
  show "onward w w'"
    using w'(2) onward_trans [OF onward_only_effects [OF reportVolumes_only_effects [of w ?n]]
      onward_only_fs [OF o]] by auto
  show "mtab w' = mtab w" using o fs(2) by (simp add: only_fs_def)
  show "wf_tree w \<Longrightarrow> wf_tree w'" using os_Remove_wf [OF _ m] fs(3) by simp
  show "q \<noteq> ?p \<Longrightarrow> fs w' q = fs w q" "fs w' q = fs w q \<or> fs w' q = None"
    using t by (auto simp: fs(1) split: if_splits)
  have "effects w1 = effects w @ [Measured (VolumesSet (float64_of (int (length (holds ?n)))))]"
    using o by (simp add: only_fs_def)
  with w' show "volumes_gauge (effects w') g = float64_of (int (length (holds n')))"
    "mount_failures (effects w') = mount_failures (effects w)"
    "posted (effects w') = posted (effects w)"
    by (auto simp: mount_failures_def)
qed

subsection \<open>A mount attempt\<close>

text \<open>
  What a mount attempt may do to the tree, on every path: it makes directories, it sets the mode
  of the handle's copy, and it changes nothing else. A file or directory that was there stays.
\<close>

definition only_makes_dirs :: "path \<Rightarrow> world \<Rightarrow> world \<Rightarrow> bool" where
  "only_makes_dirs p w w' \<longleftrightarrow>
     (\<forall>q. fs w' q = fs w q \<or> (fs w q = None \<and> dir_at w' q) \<or> (q = p \<and> dir_at w q \<and> dir_at w' q))"

lemma only_makes_dirs_refl [simp, intro]: "only_makes_dirs p w w"
  by (simp add: only_makes_dirs_def)

lemma only_makes_dirs_cong: "fs w1 = fs w1' \<Longrightarrow> only_makes_dirs p w w1 = only_makes_dirs p w w1'"
  by (simp add: only_makes_dirs_def dir_at_def)

lemma only_makes_dirs_trans:
  assumes "only_makes_dirs p w w1" "only_makes_dirs p w1 w2"
  shows "only_makes_dirs p w w2"
  unfolding only_makes_dirs_def
proof
  fix q
  show "fs w2 q = fs w q \<or> (fs w q = None \<and> dir_at w2 q) \<or> (q = p \<and> dir_at w q \<and> dir_at w2 q)"
    using assms [unfolded only_makes_dirs_def, THEN spec, of q]
    by (auto simp: dir_at_iff) 
qed

lemma only_makes_dirs_dir_at: "only_makes_dirs p w w' \<Longrightarrow> dir_at w q \<Longrightarrow> dir_at w' q"
  by (auto simp: only_makes_dirs_def dir_at_iff) (metis option.distinct(1))+

lemma grows_only_makes_dirs: "grows_to r m w w' \<Longrightarrow> only_makes_dirs p w w'"
  unfolding grows_to_def only_makes_dirs_def dir_at_iff by metis

lemma makeCopy_only_makes_dirs:
  assumes "makeCopy s h w = (r, w')" "plain_name h"
  shows "only_makes_dirs (copy_place s h) w w'"
proof -
  let ?p = "copy_place s h"
  obtain e w1 where m: "os_MkdirAll (copyPath s h) copyMode w = (e, w1)" by fastforce
  have d1: "only_makes_dirs ?p w w1" using os_MkdirAll_facts(1) [OF m] by (rule grows_only_makes_dirs)
  show ?thesis
  proof (cases e)
    case None
    with assms(1) m have ch: "os_Chmod (copyPath s h) copyMode w1 = (r, w')"
      by (simp add: makeCopy_def Let_def)
    have d: "dir_at w1 ?p"
      using os_MkdirAll_facts(3) [OF m None] by (simp add: locate_copyPath [OF assms(2)])
    have "only_makes_dirs ?p w1 w'"
    proof (cases r)
      case None
      with ch have "os_Chmod (copyPath s h) copyMode w1 = (None, w')" by simp
      from os_Chmod_None [OF this] d show ?thesis
        by (auto simp: only_makes_dirs_def locate_copyPath [OF assms(2)] dir_at_iff split: if_splits)
    next
      case (Some x)
      with ch os_Chmod_Some have "fs w' = fs w1" by (blast dest: fs_cong)
      then show ?thesis by (simp add: only_makes_dirs_def)
    qed
    with d1 show ?thesis by (rule only_makes_dirs_trans)
  qed (use assms(1) m d1 in \<open>auto simp: makeCopy_def Let_def\<close>)
qed

text \<open>The stages of a mount attempt, for a kernel that behaves as documented.\<close>

lemma node_mount_facts:
  assumes "node_mount n request h target w = (r, w')" "plain_name h" "bind_kernel (mounts n)"
  shows "onward w w'" "wf_tree w \<Longrightarrow> wf_tree w'" "effects w' = effects w"
    "only_makes_dirs (copy_place (node_store n) h) w w'"
    "\<not> prefix q (copy_place (node_store n) h) \<Longrightarrow> \<not> prefix q (locate target) \<Longrightarrow> fs w' q = fs w q"
    "r \<noteq> None \<Longrightarrow> code (the r) = Internal"
proof -
  let ?p = "copy_place (node_store n) h"
  obtain r1 w1 where 1: "makeCopy (node_store n) h w = (r1, w1)" by fastforce
  obtain r2 w2 where 2: "os_MkdirAll target 0x1ED w1 = (r2, w2)" by fastforce
  obtain r3 w3 where 3: "unbind (mounts n) target w2 = (r3, w3)" by fastforce
  obtain r4 w4 where 4: "bind_mount (mounts n) (copyPath (node_store n) h) target
      (publish_Readonly request) w3 = (r4, w4)" by fastforce
  have w': "w' = w1 \<or> w' = w2 \<or> w' = w3 \<or> w' = w4" "r \<noteq> None \<Longrightarrow> code (the r) = Internal"
    using assms(1) 1 2 3 4
    by (auto simp: node_mount_def internal_def split: option.splits)
  note M1 = makeCopy_facts [OF 1 assms(2)]
  note M2 = os_MkdirAll_facts [OF 2]
  have f2: "only_fs w1 w2" using M2(1) by (simp add: grows_to_def)
  have m3: "only_mtab w2 w3" and m4: "only_mtab w3 w4"
    using bind_kernel.unbind_frame [OF assms(3) 3] bind_kernel.bind_mount_frame [OF assms(3) 4] .
  have o: "onward w w1" "onward w1 w2" "onward w2 w3" "onward w3 w4"
    using M1(1) f2 m3 m4 by (auto intro: onwards)
  then show "onward w w'" using w' by (blast intro: onward_trans)
  have fs: "fs w3 = fs w2" "fs w4 = fs w2" "wf_tree w3 = wf_tree w2" "wf_tree w4 = wf_tree w2"
    "effects w3 = effects w2" "effects w4 = effects w2"
    using only_mtabD [OF m3] only_mtabD [OF m4] by auto
  show "wf_tree w'" if "wf_tree w"
    using M1(2) [OF that] M2(2) w' fs by auto
  show "effects w' = effects w"
    using M1(1) f2 w' fs by (auto simp: only_fs_def)
  have d1: "only_makes_dirs ?p w w1" using makeCopy_only_makes_dirs [OF 1 assms(2)] .
  have d2: "only_makes_dirs ?p w1 w2" using M2(1) by (rule grows_only_makes_dirs)
  have d: "only_makes_dirs ?p w w2" using d1 d2 by (rule only_makes_dirs_trans)
  show "only_makes_dirs ?p w w'"
    using d1 d w' fs only_makes_dirs_cong by metis
  show "fs w' q = fs w q" if "\<not> prefix q ?p" "\<not> prefix q (locate target)"
  proof -
    have "fs w1 q = fs w q" using M1(3) [OF that(1)] .
    moreover have "fs w2 q = fs w1 q" using M2(1) that(2) unfolding grows_to_def by metis
    ultimately show ?thesis using w' fs by auto
  qed
  show "r \<noteq> None \<Longrightarrow> code (the r) = Internal" using w'(2) .
qed

lemma node_mount_api:
  assumes "node_mount n request h target w = (r, w')" "plain_name h" "bind_kernel (mounts n)"
  shows "api_answers w' = api_answers w"
proof -
  obtain r1 w1 where 1: "makeCopy (node_store n) h w = (r1, w1)" by fastforce
  obtain r2 w2 where 2: "os_MkdirAll target 0x1ED w1 = (r2, w2)" by fastforce
  obtain r3 w3 where 3: "unbind (mounts n) target w2 = (r3, w3)" by fastforce
  obtain r4 w4 where 4: "bind_mount (mounts n) (copyPath (node_store n) h) target
      (publish_Readonly request) w3 = (r4, w4)" by fastforce
  have "w' = w1 \<or> w' = w2 \<or> w' = w3 \<or> w' = w4"
    using assms(1) 1 2 3 4 by (auto simp: node_mount_def split: option.splits)
  then show ?thesis
    using only_fsD(2) [OF makeCopy_facts(1) [OF 1 assms(2)]] os_MkdirAll_facts(1) [OF 2]
      only_mtabD(8) [OF bind_kernel.unbind_frame [OF assms(3) 3]]
      only_mtabD(8) [OF bind_kernel.bind_mount_frame [OF assms(3) 4]]
    by (auto simp: grows_to_def only_fs_def)
qed

text \<open>The mount table after an attempt.\<close>

lemma node_mount_done:
  assumes "node_mount n request h target w = (None, w')" "plain_name h" "bind_kernel (mounts n)"
  shows "mtab w' = \<lparr>mnt_point = locate target, mnt_source = copy_place (node_store n) h,
        mnt_ro = publish_Readonly request\<rparr> #
      (if mounted_at w (locate target) then detach (locate target) (mtab w) else mtab w)"
    "dir_at w' (locate target)"
    "fs w' (copy_place (node_store n) h) = Some (Dir copyMode)"
proof -
  let ?p = "copy_place (node_store n) h"
  obtain w1 w2 w3 where 1: "makeCopy (node_store n) h w = (None, w1)"
    and 2: "os_MkdirAll target 0x1ED w1 = (None, w2)"
    and 3: "unbind (mounts n) target w2 = (None, w3)"
    and 4: "bind_mount (mounts n) (copyPath (node_store n) h) target (publish_Readonly request) w3
        = (None, w')"
    using assms(1) by (auto simp: node_mount_def split: prod.splits option.splits)
  note M1 = makeCopy_facts [OF 1 assms(2)]
  note M2 = os_MkdirAll_facts [OF 2]
  have m: "mtab w2 = mtab w" using M1(1) M2(1) by (simp add: only_fs_def grows_to_def)
  then show "mtab w' = \<lparr>mnt_point = locate target, mnt_source = ?p, mnt_ro = publish_Readonly request\<rparr> #
      (if mounted_at w (locate target) then detach (locate target) (mtab w) else mtab w)"
    using bind_kernel.bind_mount_done [OF assms(3) 4] bind_kernel.unbind_done [OF assms(3) 3]
    by (simp add: mounted_at_def locate_copyPath [OF assms(2)])
  have fs: "fs w' = fs w2" "dir_at w' = dir_at w2"
    using only_mtabD [OF bind_kernel.unbind_frame [OF assms(3) 3]]
      only_mtabD [OF bind_kernel.bind_mount_frame [OF assms(3) 4]] by auto
  show "dir_at w' (locate target)" using M2(3) fs by simp
  have c1: "fs w1 ?p = Some (Dir copyMode)" using M1(5) by simp
  then show "fs w' ?p = Some (Dir copyMode)"
    using M2(1) c1 fs unfolding grows_to_def by (metis option.distinct(1))
qed

lemma node_mount_failed:
  assumes "node_mount n request h target w = (Some e, w')" "plain_name h" "bind_kernel (mounts n)"
  defines "cleared \<equiv> (if mounted_at w (locate target) then detach (locate target) (mtab w) else mtab w)"
  shows "mtab w' = mtab w \<or> mtab w' = cleared \<or>
    (mtab w' = push_mount (locate target) (copy_place (node_store n) h) cleared \<and>
      publish_Readonly request \<and> \<not> detaching_kernel (mounts n))"
proof -
  let ?src = "copyPath (node_store n) h"
  obtain r1 w1 where 1: "makeCopy (node_store n) h w = (r1, w1)" by fastforce
  obtain r2 w2 where 2: "os_MkdirAll target 0x1ED w1 = (r2, w2)" by fastforce
  obtain r3 w3 where 3: "unbind (mounts n) target w2 = (r3, w3)" by fastforce
  obtain r4 w4 where 4: "bind_mount (mounts n) ?src target (publish_Readonly request) w3 = (r4, w4)"
    by fastforce
  have m: "mtab w1 = mtab w" "mtab w2 = mtab w"
    using makeCopy_facts(1) [OF 1 assms(2)] os_MkdirAll_facts(1) [OF 2]
    by (simp_all add: only_fs_def grows_to_def)
  have m3: "r3 = None \<Longrightarrow> mtab w3 = cleared" "r3 \<noteq> None \<Longrightarrow> mtab w3 = mtab w"
    using bind_kernel.unbind_done [OF assms(3), of target w2 w3]
      bind_kernel.unbind_refused [OF assms(3), of target w2 _ w3] 3 m
    by (auto simp: cleared_def mounted_at_def)
  consider "w' = w1" | "w' = w2" | "r3 \<noteq> None" "w' = w3"
    | "r3 = None" "r4 \<noteq> None" "w' = w4"
    using assms(1) 1 2 3 4 by (auto simp: node_mount_def split: option.splits)
  then show ?thesis
  proof cases
    case 4
    then obtain e4 where b: "bind_mount (mounts n) ?src target (publish_Readonly request) w3 = (Some e4, w')"
      using \<open>bind_mount _ _ _ _ _ = _\<close> by auto
    show ?thesis
    proof (cases "publish_Readonly request \<and> \<not> detaching_kernel (mounts n)")
      case True
      then have "bindReadOnly (mounts n) ?src target w3 = (Some e4, w')"
        using b by (simp add: bind_mount_def)
      from bind_kernel.bindReadOnly_refused [OF assms(3) this] show ?thesis
        using True m3(1) [OF 4(1)] by (auto simp: locate_copyPath [OF assms(2)])
    next
      case False
      have "mtab w' = mtab w3"
      proof (cases "publish_Readonly request")
        case True
        with False have "detaching_kernel (mounts n)" by simp
        from detaching_kernel.bind_mount_refused [OF this b] show ?thesis .
      next
        case False
        then have "bindReadWrite (mounts n) ?src target w3 = (Some e4, w')"
          using b by (simp add: bind_mount_def)
        from bind_kernel.bindReadWrite_refused [OF assms(3) this] show ?thesis .
      qed
      with m3(1) [OF 4(1)] show ?thesis by simp
    qed
  qed (use m m3 in auto)
qed

subsection \<open>Where nothing is refused\<close>

text \<open>A place that can be made: every place on its way is free or a directory.\<close>

definition clear_way :: "world \<Rightarrow> path \<Rightarrow> bool" where
  "clear_way w p \<longleftrightarrow> \<not> name_too_long p \<and> list_all (\<lambda>q. fs w q = None \<or> dir_at w q) (prefixes p)"

lemma clear_way_fewer:
  assumes "\<And>q. fs w' q = fs w q \<or> fs w' q = None" "clear_way w p"
  shows "clear_way w' p"
proof -
  have "fs w' q = None \<or> dir_at w' q" if "fs w q = None \<or> dir_at w q" for q
    using that assms(1) [of q] by (auto simp: dir_at_def)
  then show ?thesis using assms(2) by (auto simp: clear_way_def list_all_iff)
qed

lemma clear_way_only_makes_dirs:
  assumes m: "only_makes_dirs r w w'" and "clear_way w p"
  shows "clear_way w' p"
proof -
  have "fs w' q = None \<or> dir_at w' q" if "fs w q = None \<or> dir_at w q" for q
    using that only_makes_dirs_dir_at [OF m, of q] m [unfolded only_makes_dirs_def, THEN spec, of q]
    by auto
  with assms(2) show ?thesis by (auto simp: clear_way_def list_all_iff)
qed

lemma clear_way_cong: "fs w = fs w' \<Longrightarrow> clear_way w = clear_way w'"
  by (simp add: clear_way_def dir_at_def fun_eq_iff)

lemma os_MkdirAll_healthy:
  assumes "healthy w" "wf_tree w" "s \<noteq> ''''" "clear_way w (locate s)"
  shows "\<exists>w'. os_MkdirAll s m w = (None, w') \<and> healthy w'"
  using mkdir_all_healthy [of w "rev (locate s)" m] assms
  by (simp add: os_MkdirAll_def clear_way_def list_all_iff)

lemma makeCopy_healthy:
  assumes "healthy w" "wf_tree w" "plain_name h" "clear_way w (copy_place s h)"
  shows "\<exists>w'. makeCopy s h w = (None, w') \<and> healthy w'"
proof -
  obtain w1 where m: "os_MkdirAll (copyPath s h) copyMode w = (None, w1)" and h1: "healthy w1"
    using os_MkdirAll_healthy [of w "copyPath s h" copyMode] assms copyPath_not_Nil [OF assms(3), of s]
    by (auto simp: locate_copyPath [OF assms(3)])
  have "dir_at w1 (locate (copyPath s h))" using os_MkdirAll_facts(3) [OF m] by simp
  then obtain w2 where "os_Chmod (copyPath s h) copyMode w1 = (None, w2)" "healthy w2"
    using os_Chmod_healthy [OF h1, of "copyPath s h" copyMode] by (auto simp: dir_at_iff)
  then show ?thesis using m by (simp add: makeCopy_def Let_def)
qed

lemma node_mount_healthy:
  assumes "answering_kernel (mounts n)" "healthy w" "wf_tree w" "plain_name h" "target \<noteq> ''''"
    and "clear_way w (copy_place (node_store n) h)" "clear_way w (locate target)"
  shows "\<exists>w'. node_mount n request h target w = (None, w') \<and> healthy w'"
proof -
  let ?s = "node_store n"
  obtain w1 where 1: "makeCopy ?s h w = (None, w1)" and h1: "healthy w1"
    using makeCopy_healthy [OF assms(2-4,6)] by blast
  have wf1: "wf_tree w1" using makeCopy_facts(2) [OF 1 assms(4)] assms(3) .
  have "clear_way w1 (locate target)"
    using makeCopy_only_makes_dirs [OF 1 assms(4)] assms(7) by (rule clear_way_only_makes_dirs)
  then obtain w2 where 2: "os_MkdirAll target 0x1ED w1 = (None, w2)" and h2: "healthy w2"
    using os_MkdirAll_healthy [OF h1 wf1 assms(5)] by blast
  obtain w3 where 3: "unbind (mounts n) target w2 = (None, w3)" and h3: "healthy w3"
    using answering_kernel.unbind_healthy [OF assms(1) h2] by blast
  have bk: "bind_kernel (mounts n)" using assms(1) by (simp add: answering_kernel_def)
  note f3 = only_mtabD [OF bind_kernel.unbind_frame [OF bk 3]]
  have "fs w1 (copy_place ?s h) = Some (Dir copyMode)" using makeCopy_facts(5) [OF 1 assms(4)] by simp
  then have "fs w3 (locate (copyPath ?s h)) \<noteq> None"
    using os_MkdirAll_facts(1) [OF 2] f3(2)
    unfolding grows_to_def locate_copyPath [OF assms(4)] by (metis option.distinct(1))
  moreover have "fs w3 (locate target) \<noteq> None"
    using os_MkdirAll_facts(3) [OF 2] f3(2) by (auto simp: dir_at_iff)
  ultimately obtain w4 where
    "bind_mount (mounts n) (copyPath ?s h) target (publish_Readonly request) w3 = (None, w4)" "healthy w4"
    using answering_kernel.bind_mount_healthy [OF assms(1) h3] by blast
  then show ?thesis using 1 2 3 by (simp add: node_mount_def)
qed

lemma mkdir_and_write_healthy:
  assumes "healthy w" "wf_tree w" "plain_name h" "clear_way w (holds_place s)"
    and "length h \<le> 255" "\<not> dir_at w (hold_place s h)" "\<And>m. fs w (hold_place s h) \<noteq> Some (Special m)"
  shows "\<exists>w'. mkdir_and_write (holdPath s h) content w = (None, w') \<and> healthy w'"
proof -
  let ?d = "filepath_Dir (holdPath s h)"
  note D = locate_holdPath_Dir [OF assms(3), of s]
  have ne: "?d \<noteq> ''''" using D by (auto simp: holds_place_def locate_def)
  obtain w1 where m: "os_MkdirAll ?d 0x1ED w = (None, w1)" and h1: "healthy w1"
    using os_MkdirAll_healthy [OF assms(1,2) ne] assms(4) D by auto
  have dir: "dir_at w1 (holds_place s)" using os_MkdirAll_facts(3) [OF m] D by simp
  have same: "fs w1 (hold_place s h) = fs w (hold_place s h)"
    using os_MkdirAll_facts(1) [OF m] D by (auto simp: grows_to_def hold_place_def)
  have free: "fs w1 (hold_place s h) = None \<or> (\<exists>d old. fs w1 (hold_place s h) = Some (Reg d old))"
  proof (cases "fs w (hold_place s h)")
    case (Some i)
    with assms(6,7) same show ?thesis by (cases i) (auto simp: dir_at_iff)
  qed (simp add: same)
  have short: "\<not> name_too_long (hold_place s h)"
    using assms(4,5) by (auto simp: clear_way_def name_too_long_def hold_place_def)
  have "\<exists>w'. os_WriteFile (holdPath s h) content 0x180 w1 = (None, w') \<and> healthy w'"
    using os_WriteFile_healthy [OF h1, of "holdPath s h" content "0x180"] short dir free
    by (auto simp: locate_holdPath [OF assms(3)] hold_place_def)
  then show ?thesis using m by (simp add: mkdir_and_write_def)
qed

lemma keepHold_healthy:
  assumes "healthy w" "wf_tree w" "plain_name h" "clear_way w (holds_place (node_store n))"
    and "length h \<le> 255" "\<not> dir_at w (hold_place (node_store n) h)"
    and "\<And>m. fs w (hold_place (node_store n) h) \<noteq> Some (Special m)"
    and call: "keepHold n h k w = (n', w')"
  shows "\<exists>d. fs w' (hold_place (node_store n) h) = Some (Reg d (json_Marshal k))"
proof -
  let ?n = "n\<lparr>holds := AList.update h k (holds n)\<rparr>"
  obtain w1 where m: "mkdir_and_write (holdPath (node_store n) h) (json_Marshal k) (reportVolumes ?n w)
      = (None, w1)"
    using mkdir_and_write_healthy [of "reportVolumes ?n w" h "node_store n" "json_Marshal k"] assms(1-7)
      clear_way_cong [of "reportVolumes ?n w" w] by auto
  have "w' = w1" using call m by (simp add: keepHold_def Let_def)
  then show ?thesis using mkdir_and_write_facts(6) [OF m assms(3)] by simp
qed

end
