(* ===== verification/Node_Service.thy ===== *)
theory Node_Service
  imports Node_Facts
begin

section \<open>The handlers of the Node service\<close>

text \<open>
  The branches of each handler as equations, and the properties of the handlers: what a publish
  and an unpublish do to the holds, the mount table, the tree and the readings on every path.
\<close>

subsection \<open>The branches of a publish\<close>

lemma publish_bad_handle:
  "checkHandle (publish_VolumeId r) = Some err \<Longrightarrow>
     NodePublishVolume n r w =
       (Inl err, n, post (node_events n) (podOf (publish_VolumeContext r)) EventTypeWarning
          reasonRefused (message err) w)"
  by (simp add: NodePublishVolume_def Let_def)

lemma publish_no_target:
  "checkHandle (publish_VolumeId r) = None \<Longrightarrow> publish_TargetPath r = '''' \<Longrightarrow>
     NodePublishVolume n r w = (Inl no_target, n, w)"
  by (simp add: NodePublishVolume_def Let_def)

lemma publish_held:
  "checkHandle (publish_VolumeId r) = None \<Longrightarrow> publish_TargetPath r \<noteq> '''' \<Longrightarrow>
     holder n (publish_VolumeId r) = Some k \<Longrightarrow> PodUID k \<noteq> uid (podOf (publish_VolumeContext r)) \<Longrightarrow>
     NodePublishVolume n r w =
       (Inl (held_by n (publish_VolumeId r) k), n,
        post (node_events n) (podOf (publish_VolumeContext r)) EventTypeWarning reasonHeld
          (message (held_by n (publish_VolumeId r) k)) w)"
  by (simp add: NodePublishVolume_def Let_def)

lemma publish_repeated:
  "checkHandle (publish_VolumeId r) = None \<Longrightarrow> publish_TargetPath r \<noteq> '''' \<Longrightarrow>
     holder n (publish_VolumeId r) = Some k \<Longrightarrow> PodUID k = uid (podOf (publish_VolumeContext r)) \<Longrightarrow>
     Target k = publish_TargetPath r \<Longrightarrow> NodePublishVolume n r w = (Inr (), n, w)"
  by (simp add: NodePublishVolume_def Let_def)

definition may_mount :: "node \<Rightarrow> NodePublishVolumeRequest \<Rightarrow> bool" where
  "may_mount n r \<longleftrightarrow>
     checkHandle (publish_VolumeId r) = None \<and> publish_TargetPath r \<noteq> '''' \<and>
     (case holder n (publish_VolumeId r) of
        None \<Rightarrow> True
      | Some k \<Rightarrow>
          PodUID k = uid (podOf (publish_VolumeContext r)) \<and> Target k \<noteq> publish_TargetPath r)"

lemma publish_mount_failed:
  assumes "may_mount n r"
    "node_mount n r (publish_VolumeId r) (publish_TargetPath r) w = (Some err, w1)"
  shows "NodePublishVolume n r w =
    (Inl err, n, post (node_events n) (podOf (publish_VolumeContext r)) EventTypeWarning
       reasonMountFailed (message err) (mountFailed w1))"
  using assms by (auto simp: NodePublishVolume_def Let_def may_mount_def split: option.splits)

lemma publish_mounted:
  assumes "may_mount n r"
    "node_mount n r (publish_VolumeId r) (publish_TargetPath r) w = (None, w1)"
    "keepHold n (publish_VolumeId r) (hold_for (podOf (publish_VolumeContext r)) (publish_TargetPath r)) w1
       = (n2, w2)"
  shows "NodePublishVolume n r w =
    (Inr (), n2, emit (Logged LogInfo ''published''
       [(''volume'', Str (publish_VolumeId r)), (''target'', Str (publish_TargetPath r))]) w2)"
  using assms by (auto simp: NodePublishVolume_def Let_def may_mount_def split: option.splits)

lemma publish_cases:
  obtains (bad_handle) err where "checkHandle (publish_VolumeId r) = Some err"
  | (no_target) "checkHandle (publish_VolumeId r) = None" "publish_TargetPath r = ''''"
  | (held) k where "checkHandle (publish_VolumeId r) = None" "publish_TargetPath r \<noteq> ''''"
      "holder n (publish_VolumeId r) = Some k" "PodUID k \<noteq> uid (podOf (publish_VolumeContext r))"
  | (repeated) k where "checkHandle (publish_VolumeId r) = None" "publish_TargetPath r \<noteq> ''''"
      "holder n (publish_VolumeId r) = Some k" "PodUID k = uid (podOf (publish_VolumeContext r))"
      "Target k = publish_TargetPath r"
  | (failed) err w1 where "may_mount n r"
      "node_mount n r (publish_VolumeId r) (publish_TargetPath r) w = (Some err, w1)"
  | (mounted) w1 n2 w2 where "may_mount n r"
      "node_mount n r (publish_VolumeId r) (publish_TargetPath r) w = (None, w1)"
      "keepHold n (publish_VolumeId r) (hold_for (podOf (publish_VolumeContext r)) (publish_TargetPath r)) w1
         = (n2, w2)"
proof -
  obtain e w1 where m: "node_mount n r (publish_VolumeId r) (publish_TargetPath r) w = (e, w1)"
    by fastforce
  obtain n2 w2 where k: "keepHold n (publish_VolumeId r)
      (hold_for (podOf (publish_VolumeContext r)) (publish_TargetPath r)) w1 = (n2, w2)" by fastforce
  show thesis
  proof (cases "may_mount n r")
    case True
    show thesis
    proof (cases e)
      case None
      with True m k mounted show thesis by blast
    next
      case (Some err)
      with True m failed show thesis by blast
    qed
  next
    case False
    show thesis
    proof (cases "checkHandle (publish_VolumeId r)")
      case None
      show thesis
      proof (cases "publish_TargetPath r = ''''")
        case True
        with None no_target show thesis by blast
      next
        case target: False
        with False None obtain k where "holder n (publish_VolumeId r) = Some k"
          "PodUID k \<noteq> uid (podOf (publish_VolumeContext r)) \<or> Target k = publish_TargetPath r"
          by (auto simp: may_mount_def split: option.splits)
        with None target held repeated show thesis by blast
      qed
    qed (use bad_handle in blast)
  qed
qed

lemmas publish_branches =
  publish_bad_handle publish_no_target publish_held publish_repeated publish_mount_failed publish_mounted

lemma may_mount_plain: "may_mount n r \<Longrightarrow> plain_name (publish_VolumeId r)"
  by (simp add: may_mount_def checked_plain)

lemma hold_for_simps [simp]:
  "PodUID (hold_for pod t) = uid pod" "PodName (hold_for pod t) = name pod"
  "PodNamespace (hold_for pod t) = namespace pod" "Target (hold_for pod t) = t"
  by (simp_all add: hold_for_def)

lemma publish_config:
  assumes "NodePublishVolume n r w = (a, n', w')"
  shows "n' = n\<lparr>holds := holds n'\<rparr>" "a \<noteq> Inr () \<Longrightarrow> n' = n"
  using assms
  by (cases rule: publish_cases [where r = r and n = n and w = w];
      auto simp: publish_branches dest: keepHold_facts(1) [OF _ may_mount_plain])+

subsection \<open>A publish where nothing is refused\<close>

definition store_ready :: "node \<Rightarrow> string \<Rightarrow> world \<Rightarrow> bool" where
  "store_ready n h w \<longleftrightarrow>
     clear_way w (copy_place (node_store n) h) \<and> clear_way w (holds_place (node_store n)) \<and>
     (case fs w (hold_place (node_store n) h) of
        None \<Rightarrow> True | Some (Reg m c) \<Rightarrow> True | Some (Dir m) \<Rightarrow> False | Some (Special m) \<Rightarrow> False)"

lemma publish_stages_healthy:
  assumes "may_mount n r" "answering_kernel (mounts n)" "healthy w" "wf_tree w"
    and "store_ready n (publish_VolumeId r) w" "clear_way w (locate (publish_TargetPath r))"
    and "\<not> prefix (hold_place (node_store n) (publish_VolumeId r)) (locate (publish_TargetPath r))"
  shows "\<exists>w1 n2 w2 d.
    node_mount n r (publish_VolumeId r) (publish_TargetPath r) w = (None, w1) \<and>
    keepHold n (publish_VolumeId r) (hold_for (podOf (publish_VolumeContext r)) (publish_TargetPath r)) w1
      = (n2, w2) \<and>
    healthy w2 \<and> wf_tree w2 \<and>
    fs w2 (hold_place (node_store n) (publish_VolumeId r)) =
      Some (Reg d (json_Marshal (hold_for (podOf (publish_VolumeContext r)) (publish_TargetPath r))))"
proof -
  let ?h = "publish_VolumeId r" and ?t = "publish_TargetPath r" and ?s = "node_store n"
  have p: "plain_name ?h" "?t \<noteq> ''''" "length ?h \<le> 255"
    using assms(1) checked_length [of ?h] by (auto simp: may_mount_def checked_plain)
  have bk: "bind_kernel (mounts n)" using assms(2) by (simp add: answering_kernel_def)
  obtain w1 where m: "node_mount n r ?h ?t w = (None, w1)" and h1: "healthy w1"
    using node_mount_healthy [OF assms(2-4) p(1,2)] assms(5,6) by (auto simp: store_ready_def)
  note M = node_mount_facts [OF m p(1) bk]
  have way: "clear_way w1 (holds_place ?s)"
    using clear_way_only_makes_dirs [OF M(4)] assms(5) by (simp add: store_ready_def)
  have same: "fs w1 (hold_place ?s ?h) = fs w (hold_place ?s ?h)"
    using M(5) [of "hold_place ?s ?h"] assms(7) hold_not_below_copy [of ?s ?h ?h "[]"] by simp
  have free: "\<not> dir_at w1 (hold_place ?s ?h)" "\<And>m. fs w1 (hold_place ?s ?h) \<noteq> Some (Special m)"
    using assms(5) same by (auto simp: store_ready_def dir_at_iff)
  obtain n2 w2 where k: "keepHold n ?h (hold_for (podOf (publish_VolumeContext r)) ?t) w1 = (n2, w2)"
    by fastforce
  have "\<exists>d. fs w2 (hold_place ?s ?h) =
      Some (Reg d (json_Marshal (hold_for (podOf (publish_VolumeContext r)) ?t)))"
    using keepHold_healthy [OF h1 M(2) [OF assms(4)] p(1) way p(3) free k] .
  moreover have "healthy w2" "wf_tree w2"
    using onwardD(1) [OF keepHold_facts(2) [OF k p(1)] h1]
      keepHold_facts(4) [OF k p(1) M(2) [OF assms(4)]] by auto
  ultimately show ?thesis using m k by blast
qed

lemma publish_healthy:
  assumes "may_mount n r" "answering_kernel (mounts n)" "healthy w" "wf_tree w"
    and "store_ready n (publish_VolumeId r) w" "clear_way w (locate (publish_TargetPath r))"
    and "\<not> prefix (hold_place (node_store n) (publish_VolumeId r)) (locate (publish_TargetPath r))"
  shows "\<exists>n' w' d. NodePublishVolume n r w = (Inr (), n', w') \<and>
    fs w' (hold_place (node_store n) (publish_VolumeId r)) =
      Some (Reg d (json_Marshal (hold_for (podOf (publish_VolumeContext r)) (publish_TargetPath r))))"
  using publish_stages_healthy [OF assms] publish_mounted [OF assms(1)] by fastforce


definition sample_world :: world where
  "sample_world =
     \<lparr>tree = [([], Dir 0x1ED)], mtab = [], faults = [], api_answers = [], umask = 0x12,
      clock = 7, effects = []\<rparr>"

definition sample_node :: node where
  "sample_node =
     newNode linux_calls linux_row
       (\<lambda>path w. (Inr \<lparr>Bsize = 4096, Bavail = 10, Blocks = 20\<rparr>, w)) ''worker-1'' ''/store''
       \<lparr>client = True, events_node = ''worker-1''\<rparr>"

definition sample_context :: "string \<Rightarrow> (string \<times> string) list" where
  "sample_context u = [(podNameKey, ''pod''), (podNamespaceKey, ''default''), (podUIDKey, u)]"

definition sample_publish :: "string \<Rightarrow> string \<Rightarrow> NodePublishVolumeRequest" where
  "sample_publish u t =
     \<lparr>publish_VolumeId = ''data'', publish_TargetPath = t,
      publish_VolumeContext = sample_context u, publish_Readonly = False\<rparr>"

definition sample_held :: node where
  "sample_held = sample_node\<lparr>holds := [(''data'', hold_for (podOf (sample_context ''u1'')) ''/t1'')]\<rparr>"

lemma sample_uid [simp]: "uid (podOf (sample_context u)) = u"
  by (simp add: podOf_def sample_context_def map_get_def podNameKey_def podNamespaceKey_def podUIDKey_def)

lemma sample_handle [simp]: "checkHandle ''data'' = None"
  by code_simp

lemma sample_fields [simp]:
  "mounts sample_node = linux_calls" "node_store sample_node = \<lparr>root = ''/store''\<rparr>"
  "holds sample_node = []" "mounts sample_held = linux_calls"
  "node_store sample_held = \<lparr>root = ''/store''\<rparr>"
  "holder sample_held ''data'' = Some (hold_for (podOf (sample_context ''u1'')) ''/t1'')"
  "publish_VolumeId (sample_publish u t) = ''data''" "publish_TargetPath (sample_publish u t) = t"
  "publish_VolumeContext (sample_publish u t) = sample_context u"
  by (simp_all add: sample_node_def newNode_def newStore_def sample_publish_def sample_held_def holder_def)

lemma sample_healthy [simp]: "healthy sample_world" "wf_tree sample_world"
  by code_simp+

lemma sample_may_mount [simp]:
  "t \<noteq> '''' \<Longrightarrow> may_mount sample_node (sample_publish u t)"
  by (simp add: may_mount_def holder_def)

lemma sample_ready:
  "store_ready sample_node ''data'' sample_world" "clear_way sample_world (locate ''/t1'')"
  "\<not> prefix (hold_place (node_store sample_node) ''data'') (locate ''/t1'')"
  unfolding store_ready_def sample_fields by code_simp+

lemma sample_publish_done:
  "\<exists>n' w'. NodePublishVolume sample_node (sample_publish u ''/t1'') sample_world = (Inr (), n', w')"
  using publish_healthy [of sample_node "sample_publish u ''/t1''" sample_world]
    sample_ready la.answering_kernel_axioms by auto

subsection \<open>Properties of a publish\<close>

text \<open>
  C4. A handle that a pod holds is refused to every other pod: the answer is
  \<open>FailedPrecondition\<close>, no hold, no mount and no file changes, and where the cluster's API
  accepts it one Event with the reason \<open>PerNodeVolumeHeld\<close> is posted on the asking pod.
\<close>

theorem publish_refuses_second_pod:
  assumes "checkHandle (publish_VolumeId r) = None" "publish_TargetPath r \<noteq> ''''"
    and "holder n (publish_VolumeId r) = Some k"
    and "PodUID k \<noteq> uid (podOf (publish_VolumeContext r))"
  shows "\<exists>err w'. NodePublishVolume n r w = (Inl err, n, w') \<and> code err = FailedPrecondition \<and>
    tree w' = tree w \<and> mtab w' = mtab w \<and>
    posted (effects w') = posted (effects w) @
      (if client (node_events n) \<and> name (podOf (publish_VolumeContext r)) \<noteq> '''' \<and>
          namespace (podOf (publish_VolumeContext r)) \<noteq> '''' \<and> api_accepts w
       then [event_for (node_events n) (podOf (publish_VolumeContext r)) EventTypeWarning reasonHeld
               (message err) (clock w)]
       else [])"
  using publish_held [OF assms, of w]
  by (simp add: held_by_def post_frame post_posted)

lemma publish_refuses_second_pod_witness:
  "\<exists>err w'. NodePublishVolume sample_held (sample_publish ''u2'' ''/t2'') sample_world =
     (Inl err, sample_held, w') \<and> code err = FailedPrecondition"
  using publish_refuses_second_pod [of "sample_publish ''u2'' ''/t2''" sample_held
      "hold_for (podOf (sample_context ''u1'')) ''/t1''" sample_world]
  by auto

text \<open>
  C5. A publish that succeeds leaves the pod as the holder of the handle at its target and no
  other hold changed. Unless it was the repetition of a publish, which changes nothing, there is
  exactly one new mount, of this node's copy of the handle onto the target with the access the
  request asks for, the copy is a directory that any user can write whatever the umask, the
  target is a directory, and the gauge shows the number of holds.
\<close>

theorem publish_gives_the_copy:
  assumes "NodePublishVolume n r w = (Inr (), n', w')" "bind_kernel (mounts n)"
    and "h = publish_VolumeId r" "t = publish_TargetPath r"
    and "pod = podOf (publish_VolumeContext r)"
  shows "(\<exists>k. holder n' h = Some k \<and> PodUID k = uid pod \<and> Target k = t) \<and>
    (\<forall>h'. h' \<noteq> h \<longrightarrow> holder n' h' = holder n h') \<and>
    ((n' = n \<and> w' = w) \<or>
     (mtab w' = \<lparr>mnt_point = locate t, mnt_source = copy_place (node_store n) h,
          mnt_ro = publish_Readonly r\<rparr> #
        (if mounted_at w (locate t) then detach (locate t) (mtab w) else mtab w) \<and>
      fs w' (copy_place (node_store n) h) = Some (Dir 0x1FF) \<and>
      dir_at w' (locate t) \<and>
      volumes_gauge (effects w') 0 = float64_of (int (length (holds n')))))"
proof (cases rule: publish_cases [where r = r and n = n and w = w])
  case (mounted w1 n2 w2)
  note p = may_mount_plain [OF mounted(1), folded assms(3)]
  have b: "n' = n2" "w' = emit (Logged LogInfo ''published'' [(''volume'', Str h), (''target'', Str t)]) w2"
    using publish_mounted [OF mounted] assms(1,3,4) by auto
  note M = node_mount_done [OF mounted(2) p [unfolded assms(3)] assms(2), folded assms(3,4)]
  note K = keepHold_facts [OF mounted(3) p [unfolded assms(3)], folded assms(3,4,5)]
  have hp: "hold_place (node_store n) h \<noteq> copy_place (node_store n) h" by simp
  have "fs w2 (copy_place (node_store n) h) = Some (Dir copyMode)"
    using K(6) [of "copy_place (node_store n) h"] M(3) hp by simp
  then show ?thesis
    using b K(1,3) K(11) [OF M(2)] K(8) [of 0] M(1)
    by (simp add: holder_def copyMode_def dir_at_def)
qed (use assms in \<open>auto simp: publish_branches\<close>)

lemma publish_gives_the_copy_witness:
  "\<exists>n' w'. NodePublishVolume sample_node (sample_publish ''u1'' ''/t1'') sample_world = (Inr (), n', w') \<and>
     (\<exists>k. holder n' ''data'' = Some k \<and> PodUID k = ''u1'' \<and> Target k = ''/t1'')"
proof -
  obtain n' w' where
    p: "NodePublishVolume sample_node (sample_publish ''u1'' ''/t1'') sample_world = (Inr (), n', w')"
    using sample_publish_done by blast
  then show ?thesis
    using publish_gives_the_copy [OF p] lk.bind_kernel_axioms by simp
qed

text \<open>
  C14. Where no call is refused, a publish of an accepted handle that no other pod holds returns
  success, the pod holds the handle afterwards, and the file of the hold is on the disk for the
  next start of the driver.
\<close>

theorem publish_succeeds:
  assumes "may_mount n r" "answering_kernel (mounts n)" "healthy w" "wf_tree w"
    and "store_ready n (publish_VolumeId r) w" "clear_way w (locate (publish_TargetPath r))"
    and "\<not> prefix (hold_place (node_store n) (publish_VolumeId r)) (locate (publish_TargetPath r))"
  shows "\<exists>n' w' d k. NodePublishVolume n r w = (Inr (), n', w') \<and>
    k = hold_for (podOf (publish_VolumeContext r)) (publish_TargetPath r) \<and>
    holder n' (publish_VolumeId r) = Some k \<and>
    fs w' (hold_place (node_store n) (publish_VolumeId r)) = Some (Reg d (json_Marshal k))"
proof -
  obtain n' w' d where p: "NodePublishVolume n r w = (Inr (), n', w')"
    and f: "fs w' (hold_place (node_store n) (publish_VolumeId r)) =
      Some (Reg d (json_Marshal (hold_for (podOf (publish_VolumeContext r)) (publish_TargetPath r))))"
    using publish_healthy [OF assms] by blast
  have "holder n' (publish_VolumeId r) =
      Some (hold_for (podOf (publish_VolumeContext r)) (publish_TargetPath r))"
    using p
  proof (cases rule: publish_cases [where r = r and n = n and w = w])
    case (mounted w1 n2 w2)
    then show ?thesis
      using p keepHold_facts(1) [OF mounted(3) may_mount_plain [OF mounted(1)]]
      by (auto simp: publish_mounted holder_def)
  qed (use assms(1) p in \<open>auto simp: may_mount_def publish_branches\<close>)
  with p f show ?thesis by blast
qed

lemma publish_succeeds_witness:
  "\<exists>n' w' d k. NodePublishVolume sample_node (sample_publish ''u1'' ''/t1'') sample_world = (Inr (), n', w') \<and>
     k = hold_for (podOf (sample_context ''u1'')) ''/t1'' \<and> holder n' ''data'' = Some k \<and>
     fs w' (hold_place (node_store sample_node) ''data'') = Some (Reg d (json_Marshal k))"
  using publish_succeeds [of sample_node "sample_publish ''u1'' ''/t1''" sample_world]
    sample_ready la.answering_kernel_axioms by simp

text \<open>
  C24. No publish, whatever is refused to it and whatever it answers, destroys anything on the
  node: every place that held something holds it afterwards, but for the mode of the handle's
  copy and the contents of the handle's hold file; a publish that answers with an error changes
  no hold, and its code is one of the three the driver documents.
\<close>

theorem publish_destroys_nothing:
  assumes "NodePublishVolume n r w = (a, n', w')" "bind_kernel (mounts n)"
  shows "(\<forall>q i. fs w q = Some i \<longrightarrow> q \<noteq> copy_place (node_store n) (publish_VolumeId r) \<longrightarrow>
      q \<noteq> hold_place (node_store n) (publish_VolumeId r) \<longrightarrow> fs w' q = Some i) \<and>
    (\<forall>q. dir_at w q \<longrightarrow> dir_at w' q) \<and>
    (wf_tree w \<longrightarrow> wf_tree w') \<and>
    (case a of
       Inr u \<Rightarrow> holds n' = holds n \<or> holds n' = AList.update (publish_VolumeId r)
         (hold_for (podOf (publish_VolumeContext r)) (publish_TargetPath r)) (holds n)
     | Inl err \<Rightarrow> n' = n \<and> code err \<in> {InvalidArgument, FailedPrecondition, Internal})"
proof (cases rule: publish_cases [where r = r and n = n and w = w])
  case (bad_handle err)
  then show ?thesis
    using assms(1) checkHandle_code [OF bad_handle] by (auto simp: publish_bad_handle dir_at_iff)
next
  case (failed err w1)
  note M = node_mount_facts [OF failed(2) may_mount_plain [OF failed(1)] assms(2)]
  have "fs w' = fs w1" "wf_tree w' = wf_tree w1" "a = Inl err" "n' = n"
    using assms(1) by (auto simp: publish_mount_failed [OF failed] mountFailed_def)
  then show ?thesis
    using M(2,4,6) only_makes_dirs_dir_at [OF M(4)]
    by (auto simp: only_makes_dirs_def dir_at_def) (metis option.distinct(1))+
next
  case (mounted w1 n2 w2)
  note p = may_mount_plain [OF mounted(1)]
  note M = node_mount_facts [OF mounted(2) p assms(2)]
  note K = keepHold_facts [OF mounted(3) p]
  have e: "fs w' = fs w2" "wf_tree w' = wf_tree w2" "a = Inr ()" "n' = n2" "dir_at w' = dir_at w2"
    using assms(1) by (auto simp: publish_mounted [OF mounted] dir_at_def fun_eq_iff)
  have "fs w2 q = Some i" if "fs w q = Some i" "q \<noteq> copy_place (node_store n) (publish_VolumeId r)"
    "q \<noteq> hold_place (node_store n) (publish_VolumeId r)" for q i
  proof -
    have "fs w1 q = Some i"
      using M(4) [unfolded only_makes_dirs_def, THEN spec, of q] that(1,2) by auto
    then show ?thesis using K(6) [OF that(3)] by simp
  qed
  then show ?thesis
    using e K(1,4) K(11) M(2) only_makes_dirs_dir_at [OF M(4)] by auto
qed (use assms(1) in \<open>auto simp: publish_branches dir_at_iff held_by_def no_target_def\<close>)

lemma publish_destroys_nothing_witness:
  "\<exists>n' w'. NodePublishVolume sample_node (sample_publish ''u1'' ''/t1'') sample_world = (Inr (), n', w') \<and>
     dir_at w' []"
proof -
  obtain n' w' where
    p: "NodePublishVolume sample_node (sample_publish ''u1'' ''/t1'') sample_world = (Inr (), n', w')"
    using sample_publish_done by blast
  have "dir_at sample_world []" by code_simp
  then show ?thesis
    using p publish_destroys_nothing [OF p] lk.bind_kernel_axioms by simp
qed

text \<open>
  C25. A publish that fails after its checks counts one mount failure, posts its Event where the
  API takes it, takes no hold and changes none, and leaves the mount table as it was or with the
  mounts at its target taken away; only where the kernel refuses a detach can a mount of the copy
  stay behind, and then the request was for a read-only one.
\<close>

theorem publish_failure_is_reported:
  assumes "NodePublishVolume n r w = (Inl err, n', w')" "may_mount n r" "bind_kernel (mounts n)"
  defines "t \<equiv> locate (publish_TargetPath r)"
  defines "cleared \<equiv> (if mounted_at w t then detach t (mtab w) else mtab w)"
  shows "code err = Internal \<and> n' = n \<and>
    mount_failures (effects w') = Suc (mount_failures (effects w)) \<and>
    (client (node_events n) \<longrightarrow> name (podOf (publish_VolumeContext r)) \<noteq> '''' \<longrightarrow>
       namespace (podOf (publish_VolumeContext r)) \<noteq> '''' \<longrightarrow> api_accepts w \<longrightarrow>
       posted (effects w') = posted (effects w) @
         [event_for (node_events n) (podOf (publish_VolumeContext r)) EventTypeWarning
            reasonMountFailed (message err) (clock w)]) \<and>
    (mtab w' = mtab w \<or> mtab w' = cleared \<or>
      (mtab w' = push_mount t (copy_place (node_store n) (publish_VolumeId r)) cleared \<and>
       publish_Readonly r \<and> \<not> detaching_kernel (mounts n)))"
  using assms(2)
proof (cases rule: publish_cases [where r = r and n = n and w = w])
  case (failed err' w1)
  note p = may_mount_plain [OF failed(1)]
  note M = node_mount_facts [OF failed(2) p assms(3)]
  have e: "n' = n" "err' = err" "w' = post (node_events n) (podOf (publish_VolumeContext r)) EventTypeWarning
      reasonMountFailed (message err) (mountFailed w1)"
    using assms(1) by (auto simp: publish_mount_failed [OF failed])
  have "api_answers w1 = api_answers w" "clock w1 = clock w"
    using node_mount_api [OF failed(2) p assms(3)] M(1) by (simp_all add: onward_def)
  moreover have "api_answers (mountFailed w1) = api_answers w1" "clock (mountFailed w1) = clock w1"
    "mtab (mountFailed w1) = mtab w1"
    by (simp_all add: mountFailed_def)
  ultimately show ?thesis
    using M(3,6) e node_mount_failed [OF failed(2) p assms(3)]
    unfolding t_def cleared_def
    by (simp add: post_frame post_posted api_accepts_def)
next
  case (mounted w1 n2 w2)
  then show ?thesis using assms(1) by (simp add: publish_mounted)
qed (auto simp: may_mount_def)

definition failing_world :: world where
  "failing_world = sample_world\<lparr>faults := replicate 20 (Some (EIO, 0))\<rparr>"

lemma publish_failure_is_reported_witness:
  "\<exists>err w'. NodePublishVolume sample_node (sample_publish ''u1'' ''/t1'') failing_world =
      (Inl err, sample_node, w') \<and> code err = Internal \<and> mount_failures (effects w') = 1"
proof -
  have m: "may_mount sample_node (sample_publish ''u1'' ''/t1'')" by simp
  obtain e w1 where c: "makeCopy \<lparr>root = ''/store''\<rparr> ''data'' failing_world = (Some e, w1)"
  proof -
    have "fst (makeCopy \<lparr>root = ''/store''\<rparr> ''data'' failing_world) \<noteq> None" by code_simp
    then show thesis using that by (metis option.exhaust prod.collapse)
  qed
  then have nm: "node_mount sample_node (sample_publish ''u1'' ''/t1'') ''data'' ''/t1'' failing_world
      = (Some (internal e), w1)"
    by (simp add: node_mount_def)
  obtain w' where p: "NodePublishVolume sample_node (sample_publish ''u1'' ''/t1'') failing_world =
      (Inl (internal e), sample_node, w')"
    using publish_mount_failed [OF m] nm by simp
  have "mount_failures (effects failing_world) = 0" by code_simp
  with publish_failure_is_reported [OF p m] p lk.bind_kernel_axioms show ?thesis by simp
qed

end
