(* ===== verification/Node_Release.thy ===== *)
theory Node_Release
  imports Node_Service
begin

section \<open>Unpublish and statistics\<close>

text \<open>
  The stages of \<open>NodeUnpublishVolume\<close> as one inversion, and its properties: the copies stay,
  the hold goes exactly when it names the target. What \<open>NodeGetVolumeStats\<close> reports. The last
  part shows what a volume id that \<open>checkHandle\<close> would refuse does to the two calls that do
  not ask it.
\<close>

subsection \<open>The branches of an unpublish\<close>

definition keeps_hold :: "node \<Rightarrow> NodeUnpublishVolumeRequest \<Rightarrow> bool" where
  "keeps_hold n r \<longleftrightarrow>
     (case holder n (unpublish_VolumeId r) of
        None \<Rightarrow> False
      | Some k \<Rightarrow> Target k \<noteq> unpublish_TargetPath r)"

text \<open>
  Every run of an unpublish: refused at its arguments, stopped at the unmount, stopped at the
  removal of the target, done with the hold kept, or done with the hold dropped.
\<close>

lemma unpublish_cases:
  assumes "NodeUnpublishVolume n r w = (a, n', w')"
  obtains (no_argument) err where "unpublish_VolumeId r = '''' \<or> unpublish_TargetPath r = ''''"
      "a = Inl err" "code err = InvalidArgument" "n' = n" "w' = w"
  | (still_mounted) err where "unpublish_VolumeId r \<noteq> ''''" "unpublish_TargetPath r \<noteq> ''''"
      "unbind (mounts n) (unpublish_TargetPath r) w = (Some err, w')" "a = Inl (internal err)" "n' = n"
  | (not_removed) err w1 where "unpublish_VolumeId r \<noteq> ''''" "unpublish_TargetPath r \<noteq> ''''"
      "unbind (mounts n) (unpublish_TargetPath r) w = (None, w1)"
      "os_Remove (unpublish_TargetPath r) w1 = (Some err, w')" "\<not> os_IsNotExist err"
      "a = Inl (internal err)" "n' = n"
  | (hold_kept) w1 w2 removed where "unpublish_VolumeId r \<noteq> ''''" "unpublish_TargetPath r \<noteq> ''''"
      "unbind (mounts n) (unpublish_TargetPath r) w = (None, w1)"
      "os_Remove (unpublish_TargetPath r) w1 = (removed, w2)"
      "\<And>err. removed = Some err \<Longrightarrow> os_IsNotExist err"
      "keeps_hold n r" "a = Inr ()" "n' = n" "only_effects w2 w'"
      "volumes_gauge (effects w') = volumes_gauge (effects w2)"
  | (hold_dropped) w1 w2 w3 removed where "unpublish_VolumeId r \<noteq> ''''" "unpublish_TargetPath r \<noteq> ''''"
      "unbind (mounts n) (unpublish_TargetPath r) w = (None, w1)"
      "os_Remove (unpublish_TargetPath r) w1 = (removed, w2)"
      "\<And>err. removed = Some err \<Longrightarrow> os_IsNotExist err"
      "\<not> keeps_hold n r" "dropHold n (unpublish_VolumeId r) w2 = (n', w3)" "a = Inr ()"
      "only_effects w3 w'" "volumes_gauge (effects w') = volumes_gauge (effects w3)"
proof -
  let ?h = "unpublish_VolumeId r" and ?t = "unpublish_TargetPath r"
  show thesis
  proof (cases "?h = '''' \<or> ?t = ''''")
    case True
    then show thesis
      using assms no_argument
      by (auto simp: NodeUnpublishVolume_def Let_def no_volume_def no_target_def split: if_splits)
  next
    case args: False
    obtain e1 w1 where u: "unbind (mounts n) ?t w = (e1, w1)" by fastforce
    show thesis
    proof (cases e1)
      case (Some err)
      then show thesis
        using assms args u still_mounted by (auto simp: NodeUnpublishVolume_def Let_def)
    next
      case None
      obtain e2 w2 where o: "os_Remove ?t w1 = (e2, w2)" by fastforce
      show thesis
      proof (cases "\<exists>err. e2 = Some err \<and> \<not> os_IsNotExist err")
        case True
        then obtain err where "e2 = Some err" "\<not> os_IsNotExist err" by blast
        then show thesis
          using assms args u None o not_removed [of w1 err]
          by (auto simp: NodeUnpublishVolume_def Let_def)
      next
        case False
        then have ok: "\<And>err. e2 = Some err \<Longrightarrow> os_IsNotExist err" by blast
        obtain n3 w3 where d: "dropHold n ?h w2 = (n3, w3)" by fastforce
        show thesis
        proof (cases "keeps_hold n r")
          case True
          then show thesis
            using assms args u None o ok
            by (intro hold_kept [of w1 e2 w2])
              (auto simp: NodeUnpublishVolume_def Let_def keeps_hold_def fun_eq_iff split: option.splits if_splits)
        next
          case False
          then show thesis
            using assms args u None o ok d
            by (intro hold_dropped [of w1 e2 w2 w3])
              (auto simp: NodeUnpublishVolume_def Let_def keeps_hold_def fun_eq_iff only_effects_def forget_def
                split: option.splits if_splits)
        qed
      qed
    qed
  qed
qed

lemma unpublish_config:
  assumes "NodeUnpublishVolume n r w = (a, n', w')"
  shows "n' = n\<lparr>holds := holds n'\<rparr>"
  using assms by (cases rule: unpublish_cases) (auto dest: dropHold_facts(1))

text \<open>The tree changes at the target and at the place of the hold, and by removals only.\<close>

lemma unpublish_tree:
  assumes "NodeUnpublishVolume n r w = (a, n', w')" "bind_kernel (mounts n)"
  shows "q \<noteq> locate (unpublish_TargetPath r) \<Longrightarrow>
      q \<noteq> locate (holdPath (node_store n) (unpublish_VolumeId r)) \<Longrightarrow> fs w' q = fs w q"
    "fs w' q = fs w q \<or> fs w' q = None"
    "wf_tree w \<Longrightarrow> wf_tree w'"
    "onward w w'"
proof -
  let ?t = "locate (unpublish_TargetPath r)"
  let ?h = "locate (holdPath (node_store n) (unpublish_VolumeId r))"
  have rm: "fs w2 q = fs w1 q \<or> (q = ?t \<and> fs w2 q = None)" "wf_tree w1 \<Longrightarrow> wf_tree w2" "onward w1 w2"
    if "os_Remove (unpublish_TargetPath r) w1 = (removed, w2)" for removed w1 w2
    using that os_Remove_wf [OF _ that] onward_only_fs [OF os_Remove_only_fs [OF that]]
    by (cases removed; auto dest!: os_Remove_None os_Remove_Some dest: fs_cong split: if_splits)+
  have um: "fs w1 = fs w" "wf_tree w1 = wf_tree w" "onward w w1"
    if "unbind (mounts n) (unpublish_TargetPath r) w = (e, w1)" for e w1
    using only_mtabD [OF bind_kernel.unbind_frame [OF assms(2) that]]
      onward_only_mtab [OF bind_kernel.unbind_frame [OF assms(2) that]] by auto
  have "(q \<noteq> ?t \<longrightarrow> q \<noteq> ?h \<longrightarrow> fs w' q = fs w q) \<and> (fs w' q = fs w q \<or> fs w' q = None) \<and>
      (wf_tree w \<longrightarrow> wf_tree w') \<and> onward w w'"
    using assms(1)
  proof (cases rule: unpublish_cases)
    case (still_mounted err)
    then show ?thesis using um [of "Some err" w'] by simp
  next
    case (not_removed err w1)
    then show ?thesis
      using um [of None w1] rm [of w1 "Some err" w'] by (auto intro: onward_trans)
  next
    case (hold_kept w1 w2 removed)
    then show ?thesis
      using um [of None w1] rm [of w1 removed w2] only_effectsD(7,9) [of w2 w']
        onward_only_effects [of w2 w'] by (auto intro: onward_trans)
  next
    case (hold_dropped w1 w2 w3 removed)
    then show ?thesis
      using um [of None w1] rm [of w1 removed w2] dropHold_facts(2,4) [OF hold_dropped(7)]
        dropHold_facts(5,6) [OF hold_dropped(7), of q]
        only_effectsD(7,9) [of w3 w'] onward_only_effects [of w3 w']
      by (auto intro: onward_trans)
  qed auto
  then show "q \<noteq> ?t \<Longrightarrow> q \<noteq> ?h \<Longrightarrow> fs w' q = fs w q" "fs w' q = fs w q \<or> fs w' q = None"
    "wf_tree w \<Longrightarrow> wf_tree w'" "onward w w'" by auto
qed

text \<open>A target directory with an entry is not removed, and the refusal is not ``not exist''.\<close>

lemma unpublish_not_removable:
  assumes "bind_kernel (mounts n)" "unbind (mounts n) target w = (None, w1)" "honest w"
    and "dir_at w (locate target)" "fs w (locate target @ [c]) \<noteq> None"
    and "os_Remove target w1 = (removed, w2)"
  shows "\<exists>err. removed = Some err \<and> \<not> os_IsNotExist err"
proof -
  note u = only_mtabD [OF bind_kernel.unbind_frame [OF assms(1,2)]]
  have "child_names w1 (locate target) \<noteq> []"
    using assms(5) u(2) by (auto simp: child_names_Nil)
  then have "removed \<noteq> None"
    using os_Remove_None [of target w1 w2] assms(4,6) u(3) by auto
  moreover have "\<not> os_IsNotExist err" if "removed = Some err" for err
    using os_Remove_not_exist [of w1 target err w2] assms(3,4,6) u(2,9) that by (auto simp: dir_at_iff)
  ultimately show ?thesis by auto
qed

subsection \<open>Properties of an unpublish\<close>

definition sample_unpublish :: NodeUnpublishVolumeRequest where
  "sample_unpublish = \<lparr>unpublish_VolumeId = ''data'', unpublish_TargetPath = ''/t1''\<rparr>"

definition held_world :: world where
  "held_world =
     sample_world\<lparr>
       tree := [([], Dir 0x1ED), ([''t1''], Dir 0x1ED), ([''store''], Dir 0x1ED),
         ([''store'', ''copies''], Dir 0x1ED), ([''store'', ''copies'', ''data''], Dir 0x1FF),
         ([''store'', ''copies'', ''data'', ''f''], Reg 0x1A4 ''abc''),
         ([''store'', ''holds''], Dir 0x1ED), ([''store'', ''holds'', ''data''], Reg 0x180 ''{}'')],
       mtab := [\<lparr>mnt_point = [''t1''], mnt_source = [''store'', ''copies'', ''data''], mnt_ro = False\<rparr>]\<rparr>"

lemma sample_unpublish_done:
  "\<exists>n' w'. NodeUnpublishVolume sample_held sample_unpublish held_world = (Inr (), n', w')"
proof -
  have "fst (NodeUnpublishVolume sample_held sample_unpublish held_world) = Inr ()" by code_simp
  then show ?thesis by (metis prod.collapse)
qed

text \<open>
  C6. An unpublish never touches a copy: for an accepted handle and a target outside
  \<open>copies/\<close>, every place at and below \<open>copies/\<close> is as it was after every run, whatever the
  kernel refuses and whatever the call answers; no file anywhere is changed, and none removed
  but the target and the handle's hold.
\<close>

theorem unpublish_keeps_every_copy:
  assumes "NodeUnpublishVolume n r w = (a, n', w')" "bind_kernel (mounts n)"
    and "checkHandle (unpublish_VolumeId r) = None"
    and "\<not> prefix (copies_place (node_store n)) (locate (unpublish_TargetPath r))"
  shows "(\<forall>q. prefix (copies_place (node_store n)) q \<longrightarrow> fs w' q = fs w q) \<and>
    (\<forall>q. q \<noteq> locate (unpublish_TargetPath r) \<longrightarrow>
      q \<noteq> hold_place (node_store n) (unpublish_VolumeId r) \<longrightarrow> fs w' q = fs w q) \<and>
    (\<forall>q i. fs w' q = Some i \<longrightarrow> fs w q = Some i)"
proof -
  have h: "locate (holdPath (node_store n) (unpublish_VolumeId r)) =
      hold_place (node_store n) (unpublish_VolumeId r)"
    using checked_plain [OF assms(3)] by (rule locate_holdPath)
  have "\<not> prefix (copies_place (node_store n)) (hold_place (node_store n) (unpublish_VolumeId r))"
    by (simp add: copies_place_def hold_place_def holds_place_def copiesDirectory_def holdsDirectory_def)
  then show ?thesis
    using unpublish_tree(1,2) [OF assms(1,2)] assms(4) unfolding h by (metis option.distinct(1))
qed

lemma unpublish_keeps_every_copy_witness:
  "\<exists>n' w'. NodeUnpublishVolume sample_held sample_unpublish held_world = (Inr (), n', w') \<and>
     fs w' [''store'', ''copies'', ''data'', ''f''] = Some (Reg 0x1A4 ''abc'')"
proof -
  obtain n' w' where u: "NodeUnpublishVolume sample_held sample_unpublish held_world = (Inr (), n', w')"
    using sample_unpublish_done by blast
  have p: "\<not> prefix (copies_place (node_store sample_held)) (locate (unpublish_TargetPath sample_unpublish))"
    "prefix (copies_place (node_store sample_held)) [''store'', ''copies'', ''data'', ''f'']"
    "fs held_world [''store'', ''copies'', ''data'', ''f''] = Some (Reg 0x1A4 ''abc'')"
    by code_simp+
  have "checkHandle (unpublish_VolumeId sample_unpublish) = None"
    by (simp add: sample_unpublish_def)
  moreover have "bind_kernel (mounts sample_held)" by (simp add: lk.bind_kernel_axioms)
  ultimately have "fs w' [''store'', ''copies'', ''data'', ''f''] =
      fs held_world [''store'', ''copies'', ''data'', ''f'']"
    using unpublish_keeps_every_copy [OF u _ _ p(1)] p(2) by blast
  with u p(3) show ?thesis by auto
qed

text \<open>
  C26. The target is removed only when it is empty and nothing is mounted there: where it is a
  directory that holds anything, or where something is still mounted at it after the call, the
  answer is an error, no place of the tree changes and every hold stays, so a mount that the
  kernel did not detach cannot lose what it shows.
\<close>

theorem unpublish_never_empties_a_target:
  assumes "NodeUnpublishVolume n r w = (a, n', w')" "bind_kernel (mounts n)" "honest w"
    and "dir_at w (locate (unpublish_TargetPath r))"
    and "fs w (locate (unpublish_TargetPath r) @ [c]) \<noteq> None \<or> mounted_at w' (locate (unpublish_TargetPath r))"
  shows "(\<exists>err. a = Inl err) \<and> fs w' = fs w \<and> n' = n"
proof -
  let ?t = "locate (unpublish_TargetPath r)"
  have stays: False
    if u: "unbind (mounts n) (unpublish_TargetPath r) w = (None, w1)"
      and o: "os_Remove (unpublish_TargetPath r) w1 = (removed, w2)"
      and ok: "\<And>err. removed = Some err \<Longrightarrow> os_IsNotExist err"
      and m: "mtab w' = mtab w2" for w1 w2 removed
  proof (cases "mounted_at w' ?t")
    case True
    note f = only_mtabD [OF bind_kernel.unbind_frame [OF assms(2) u]]
    have "mounted_at w1 ?t" "dir_at w1 ?t"
      using True m only_fsD(1) [OF os_Remove_only_fs [OF o]] f(3) assms(4) by (simp_all add: mounted_at_def)
    then have "removed \<noteq> None" using os_Remove_None [of "unpublish_TargetPath r" w1 w2] o by auto
    then have "fs w1 ?t = None" using os_Remove_not_exist [OF f(9) [OF assms(3)]] o ok by blast
    with \<open>dir_at w1 ?t\<close> show False by (simp add: dir_at_def)
  next
    case False
    then show False
      using unpublish_not_removable [OF assms(2) u assms(3,4) _ o] assms(5) ok by blast
  qed
  show ?thesis
    using assms(1)
  proof (cases rule: unpublish_cases)
    case (still_mounted err)
    then show ?thesis using only_mtabD [OF bind_kernel.unbind_frame [OF assms(2)]] by auto
  next
    case (not_removed err w1)
    then have "fs w1 = fs w" using only_mtabD [OF bind_kernel.unbind_frame [OF assms(2)]] by auto
    then show ?thesis using os_Remove_Some [OF not_removed(4)] not_removed(6,7) by (auto dest: fs_cong)
  next
    case (hold_kept w1 w2 removed)
    then show ?thesis using stays [OF hold_kept(3,4,5)] only_effectsD(2) [OF hold_kept(9)] by simp
  next
    case (hold_dropped w1 w2 w3 removed)
    then show ?thesis
      using stays [OF hold_dropped(3,4,5)] only_effectsD(2) [OF hold_dropped(9)] dropHold_facts(3) [OF hold_dropped(7)]
      by simp
  qed auto
qed

lemma unpublish_never_empties_a_target_witness:
  "\<exists>err w'. NodeUnpublishVolume sample_held
      \<lparr>unpublish_VolumeId = ''data'', unpublish_TargetPath = ''/store''\<rparr> held_world =
      (Inl err, sample_held, w') \<and> fs w' = fs held_world"
proof -
  let ?r = "\<lparr>unpublish_VolumeId = ''data'', unpublish_TargetPath = ''/store''\<rparr>"
  obtain a n' w' where u: "NodeUnpublishVolume sample_held ?r held_world = (a, n', w')"
    by (metis prod.collapse)
  have p: "honest held_world" "dir_at held_world (locate (unpublish_TargetPath ?r))"
    "fs held_world (locate (unpublish_TargetPath ?r) @ [''copies'']) \<noteq> None"
    by code_simp+
  have "bind_kernel (mounts sample_held)" by (simp add: lk.bind_kernel_axioms)
  from unpublish_never_empties_a_target [OF u this p(1,2) disjI1 [OF p(3)]] u show ?thesis by auto
qed

text \<open>
  After an unpublish that succeeds the target is gone, and nothing is mounted at it where it had
  one mount at most. The hold of the handle is given up exactly when it named this target, or
  there was none, and the gauge then shows the holds that are left; every other hold stays.
\<close>

lemma unpublish_done:
  assumes "NodeUnpublishVolume n r w = (Inr (), n', w')" "bind_kernel (mounts n)" "honest w"
  shows "fs w' (locate (unpublish_TargetPath r)) = None"
    "mounted_at w' (locate (unpublish_TargetPath r)) \<Longrightarrow> \<not> distinct (map mnt_point (mtab w))"
    "holder n' h = (if h = unpublish_VolumeId r \<and> \<not> keeps_hold n r then None else holder n h)"
    "\<not> keeps_hold n r \<Longrightarrow> volumes_gauge (effects w') 0 = float64_of (int (length (holds n')))"
proof -
  let ?t = "locate (unpublish_TargetPath r)"
  have gone: "fs w2 ?t = None" "mounted_at w2 ?t \<Longrightarrow> \<not> distinct (map mnt_point (mtab w))"
    if u: "unbind (mounts n) (unpublish_TargetPath r) w = (None, w1)"
      and o: "os_Remove (unpublish_TargetPath r) w1 = (removed, w2)"
      and ok: "\<And>err. removed = Some err \<Longrightarrow> os_IsNotExist err" for w1 w2 removed
  proof -
    show "\<not> distinct (map mnt_point (mtab w))" if "mounted_at w2 ?t"
      using that bind_kernel.unbind_clears(1) [OF assms(2) u] only_fsD(6) [OF os_Remove_only_fs [OF o]] by auto
    show "fs w2 ?t = None"
    proof (cases removed)
      case None
      with o os_Remove_None show ?thesis by fastforce
    next
      case (Some err)
      have "honest w1" using only_mtabD(9) [OF bind_kernel.unbind_frame [OF assms(2) u] assms(3)] .
      then have "fs w1 ?t = None" using os_Remove_not_exist o ok Some by blast
      then show ?thesis using o Some os_Remove_Some by (metis fs_cong)
    qed
  qed
  have "fs w' ?t = None \<and> (mounted_at w' ?t \<longrightarrow> \<not> distinct (map mnt_point (mtab w))) \<and>
    holder n' h = (if h = unpublish_VolumeId r \<and> \<not> keeps_hold n r then None else holder n h) \<and>
    (\<not> keeps_hold n r \<longrightarrow> volumes_gauge (effects w') 0 = float64_of (int (length (holds n'))))"
    using assms(1)
  proof (cases rule: unpublish_cases)
    case (hold_kept w1 w2 removed)
    then show ?thesis
      using gone [OF hold_kept(3,4,5)] only_effectsD(7,11) [OF hold_kept(9)] by auto
  next
    case (hold_dropped w1 w2 w3 removed)
    note D = dropHold_facts [OF hold_dropped(7)]
    note G = gone [OF hold_dropped(3,4,5)]
    have "fs w3 ?t = None" using D(6) [of ?t] G(1) by simp
    moreover have "mounted_at w3 ?t = mounted_at w2 ?t" using D(3) by (simp add: mounted_at_def)
    ultimately show ?thesis
      using hold_dropped(6,10) D(1) D(7) [of 0] only_effectsD(7,11) [OF hold_dropped(9)] G(2)
      by (simp add: holder_def)
  qed auto
  then show "fs w' ?t = None" "mounted_at w' ?t \<Longrightarrow> \<not> distinct (map mnt_point (mtab w))"
    "holder n' h = (if h = unpublish_VolumeId r \<and> \<not> keeps_hold n r then None else holder n h)"
    "\<not> keeps_hold n r \<Longrightarrow> volumes_gauge (effects w') 0 = float64_of (int (length (holds n')))"
    by blast+
qed

text \<open>Where nothing is refused, the unmount, the removal and so the call go through.\<close>

lemma clear_way_absent: "clear_way w p \<Longrightarrow> absent_errno w p = ENOENT"
  by (auto simp: clear_way_def absent_errno_def list_ex_iff list_all_iff)

lemma unpublish_goes_through:
  assumes "answering_kernel (mounts n)" "healthy w"
    and "unpublish_VolumeId r \<noteq> ''''" "unpublish_TargetPath r \<noteq> ''''"
    and "clear_way w (locate (unpublish_TargetPath r))" "locate (unpublish_TargetPath r) \<noteq> []"
    and "child_names w (locate (unpublish_TargetPath r)) = []"
    and "distinct (map mnt_point (mtab w)) \<or> \<not> mounted_at w (locate (unpublish_TargetPath r))"
  shows "\<exists>n' w'. NodeUnpublishVolume n r w = (Inr (), n', w')"
proof -
  let ?t = "locate (unpublish_TargetPath r)"
  have bk: "bind_kernel (mounts n)" using assms(1) by (simp add: answering_kernel_def)
  obtain w1 where u: "unbind (mounts n) (unpublish_TargetPath r) w = (None, w1)" and h1: "healthy w1"
    using answering_kernel.unbind_healthy [OF assms(1,2)] by blast
  note f = only_mtabD [OF bind_kernel.unbind_frame [OF bk u]]
  have m: "\<not> mounted_at w1 ?t"
  proof (cases "mounted_at w ?t")
    case True
    then show ?thesis using assms(8) bind_kernel.unbind_clears(1) [OF bk u] by blast
  next
    case False
    then show ?thesis using bind_kernel.unbind_done [OF bk u] by (simp add: mounted_at_def)
  qed
  have "?t \<in> set (prefixes ?t)" by simp
  then have "fs w ?t = None \<or> dir_at w ?t"
    using assms(5) by (auto simp: clear_way_def list_all_iff simp del: in_set_prefixes)
  then have "child_names w1 ?t = []" "absent_errno w1 ?t = ENOENT" "dir_at w1 ?t \<or> fs w1 ?t = None"
    using assms(7) clear_way_absent [OF assms(5)] child_names_cong [OF f(1)] absent_errno_cong [OF f(1)] f(2,3)
    by auto
  then obtain removed w2 where o: "os_Remove (unpublish_TargetPath r) w1 = (removed, w2)"
    and e: "removed = None \<or> removed = Some (PathError ''remove'' (unpublish_TargetPath r) ENOENT)"
    using os_Remove_healthy [OF h1, of "unpublish_TargetPath r"] m assms(6)
    by (auto simp: Let_def split: if_splits)
  have "fst (NodeUnpublishVolume n r w) = Inr ()"
    using assms(3,4) u o e by (auto simp: NodeUnpublishVolume_def Let_def split: option.split prod.split)
  then show ?thesis by (metis prod.collapse)
qed

text \<open>
  C15. Where nothing is refused an unpublish of an empty target, mounted or not, there or already
  gone, succeeds. Nothing is mounted at the target then and the target is gone. The hold of the
  handle is given up exactly when it named this target, or there was none, and the gauge then
  shows the holds that are left; every other hold stays. The same call once more succeeds too and
  changes no hold.
\<close>

theorem unpublish_releases:
  assumes "answering_kernel (mounts n)" "healthy w" "distinct (map mnt_point (mtab w))"
    and "unpublish_VolumeId r \<noteq> ''''" "unpublish_TargetPath r \<noteq> ''''"
    and "clear_way w (locate (unpublish_TargetPath r))" "locate (unpublish_TargetPath r) \<noteq> []"
    and "child_names w (locate (unpublish_TargetPath r)) = []"
  shows "\<exists>n1 w1 n2 w2. NodeUnpublishVolume n r w = (Inr (), n1, w1) \<and>
    \<not> mounted_at w1 (locate (unpublish_TargetPath r)) \<and>
    fs w1 (locate (unpublish_TargetPath r)) = None \<and>
    (\<forall>h. holder n1 h = (if h = unpublish_VolumeId r \<and> \<not> keeps_hold n r then None else holder n h)) \<and>
    (\<not> keeps_hold n r \<longrightarrow> volumes_gauge (effects w1) 0 = float64_of (int (length (holds n1)))) \<and>
    NodeUnpublishVolume n1 r w1 = (Inr (), n2, w2) \<and> (\<forall>h. holder n2 h = holder n1 h)"
proof -
  let ?t = "locate (unpublish_TargetPath r)"
  have bk: "bind_kernel (mounts n)" using assms(1) by (simp add: answering_kernel_def)
  obtain n1 w1 where u: "NodeUnpublishVolume n r w = (Inr (), n1, w1)"
    using unpublish_goes_through [OF assms(1,2,4-8)] assms(3) by blast
  note D = unpublish_done [OF u bk healthy_honest [OF assms(2)]]
  note T = unpublish_tree [OF u bk]
  have n1: "mounts n1 = mounts n" using arg_cong [OF unpublish_config [OF u], of mounts] by simp
  have h1: "healthy w1" using onwardD(1) [OF T(4) assms(2)] .
  have way: "clear_way w1 ?t" using clear_way_fewer [OF T(2) assms(6)] .
  have children: "child_names w1 ?t = []"
    unfolding child_names_Nil using assms(8) [unfolded child_names_Nil] T(2) by metis
  have free: "\<not> mounted_at w1 ?t" using D(2) assms(3) by blast
  obtain n2 w2 where v: "NodeUnpublishVolume n1 r w1 = (Inr (), n2, w2)"
    using unpublish_goes_through [of n1, unfolded n1, OF assms(1) h1 assms(4,5) way assms(7) children] free by blast
  have "holder n2 h = holder n1 h" for h
    using unpublish_done(3) [OF v _ healthy_honest [OF h1], of h] n1 bk D(3) [of h]
    by (auto simp: keeps_hold_def split: option.splits if_splits)
  with u v D free show ?thesis by blast
qed

lemma unpublish_releases_witness:
  "\<exists>n' w'. NodeUnpublishVolume sample_held sample_unpublish held_world = (Inr (), n', w') \<and>
     \<not> mounted_at w' [''t1''] \<and> fs w' [''t1''] = None \<and> fst (NodeUnpublishVolume n' sample_unpublish w') = Inr ()"
proof -
  have p: "healthy held_world" "distinct (map mnt_point (mtab held_world))"
    "unpublish_VolumeId sample_unpublish \<noteq> ''''" "unpublish_TargetPath sample_unpublish \<noteq> ''''"
    "clear_way held_world (locate (unpublish_TargetPath sample_unpublish))"
    "locate (unpublish_TargetPath sample_unpublish) = [''t1'']"
    "child_names held_world [''t1''] = []"
    by code_simp+
  have "answering_kernel (mounts sample_held)" by (simp add: la.answering_kernel_axioms)
  from unpublish_releases [OF this p(1-5)] p(6,7) show ?thesis by auto
qed

subsection \<open>NodeGetVolumeStats\<close>

lemma stats_measured:
  assumes "stats_VolumeId r \<noteq> ''''" "stats_VolumePath r \<noteq> ''''"
    and "copySize (copyPath (node_store n) (stats_VolumeId r)) w = ((used, None), w1)"
  shows "NodeGetVolumeStats n r w =
    (case space n (root (node_store n)) w1 of
       (Inl err, w2) \<Rightarrow> (Inl (internal err), w2)
     | (Inr (available, all), w2) \<Rightarrow>
         (Inr \<lparr>Used = used, Available = available, Total = all\<rparr>,
          record_bytes (stats_VolumeId r) (sint used) w2))"
  using assms by (simp add: NodeGetVolumeStats_def Let_def)

lemma stats_not_measured:
  assumes "stats_VolumeId r \<noteq> ''''" "stats_VolumePath r \<noteq> ''''"
    and "copySize (copyPath (node_store n) (stats_VolumeId r)) w = ((used, Some err), w1)"
  shows "\<exists>e. NodeGetVolumeStats n r w = (Inl e, w1) \<and> code e = NotFound"
  using assms by (simp add: NodeGetVolumeStats_def Let_def)

text \<open>
  The statistics of an accepted handle are the copy's: the bytes used are the sum of the
  copy's regular files, exact below \<open>2^63\<close>, and the gauge of the handle shows the same number as
  a \<open>float64\<close>; the available and the total bytes are those the filesystem of the store answers. A
  copy that is not there is \<open>NotFound\<close>, and where no call is refused
  \<open>NotFound\<close> means that and nothing else.
\<close>

theorem stats_report_the_copy:
  assumes "checkHandle (stats_VolumeId r) = None" "stats_VolumePath r \<noteq> ''''"
    and "p = copy_place (node_store n) (stats_VolumeId r)"
  shows "case NodeGetVolumeStats n r w of
      (Inr u, w') \<Rightarrow>
        fs w p \<noteq> None \<and> Used u = of_nat (copy_bytes w p) \<and>
        (copy_bytes w p < 2 ^ 63 \<longrightarrow> sint (Used u) = int (copy_bytes w p)) \<and>
        copy_gauge (stats_VolumeId r) (effects w') None = Some (float64_of (sint (Used u))) \<and>
        (\<exists>w1 w2. reads w w1 \<and> space n (root (node_store n)) w1 = (Inr (Available u, Total u), w2))
    | (Inl e, w') \<Rightarrow>
        code e \<in> {NotFound, Internal} \<and> (healthy w \<longrightarrow> (code e = NotFound \<longleftrightarrow> fs w p = None))"
proof -
  note pl = checked_plain [OF assms(1)]
  then have h: "stats_VolumeId r \<noteq> ''''" by (simp add: plain_name_def)
  have p: "locate (copyPath (node_store n) (stats_VolumeId r)) = p"
    by (simp add: assms(3) locate_copyPath [OF pl])
  obtain used e w1 where c: "copySize (copyPath (node_store n) (stats_VolumeId r)) w = ((used, e), w1)"
    by (metis prod.collapse)
  show ?thesis
  proof (cases e)
    case None
    note d = copySize_done [OF c [unfolded None], unfolded p]
    obtain x w2 where s: "space n (root (node_store n)) w1 = (x, w2)" by fastforce
    show ?thesis
      using stats_measured [OF h assms(2) c [unfolded None]] s d
        copySize_reads [OF c]
      by (cases x) (fastforce simp: internal_def sint_int64_of_nat)+
  next
    case (Some err)
    have "healthy w \<Longrightarrow> fs w p = None"
      using copySize_healthy [of w "copyPath (node_store n) (stats_VolumeId r)"] c Some p by (cases "fs w p") auto
    then show ?thesis
      using stats_not_measured [OF h assms(2) c [unfolded Some]] by auto
  qed
qed

lemma stats_report_the_copy_witness:
  "case NodeGetVolumeStats sample_held \<lparr>stats_VolumeId = ''data'', stats_VolumePath = ''/t1''\<rparr> held_world of
      (Inr u, w') \<Rightarrow> Used u = of_nat (copy_bytes held_world [''store'', ''copies'', ''data'']) | (Inl e, w') \<Rightarrow> False"
proof -
  let ?r = "\<lparr>stats_VolumeId = ''data'', stats_VolumePath = ''/t1''\<rparr>"
  obtain x w' where s: "NodeGetVolumeStats sample_held ?r held_world = (x, w')" by fastforce
  have p: "copy_place (node_store sample_held) ''data'' = [''store'', ''copies'', ''data'']"
    "healthy held_world" "fs held_world [''store'', ''copies'', ''data''] \<noteq> None"
    by code_simp+
  have "case fst (NodeGetVolumeStats sample_held ?r held_world) of Inl e \<Rightarrow> False | Inr u \<Rightarrow> True"
    by code_simp
  moreover have "checkHandle (stats_VolumeId ?r) = None" "stats_VolumePath ?r \<noteq> ''''" by simp_all
  ultimately show ?thesis
    using stats_report_the_copy [of ?r "[''store'', ''copies'', ''data'']" sample_held held_world] p s by (cases x) auto
qed

text \<open>
  What an \<open>int64\<close> is worth as the count \<open>i\<close>: it is \<open>i\<close> itself below \<open>2^63\<close> and no longer from
  there on, where it is negative up to \<open>2^64\<close>.
\<close>

definition worth :: "int64 \<Rightarrow> int \<Rightarrow> bool" where
  "worth x i \<longleftrightarrow> (sint x = i \<longleftrightarrow> i < 2 ^ 63) \<and> (2 ^ 63 \<le> i \<and> i < 2 ^ 64 \<longrightarrow> sint x < 0)"

lemma worth_word_of_int:
  assumes "0 \<le> i"
  shows "worth (word_of_int i) i"
proof -
  have s: "sint (word_of_int i :: int64) = signed_take_bit 63 i" by (simp add: signed_of_int)
  have lt: "sint (word_of_int i :: int64) < 2 ^ 63" using sint_lt [of "word_of_int i :: int64"] by simp
  have below: "sint (word_of_int i :: int64) = i" if "i < 2 ^ 63"
    using that assms unfolding s by (simp add: signed_take_bit_int_eq_self)
  have neg: "sint (word_of_int i :: int64) < 0" if "2 ^ 63 \<le> i" "i < 2 ^ 64"
  proof -
    have "take_bit 64 (i + 2 ^ 63) = take_bit 64 (i - 2 ^ 63)"
      by (simp add: take_bit_eq_mod mod_diff_eq [of i] mod_eq_dvd_iff)
    also have "\<dots> = i - 2 ^ 63" using that by (simp add: take_bit_int_eq_self)
    finally show ?thesis using that unfolding s by (simp add: signed_take_bit_eq_take_bit_shift)
  qed
  show ?thesis unfolding worth_def using lt below neg by fastforce
qed

lemma word_times_block: "0 \<le> sint (b :: int64) \<Longrightarrow> worth (x * b) (uint x * sint b)"
  using worth_word_of_int [of "uint x * sint b"] by simp

text \<open>
  C27. The bounds of the numbers in a stats answer, however large the copy and the filesystem are:
  the bytes of the copy, the available and the total bytes are the true counts exactly where those
  are below \<open>2^63\<close>, and turn negative there; the available never exceed the total where the
  filesystem's own numbers do not and the total fits; and the gauge is off from the bytes used by
  at most one part in \<open>2^53\<close>.
\<close>

theorem stats_hold_below_2_63:
  assumes "NodeGetVolumeStats n r w = (Inr u, w')" "space n = spaceOf statfs"
  shows "\<exists>w1 f w2. reads w w1 \<and> statfs (root (node_store n)) w1 = (Inr f, w2) \<and>
    worth (Used u) (int (copy_bytes w (locate (copyPath (node_store n) (stats_VolumeId r))))) \<and>
    (0 \<le> sint (Bsize f) \<longrightarrow>
      worth (Available u) (uint (Bavail f) * sint (Bsize f)) \<and>
      worth (Total u) (uint (Blocks f) * sint (Bsize f)) \<and>
      (Bavail f \<le> Blocks f \<and> uint (Blocks f) * sint (Bsize f) < 2 ^ 63 \<longrightarrow>
        sint (Available u) \<le> sint (Total u))) \<and>
    (\<exists>g. copy_gauge (stats_VolumeId r) (effects w') None = Some g \<and>
      \<bar>g - sint (Used u)\<bar> * 2 ^ 53 \<le> \<bar>sint (Used u)\<bar>)"
proof -
  let ?p = "copyPath (node_store n) (stats_VolumeId r)"
  have h: "stats_VolumeId r \<noteq> ''''" "stats_VolumePath r \<noteq> ''''"
    using assms(1) by (auto simp: NodeGetVolumeStats_def Let_def split: if_splits)
  obtain used e w1 where c: "copySize ?p w = ((used, e), w1)" by (metis prod.collapse)
  have e: "e = None" using assms(1) h c by (cases e) (auto simp: NodeGetVolumeStats_def Let_def)
  obtain x w2 where s: "statfs (root (node_store n)) w1 = (x, w2)" by fastforce
  obtain f where x: "x = Inr f"
    using assms h c s e by (cases x) (auto simp: NodeGetVolumeStats_def spaceOf_def Let_def)
  have u: "u = \<lparr>Used = used, Available = Bavail f * Bsize f, Total = Blocks f * Bsize f\<rparr>"
    "w' = record_bytes (stats_VolumeId r) (sint used) w2"
    using assms h c s e x by (auto simp: NodeGetVolumeStats_def spaceOf_def Let_def)
  have "worth (Used u) (int (copy_bytes w (locate ?p)))"
    using copySize_done(2) [OF c [unfolded e]] worth_word_of_int [of "int (copy_bytes w (locate ?p))"] u(1)
    by simp
  moreover have "sint (Available u) \<le> sint (Total u)"
    if "0 \<le> sint (Bsize f)" "Bavail f \<le> Blocks f" "uint (Blocks f) * sint (Bsize f) < 2 ^ 63"
  proof -
    have "uint (Bavail f) * sint (Bsize f) \<le> uint (Blocks f) * sint (Bsize f)"
      using that(1,2) by (simp add: word_le_def mult_right_mono)
    then show ?thesis
      using word_times_block [OF that(1), of "Bavail f"] word_times_block [OF that(1), of "Blocks f"] that(3) u(1)
      unfolding worth_def by simp
  qed
  ultimately show ?thesis
    using copySize_reads [OF c] s x word_times_block [of "Bsize f"] u float64_of_close [of "sint used"]
    by (intro exI [of _ w1] exI [of _ f] exI [of _ w2]) simp
qed

lemma stats_hold_below_2_63_witness:
  "let n = newNode linux_calls linux_row (\<lambda>p w. (Inr \<lparr>Bsize = 4096, Bavail = 10, Blocks = 2 ^ 51\<rparr>, w)) ''worker-1'' ''/store''
         (node_events sample_node);
       r = \<lparr>stats_VolumeId = ''data'', stats_VolumePath = ''/t1''\<rparr>
   in case NodeGetVolumeStats n r held_world of
        (Inr u, w') \<Rightarrow> sint (Available u) = 40960 \<and> sint (Total u) < 0 | (Inl e, w') \<Rightarrow> False"
proof -
  let ?statfs = "\<lambda>p w. (Inr \<lparr>Bsize = 4096, Bavail = 10, Blocks = 2 ^ 51\<rparr>, w)"
  let ?n = "newNode linux_calls linux_row ?statfs ''worker-1'' ''/store'' (node_events sample_node)"
  let ?r = "\<lparr>stats_VolumeId = ''data'', stats_VolumePath = ''/t1''\<rparr>"
  obtain x w' where s: "NodeGetVolumeStats ?n ?r held_world = (x, w')" by fastforce
  have "case fst (NodeGetVolumeStats ?n ?r held_world) of Inl e \<Rightarrow> False | Inr u \<Rightarrow> True" by code_simp
  then obtain u where x: "x = Inr u" using s by (cases x) auto
  have "space ?n = spaceOf ?statfs" by (simp add: newNode_def)
  from stats_hold_below_2_63 [OF s [unfolded x] this]
  show ?thesis using s x by (auto simp: worth_def)
qed

subsection \<open>A volume id that nothing checks\<close>

lemma locate_holdPath_up:
  assumes "plain_name x"
  shows "locate (holdPath s (''../copies/'' @ x)) = copy_place s x"
proof -
  have "''../copies/'' @ x = ''..'' @ slash # ''copies'' @ slash # x" by simp
  then have "elems (''../copies/'' @ x) = elems ''..'' @ elems ''copies'' @ elems x"
    by (metis elems_append)
  moreover have "elems ''..'' = [''..'']" by (simp add: elems_noslash)
  moreover have "elems ''copies'' = [''copies'']" by (simp add: elems_noslash)
  moreover have "elems holdsDirectory = [''holds'']" by (simp add: holdsDirectory_def elems_noslash)
  ultimately have "locate (holdPath s (''../copies/'' @ x)) =
      foldl locate_step [] (elems (root s) @ [''holds'', ''..'', ''copies'', x])"
    using assms by (simp add: holdPath_def locate_Join)
  then show ?thesis
    using assms by (simp add: locate_step_def copy_place_def copies_place_def copiesDirectory_def
        locate_def plain_name_def)
qed

text \<open>
  C30. Unlike a publish, an unpublish does not ask \<open>checkHandle\<close>, and the hold path of
  \<open>../copies/x\<close> is the copy of \<open>x\<close>: an unpublish of that volume id whose target is already
  gone reports success and removes the copy of \<open>x\<close>, where that copy is an empty directory.
\<close>

theorem unpublish_unchecked_id_removes_a_copy:
  assumes "answering_kernel (mounts n)" "healthy w" "plain_name x"
    and "t \<noteq> ''''" "fs w (locate t) = None" "\<not> name_too_long (locate t)"
    and "absent_errno w (locate t) = ENOENT"
    and "dir_at w (copy_place (node_store n) x)" "child_names w (copy_place (node_store n) x) = []"
    and "\<not> mounted_at w (copy_place (node_store n) x)" "\<not> mounted_at w (locate t)"
    and "holder n (''../copies/'' @ x) = None"
  shows "\<exists>n' w'. NodeUnpublishVolume n
      \<lparr>unpublish_VolumeId = ''../copies/'' @ x, unpublish_TargetPath = t\<rparr> w = (Inr (), n', w') \<and>
    fs w' (copy_place (node_store n) x) = None"
proof -
  let ?p = "copy_place (node_store n) x"
  define h where "h = ''../copies/'' @ x"
  have loc: "locate (holdPath (node_store n) h) = ?p"
    unfolding h_def by (rule locate_holdPath_up [OF assms(3)])
  let ?r = "\<lparr>unpublish_VolumeId = h, unpublish_TargetPath = t\<rparr>"
  have bk: "bind_kernel (mounts n)" using assms(1) by (simp add: answering_kernel_def)
  obtain w1 where u: "unbind (mounts n) t w = (None, w1)" and h1: "healthy w1"
    using answering_kernel.unbind_healthy [OF assms(1,2)] by blast
  note f1 = only_mtabD [OF bind_kernel.unbind_frame [OF bk u]]
  have m1: "mounted_at w1 = mounted_at w"
    using bind_kernel.unbind_done [OF bk u] assms(11) by (simp add: mounted_at_def fun_eq_iff)
  obtain w2 where o: "os_Remove t w1 = (Some (PathError ''remove'' t ENOENT), w2)" and h2: "healthy w2"
    using os_Remove_healthy [OF h1, of t] assms(5,7) f1(2) absent_errno_cong [OF f1(1)]
    by (auto simp: Let_def)
  have t2: "tree w2 = tree w" "mounted_at w2 = mounted_at w"
    using os_Remove_Some [OF o] f1(1) m1 only_fsD(6) by auto
  let ?n = "n\<lparr>holds := AList.delete h (holds n)\<rparr>"
  have w3: "fs (reportVolumes ?n w2) = fs w" "dir_at (reportVolumes ?n w2) = dir_at w"
    "mounted_at (reportVolumes ?n w2) = mounted_at w" "tree (reportVolumes ?n w2) = tree w"
    using t2 fs_cong [OF t2(1)] dir_at_cong [OF t2(1)] only_effectsD(1) [OF reportVolumes_only_effects]
    by auto
  have "?p \<noteq> []" by (simp add: copy_place_def)
  moreover have "child_names (reportVolumes ?n w2) ?p = []"
    using assms(9) child_names_cong [OF w3(4)] by simp
  moreover have "fs w ?p \<noteq> None" using assms(8) by (auto simp: dir_at_iff)
  ultimately obtain w4 where d: "os_Remove (holdPath (node_store n) h) (reportVolumes ?n w2) = (None, w4)"
    using os_Remove_healthy [of "reportVolumes ?n w2" "holdPath (node_store n) h"] h2 assms(8,10) w3(1-3)
    by (auto simp: Let_def loc)
  then have dr: "dropHold n h w2 = (?n, w4)" by (simp add: dropHold_def Let_def)
  have "fs w4 ?p = None"
    using os_Remove_None [OF d] by (simp add: loc)
  moreover have "h \<noteq> []" by (simp add: h_def)
  ultimately show ?thesis
    unfolding h_def [symmetric]
    using u o dr assms(4) assms(12) [folded h_def]
    by (simp add: NodeUnpublishVolume_def Let_def forget_def)
qed

lemma unpublish_unchecked_id_removes_a_copy_witness:
  "\<exists>n' w'. NodeUnpublishVolume sample_held
      \<lparr>unpublish_VolumeId = ''../copies/empty'', unpublish_TargetPath = ''/gone''\<rparr>
      (held_world\<lparr>tree := ([''store'', ''copies'', ''empty''], Dir 0x1FF) # tree held_world\<rparr>) = (Inr (), n', w') \<and>
    fs w' [''store'', ''copies'', ''empty''] = None"
proof -
  let ?w = "held_world\<lparr>tree := ([''store'', ''copies'', ''empty''], Dir 0x1FF) # tree held_world\<rparr>"
  have p: "copy_place (node_store sample_held) ''empty'' = [''store'', ''copies'', ''empty'']"
    "healthy ?w" "plain_name ''empty''" "fs ?w (locate ''/gone'') = None" "\<not> name_too_long (locate ''/gone'')"
    "absent_errno ?w (locate ''/gone'') = ENOENT"
    "dir_at ?w [''store'', ''copies'', ''empty'']" "child_names ?w [''store'', ''copies'', ''empty''] = []"
    "\<not> mounted_at ?w [''store'', ''copies'', ''empty'']" "\<not> mounted_at ?w (locate ''/gone'')"
    "holder sample_held (''../copies/'' @ ''empty'') = None"
    by code_simp+
  have "answering_kernel (mounts sample_held)" by (simp add: la.answering_kernel_axioms)
  from unpublish_unchecked_id_removes_a_copy [OF this p(2,3) _ p(4,5,6), unfolded p(1), OF _ p(7-11)]
  show ?thesis by simp
qed

end
