(* ===== verification/Node_Restart.thy ===== *)
theory Node_Restart
  imports Node_Release
begin

section \<open>The restart of the driver\<close>

text \<open>
  \<open>resume\<close> rebuilds the holds from the disk and the mount table. The lemmas run it where no
  call is refused: it restores exactly the holds whose file can be read and whose target is still
  a mount. Together with the publish and the round trip of a hold through JSON this says that the
  rule of one pod per handle survives a restart.
\<close>

subsection \<open>mountedNow where nothing is refused\<close>

definition readable_table :: "(mount_entry \<Rightarrow> string) \<Rightarrow> mount_entry list \<Rightarrow> bool" where
  "readable_table row ms \<longleftrightarrow> list_all (\<lambda>m. length (row m) < maxTokenSize \<and> printable_mount m) ms"

definition mount_points :: "world \<Rightarrow> string list" where
  "mount_points w = map (\<lambda>m. path_text (mnt_point m)) (mtab w)"

lemma mountedNow_healthy:
  assumes "proc_table row" "healthy w" "readable_table row (mtab w)"
  shows "\<exists>w'. mountedNow row mountTable path w = (path \<in> set (mount_points w), w') \<and>
    reads w w' \<and> healthy w'"
proof -
  obtain w1 where 1: "take_fault w = (None, w1)" "mtab w1 = mtab w"
    using assms(2) by (rule take_fault_healthy_obtain)
  have h1: "healthy w1" "reads w w1"
    using take_fault_reads [OF 1(1)] assms(2) by (auto simp: reads_def dest: only_fsD(7))
  obtain w2 where 2: "take_fault w1 = (None, w2)"
    using h1(1) by (rule take_fault_healthy_obtain)
  have h2: "healthy w2" "reads w w2"
    using take_fault_reads [OF 2] h1 by (auto simp: reads_def dest: only_fsD(7) intro: only_fs_trans)
  have "mountedIn (table_text row (mtab w)) path \<longleftrightarrow> path \<in> set (mount_points w)"
    using proc_table.mountedIn_table [OF assms(1), of "mtab w" path] assms(3)
    by (simp add: readable_table_def mount_points_def list_all_iff)
  then show ?thesis using 1 2 h2 by (simp add: mountedNow_def open_and_read_def)
qed

subsection \<open>resume where nothing is refused\<close>

definition asks_kernel :: "node \<Rightarrow> mount_entry list \<Rightarrow> bool" where
  "asks_kernel n ms \<longleftrightarrow>
     (\<forall>t w. healthy w \<longrightarrow> mtab w = ms \<longrightarrow>
        (\<exists>w'. mounted n t w = (t \<in> set (mount_points w), w') \<and> reads w w' \<and> healthy w'))"

lemma newNode_asks_kernel:
  "proc_table row \<Longrightarrow> readable_table row ms \<Longrightarrow>
     asks_kernel (newNode calls row statfs node_id store_root posting) ms"
  using mountedNow_healthy by (simp add: asks_kernel_def newNode_def)

text \<open>The hold that the disk and the mount table say still stands.\<close>

definition standing :: "store \<Rightarrow> world \<Rightarrow> string \<Rightarrow> hold option" where
  "standing s w h =
     (case fs w (hold_place s h) of
        Some (Reg m content) \<Rightarrow>
          (case json_Unmarshal content of
             Inl err \<Rightarrow> None
           | Inr k \<Rightarrow> if Target k \<in> set (mount_points w) then Some k else None)
      | _ \<Rightarrow> None)"

lemma mount_points_cong: "mtab w = mtab w' \<Longrightarrow> mount_points w = mount_points w'"
  by (simp add: mount_points_def)

lemma readHold_healthy:
  assumes "healthy w" "plain_name h"
  obtains r w1 where "readHold (holdPath s h) w = (r, w1)" "reads w w1" "healthy w1"
    "\<And>m c. fs w (hold_place s h) = Some (Reg m c) \<Longrightarrow> r = json_Unmarshal c"
    "(\<nexists>m c. fs w (hold_place s h) = Some (Reg m c)) \<Longrightarrow> \<exists>err. r = Inl err"
proof -
  obtain x w1 where f: "os_ReadFile (holdPath s h) w = (x, w1)" by fastforce
  have r: "reads w w1" using os_ReadFile_reads [OF f] .
  have h1: "healthy w1" using r assms(1) by (auto simp: reads_def dest: only_fsD(7))
  let ?r = "case x of Inl e \<Rightarrow> Inl e | Inr c \<Rightarrow> json_Unmarshal c"
  show thesis
  proof (rule that [of ?r w1])
    show "readHold (holdPath s h) w = (?r, w1)" using f by (simp add: readHold_def split: sum.splits)
    show "?r = json_Unmarshal c" if "fs w (hold_place s h) = Some (Reg m c)" for m c
      using os_ReadFile_healthy [OF assms(1), of "holdPath s h" m c] that f
      by (auto simp: locate_holdPath [OF assms(2)])
    show "\<exists>err. ?r = Inl err" if "\<nexists>m c. fs w (hold_place s h) = Some (Reg m c)"
      using os_ReadFile_Inr [of "holdPath s h" w _ w1] f that
      by (cases x) (auto simp: locate_holdPath [OF assms(2)])
  qed (use r h1 in auto)
qed

lemma resume_entry_healthy:
  assumes "healthy w" "plain_name h" "asks_kernel n (mtab w)" "resume_entry h n w = (n', w')"
  shows "healthy w' \<and> mtab w' = mtab w \<and> n' = n\<lparr>holds := holds n'\<rparr> \<and>
    (\<forall>q. q \<noteq> hold_place (node_store n) h \<longrightarrow> fs w' q = fs w q) \<and>
    (\<forall>h'. holder n' h' = (if h' = h then standing (node_store n) w h else holder n h'))"
proof -
  let ?s = "node_store n"
  obtain r w1 where rd: "readHold (holdPath ?s h) w = (r, w1)" "reads w w1" "healthy w1"
    and reg: "\<And>m c. fs w (hold_place ?s h) = Some (Reg m c) \<Longrightarrow> r = json_Unmarshal c"
    and other: "(\<nexists>m c. fs w (hold_place ?s h) = Some (Reg m c)) \<Longrightarrow> \<exists>err. r = Inl err"
    using readHold_healthy [OF assms(1,2), of ?s] by metis
  note R = readsD [OF rd(2)]
  have m1: "mtab w1 = mtab w" using R(4) by (simp add: only_fs_def)
  have drop: ?thesis if d: "dropHold n h (emit e v) = (n', w')" and v: "fs v = fs w" "mtab v = mtab w"
      "healthy v" and none: "standing ?s w h = None" for e v
  proof -
    note D = dropHold_facts [OF d]
    have "healthy w'" using onwardD(1) [OF D(2)] v(3) by simp
    moreover have "\<forall>q. q \<noteq> hold_place ?s h \<longrightarrow> fs w' q = fs w q"
      using D(5) v(1) by (simp add: locate_holdPath [OF assms(2)])
    ultimately show ?thesis using D(1,3) v(2) none by (simp add: holder_def)
  qed
  show ?thesis
  proof (cases r)
    case (Inl err)
    then have "standing ?s w h = None"
      by (auto simp: standing_def dest!: reg split: option.splits inode.splits sum.splits)
    then show ?thesis
      using drop [of _ w1] assms(4) rd Inl R(1) m1 by (simp add: resume_entry_def)
  next
    case (Inr k)
    then obtain m c where f: "fs w (hold_place ?s h) = Some (Reg m c)" and u: "json_Unmarshal c = Inr k"
      using reg other by fastforce
    obtain w2 where mt: "mounted n (Target k) w1 = (Target k \<in> set (mount_points w1), w2)"
      "reads w1 w2" "healthy w2"
      using assms(3) rd(3) m1 unfolding asks_kernel_def by blast
    note R2 = readsD [OF mt(2)]
    have v: "fs w2 = fs w" "mtab w2 = mtab w" "mount_points w1 = mount_points w"
      using R(1) R2(1) only_fsD(1) [OF R2(4)] m1 mount_points_cong [OF m1] by simp_all
    show ?thesis
    proof (cases "Target k \<in> set (mount_points w)")
      case True
      have "resume_entry h n w = (n\<lparr>holds := AList.update h k (holds n)\<rparr>, w2)"
        using rd(1) Inr mt(1) True v(3) by (simp add: resume_entry_def)
      then have "n' = n\<lparr>holds := AList.update h k (holds n)\<rparr>" "w' = w2"
        using assms(4) by simp_all
      moreover have "standing ?s w h = Some k" using f u True by (simp add: standing_def)
      ultimately show ?thesis using mt(3) v(1,2) by (simp add: holder_def)
    next
      case False
      then have "standing ?s w h = None" using f u by (simp add: standing_def)
      then show ?thesis
        using drop [of _ w2] assms(4) rd Inr mt v False by (simp add: resume_entry_def)
    qed
  qed
qed

lemma standing_cong:
  "fs w (hold_place s h) = fs w' (hold_place s h) \<Longrightarrow> mtab w = mtab w' \<Longrightarrow> standing s w h = standing s w' h"
  using mount_points_cong [of w w']
  by (simp add: standing_def split: option.split inode.split sum.split)

lemma resume_entries_healthy:
  "healthy w \<Longrightarrow> distinct hs \<Longrightarrow> \<forall>h \<in> set hs. plain_name h \<Longrightarrow> asks_kernel n (mtab w) \<Longrightarrow>
     resume_entries hs n w = (n', w') \<Longrightarrow>
     healthy w' \<and> mtab w' = mtab w \<and> n' = n\<lparr>holds := holds n'\<rparr> \<and>
     (\<forall>q. (\<forall>h \<in> set hs. q \<noteq> hold_place (node_store n) h) \<longrightarrow> fs w' q = fs w q) \<and>
     (\<forall>h. holder n' h = (if h \<in> set hs then standing (node_store n) w h else holder n h))"
proof (induction hs arbitrary: n w)
  case (Cons h hs)
  obtain n1 w1 where e: "resume_entry h n w = (n1, w1)" by fastforce
  have E: "healthy w1" "mtab w1 = mtab w" "n1 = n\<lparr>holds := holds n1\<rparr>"
    "\<And>q. q \<noteq> hold_place (node_store n) h \<Longrightarrow> fs w1 q = fs w q"
    "\<And>h'. holder n1 h' = (if h' = h then standing (node_store n) w h else holder n h')"
    using resume_entry_healthy [OF Cons.prems(1) _ Cons.prems(4) e] Cons.prems(3) by auto
  have s1: "node_store n1 = node_store n" "mounted n1 = mounted n"
    using arg_cong [OF E(3), of node_store] arg_cong [OF E(3), of mounted] by simp_all
  have k1: "asks_kernel n1 (mtab w1)" using Cons.prems(4) E(2) s1(2) by (simp add: asks_kernel_def)
  have rest: "resume_entries hs n1 w1 = (n', w')" using Cons.prems(5) e by simp
  note IH = Cons.IH [OF E(1) _ _ k1 rest]
  have "n' = n1\<lparr>holds := holds n'\<rparr>" using IH Cons.prems(2,3) by auto
  then obtain hx hy where hx: "n1 = n\<lparr>holds := hx\<rparr>" and hy: "n' = n1\<lparr>holds := hy\<rparr>"
    using E(3) by metis
  have n': "n' = n\<lparr>holds := holds n'\<rparr>" by (simp add: hx hy)
  have "standing (node_store n) w1 h' = standing (node_store n) w h'" if "h' \<in> set hs" for h'
  proof (rule standing_cong)
    have "h' \<noteq> h" using that Cons.prems(2) by auto
    then show "fs w1 (hold_place (node_store n) h') = fs w (hold_place (node_store n) h')"
      by (intro E(4)) simp
  qed (rule E(2))
  then show ?case
    using IH Cons.prems(2,3) E s1(1) n' by auto
qed simp

subsection \<open>The whole of resume\<close>

lemma distinct_child_names: "wf_tree w \<Longrightarrow> distinct (child_names w p)"
proof -
  assume "wf_tree w"
  then have d: "distinct (map fst (tree w))" by (simp add: wf_tree_def)
  have "inj_on last {q. q \<noteq> [] \<and> butlast q = p}"
    by (rule inj_onI) (metis (mono_tags, lifting) append_butlast_last_id mem_Collect_eq)
  then have "inj_on last (set (filter (\<lambda>q. q \<noteq> [] \<and> butlast q = p) (map fst (tree w))))"
    by (rule inj_on_subset) auto
  then show ?thesis
    unfolding child_names_def using d by (subst distinct_map) (simp only: distinct_filter simp_thms)
qed

definition plain_holds :: "store \<Rightarrow> world \<Rightarrow> bool" where
  "plain_holds s w \<longleftrightarrow> list_all plain_name (child_names w (holds_place s))"

lemma resume_healthy:
  assumes "healthy w" "wf_tree w" "plain_holds (node_store n) w" "asks_kernel n (mtab w)"
    and "holds n = []" "resume n w = (n', w')"
  shows "holder n' h = (if dir_at w (holds_place (node_store n)) then standing (node_store n) w h else None)"
    "n' = n\<lparr>holds := holds n'\<rparr>" "mtab w' = mtab w" "healthy w'"
    "(\<And>h. q \<noteq> hold_place (node_store n) h) \<Longrightarrow> fs w' q = fs w q"
proof -
  let ?s = "node_store n" let ?d = "filepath_Join [root ?s, holdsDirectory]"
  have "(\<forall>h. holder n' h = (if dir_at w (holds_place ?s) then standing ?s w h else None)) \<and>
      n' = n\<lparr>holds := holds n'\<rparr> \<and> mtab w' = mtab w \<and> healthy w' \<and>
      ((\<forall>h. q \<noteq> hold_place ?s h) \<longrightarrow> fs w' q = fs w q)"
  proof (cases "dir_at w (holds_place ?s)")
    case True
    let ?hs = "sort (child_names w (holds_place ?s))"
    obtain w1 where rd: "os_ReadDir ?d w = (Inr ?hs, w1)" and h1: "healthy w1"
      using os_ReadDir_healthy [OF assms(1), of ?d] True by (auto simp: locate_holds)
    note R = readsD [OF os_ReadDir_reads [OF rd]]
    have m1: "mtab w1 = mtab w" using only_fsD(1) [OF R(4)] .
    obtain n2 w2 where e: "resume_entries ?hs n w1 = (n2, w2)" by fastforce
    have k1: "asks_kernel n (mtab w1)" using assms(4) m1 by simp
    have E: "healthy w2" "mtab w2 = mtab w1" "n2 = n\<lparr>holds := holds n2\<rparr>"
      "\<And>q. \<forall>h \<in> set ?hs. q \<noteq> hold_place ?s h \<Longrightarrow> fs w2 q = fs w1 q"
      "\<And>h. holder n2 h = (if h \<in> set ?hs then standing ?s w1 h else holder n h)"
      using resume_entries_healthy [OF h1 _ _ k1 e] distinct_child_names [OF assms(2)] assms(3)
      by (auto simp: plain_holds_def list_all_iff)
    have out: "n' = n2" "w' = reportVolumes n2 w2"
      using assms(6) rd e by (auto simp: resume_def)
    have st: "standing ?s w1 = standing ?s w"
      using standing_cong [of w1 ?s _ w] R(1) m1 by (simp add: fun_eq_iff)
    have "h \<notin> set (child_names w (holds_place ?s)) \<Longrightarrow> standing ?s w h = None" for h
      by (simp add: child_names_iff standing_def hold_place_def)
    then have "holder n2 h = standing ?s w h" for h
      using E(5) [of h] assms(5) st by (simp add: holder_def)
    moreover have "healthy w'" "mtab w' = mtab w" "fs w' = fs w2"
      using E(1,2) m1 out by simp_all
    ultimately show ?thesis using True E(3,4) out R(1) by simp
  next
    case False
    obtain r w1 where rd: "os_ReadDir ?d w = (r, w1)" by fastforce
    note R = readsD [OF os_ReadDir_reads [OF rd]]
    obtain err where "r = Inl err"
      using os_ReadDir_Inr [of ?d w _ w1] rd False by (cases r) (auto simp: locate_holds)
    then have "n' = n" "w' = w1" using assms(6) rd by (simp_all add: resume_def)
    then show ?thesis
      using False assms(1,5) only_fsD(1,7) [OF R(4)] R(1) by (simp add: holder_def)
  qed
  then show "holder n' h = (if dir_at w (holds_place ?s) then standing ?s w h else None)"
    "n' = n\<lparr>holds := holds n'\<rparr>" "mtab w' = mtab w" "healthy w'"
    "(\<And>h. q \<noteq> hold_place ?s h) \<Longrightarrow> fs w' q = fs w q"
    by auto
qed

subsection \<open>Properties\<close>

definition sample_statfs :: statfs_call where
  "sample_statfs path w = (Inr \<lparr>Bsize = 4096, Bavail = 10, Blocks = 20\<rparr>, w)"

definition started_world :: world where
  "started_world = held_world\<lparr>tree := AList.update [''store'', ''holds'', ''data'']
     (Reg 0x180 ''{\"podUid\":\"u1\",\"podName\":\"pod\",\"podNamespace\":\"default\",\"targetPath\":\"/t1\"}'')
     (tree held_world)\<rparr>"

lemma started_hold:
  "json_Marshal \<lparr>PodUID = ''u1'', PodName = ''pod'', PodNamespace = ''default'', Target = ''/t1''\<rparr> =
     ''{\"podUid\":\"u1\",\"podName\":\"pod\",\"podNamespace\":\"default\",\"targetPath\":\"/t1\"}''"
  by code_simp

text \<open>
  C8. A driver that starts takes back exactly the holds that still stand, where no call is
  refused: for every handle the pod that holds it afterwards is the one its file names, when the
  file can be read as a hold and the mount table has a mount at its target, and no pod otherwise.
  The mount table, the copies and everything else outside \<open>holds/\<close> stay as they were.
\<close>

theorem resume_restores_what_stands:
  assumes "proc_table row" "readable_table row (mtab w)" "healthy w" "wf_tree w"
    and "n = newNode calls row statfs node_id store_root posting"
    and "plain_holds (node_store n) w" "dir_at w (holds_place (node_store n))"
    and "resume n w = (n', w')"
  shows "(\<forall>h k. holder n' h = Some k \<longleftrightarrow>
      (\<exists>m content. fs w (hold_place (node_store n) h) = Some (Reg m content) \<and>
        json_Unmarshal content = Inr k \<and> Target k \<in> set (mount_points w))) \<and>
    mtab w' = mtab w \<and>
    (\<forall>q. \<not> prefix (holds_place (node_store n)) q \<longrightarrow> fs w' q = fs w q)"
proof -
  have k: "asks_kernel n (mtab w)" using newNode_asks_kernel [OF assms(1,2)] assms(5) by simp
  have e: "holds n = []" by (simp add: assms(5) newNode_def)
  note R = resume_healthy [OF assms(3,4,6) k e assms(8)]
  have "standing (node_store n) w h = Some k \<longleftrightarrow>
      (\<exists>m content. fs w (hold_place (node_store n) h) = Some (Reg m content) \<and>
        json_Unmarshal content = Inr k \<and> Target k \<in> set (mount_points w))" for h k
    by (auto simp: standing_def split: option.splits inode.splits sum.splits if_splits)
  moreover have "fs w' q = fs w q" if "\<not> prefix (holds_place (node_store n)) q" for q
  proof (rule R(5))
    show "q \<noteq> hold_place (node_store n) h" for h using that by (auto simp: hold_place_def)
  qed
  ultimately show ?thesis using R(1,3) assms(7) by simp
qed

lemma sample_table:
  "readable_table linux_row
     [\<lparr>mnt_point = [''t1''], mnt_source = [''store'', ''copies'', ''data''], mnt_ro = False\<rparr>]"
  by (simp add: readable_table_def maxTokenSize_def linux_row_def printable_mount_def path_text_def
      word_def space_width.simps ascii_space_def less_eq_char_def backslash_def)

lemma resume_restores_what_stands_witness:
  "\<exists>n' w'. resume (newNode linux_calls linux_row sample_statfs ''worker-1'' ''/store'' (node_events sample_node))
      started_world = (n', w') \<and>
    holder n' ''data'' = Some \<lparr>PodUID = ''u1'', PodName = ''pod'', PodNamespace = ''default'', Target = ''/t1''\<rparr>"
proof -
  let ?n = "newNode linux_calls linux_row sample_statfs ''worker-1'' ''/store'' (node_events sample_node)"
  let ?k = "\<lparr>PodUID = ''u1'', PodName = ''pod'', PodNamespace = ''default'', Target = ''/t1''\<rparr>"
  obtain n' w' where r: "resume ?n started_world = (n', w')" by fastforce
  have s: "node_store ?n = \<lparr>root = ''/store''\<rparr>" by (simp add: newNode_def newStore_def)
  have mt: "mtab started_world =
      [\<lparr>mnt_point = [''t1''], mnt_source = [''store'', ''copies'', ''data''], mnt_ro = False\<rparr>]"
    by code_simp
  have table: "readable_table linux_row (mtab started_world)"
    using sample_table by (simp only: mt)
  have p: "healthy started_world" "wf_tree started_world"
    "plain_holds \<lparr>root = ''/store''\<rparr> started_world"
    "dir_at started_world (holds_place \<lparr>root = ''/store''\<rparr>)"
    "fs started_world (hold_place \<lparr>root = ''/store''\<rparr> ''data'') = Some (Reg 0x180 (json_Marshal ?k))"
    "''/t1'' \<in> set (mount_points started_world)" "utf8_hold ?k"
    unfolding started_hold by code_simp+
  show ?thesis
    using resume_restores_what_stands [OF lr.proc_table_axioms table p(1,2) refl _ _ r] s p(3-6)
      Unmarshal_Marshal [OF p(7)] r by auto
qed

text \<open>
  C9. The rule of one pod per node per handle survives a restart of the driver. Where no call is
  refused, after a publish and a start of a new driver on the same store the same pod holds the
  handle at the same target, and a publish of the handle by any other pod is refused with
  \<open>FailedPrecondition\<close>. The pod's texts are valid UTF-8 and the target is an absolute clean
  path, as the kubelet's are.
\<close>

theorem restart_keeps_the_rule:
  assumes "may_mount n r" "answering_kernel (mounts n)" "healthy w" "wf_tree w"
    and "store_ready n (publish_VolumeId r) w" "clear_way w (locate (publish_TargetPath r))"
    and "\<not> prefix (hold_place (node_store n) (publish_VolumeId r)) (locate (publish_TargetPath r))"
    and "NodePublishVolume n r w = (Inr (), n1, w1)"
    and "k = hold_for (podOf (publish_VolumeContext r)) (publish_TargetPath r)"
    and "utf8_hold k" "path_text (locate (publish_TargetPath r)) = publish_TargetPath r"
    and "proc_table row" "readable_table row (mtab w1)" "plain_holds (node_store n) w1"
    and "resume (newNode calls row statfs node_id (root (node_store n)) posting) w1 = (n2, w2)"
  shows "holder n2 (publish_VolumeId r) = Some k \<and>
    (\<forall>r' v. publish_VolumeId r' = publish_VolumeId r \<longrightarrow> publish_TargetPath r' \<noteq> '''' \<longrightarrow>
      uid (podOf (publish_VolumeContext r')) \<noteq> PodUID k \<longrightarrow>
      (\<exists>err v'. NodePublishVolume n2 r' v = (Inl err, n2, v') \<and> code err = FailedPrecondition \<and>
        mtab v' = mtab v))"
proof -
  let ?h = "publish_VolumeId r" and ?t = "publish_TargetPath r"
  let ?f = "newNode calls row statfs node_id (root (node_store n)) posting"
  have bk: "bind_kernel (mounts n)" using assms(2) by (simp add: answering_kernel_def)
  note pl = may_mount_plain [OF assms(1)]
  obtain v1 n3 v2 d where m: "node_mount n r ?h ?t w = (None, v1)"
    and kp: "keepHold n ?h k v1 = (n3, v2)" and hv: "healthy v2" "wf_tree v2"
    and f: "fs v2 (hold_place (node_store n) ?h) = Some (Reg d (json_Marshal k))"
    using publish_stages_healthy [OF assms(1-7)] assms(9) by auto
  have w1: "healthy w1" "wf_tree w1" "mtab w1 = mtab v1" "fs w1 = fs v2"
    using publish_mounted [OF assms(1) m kp [unfolded assms(9)]] assms(8) hv keepHold_facts(3) [OF kp pl]
    by auto
  have s: "node_store ?f = node_store n" by (simp add: newNode_def newStore_def)
  have mp: "Target k \<in> set (mount_points w1)"
    using node_mount_done(1) [OF m pl bk] w1(3) assms(9,11) by (simp add: mount_points_def)
  have "fs w1 (holds_place (node_store n) @ [?h]) \<noteq> None" using f w1(4) by (simp add: hold_place_def)
  then have dir: "dir_at w1 (holds_place (node_store n))"
    using w1(2) by (fastforce simp: wf_tree_fs)
  have k: "asks_kernel ?f (mtab w1)" using newNode_asks_kernel [OF assms(12,13)] .
  have "holder n2 ?h = standing (node_store n) w1 ?h"
    using resume_healthy(1) [OF w1(1,2) _ k _ assms(15)] assms(14) s dir by (simp add: newNode_def)
  also have "\<dots> = Some k"
    using f w1(4) mp Unmarshal_Marshal [OF assms(10)] by (simp add: standing_def)
  finally have hk: "holder n2 ?h = Some k" .
  have c: "checkHandle ?h = None" using assms(1) by (simp add: may_mount_def)
  have "\<exists>err v'. NodePublishVolume n2 r' v = (Inl err, n2, v') \<and> code err = FailedPrecondition \<and> mtab v' = mtab v"
    if "publish_VolumeId r' = ?h" "publish_TargetPath r' \<noteq> ''''"
      "uid (podOf (publish_VolumeContext r')) \<noteq> PodUID k" for r' v
    using publish_held [of r' n2 k v] that c hk by (simp add: held_by_def post_frame)
  with hk show ?thesis by blast
qed

lemma restart_keeps_the_rule_witness:
  "\<exists>n1 w1 n2 w2.
    NodePublishVolume sample_node (sample_publish ''u1'' ''/t1'') sample_world = (Inr (), n1, w1) \<and>
    resume (newNode linux_calls linux_row sample_statfs ''worker-1'' ''/store'' (node_events sample_node)) w1
      = (n2, w2) \<and>
    holder n2 ''data'' = Some (hold_for (podOf (sample_context ''u1'')) ''/t1'')"
proof -
  obtain n1 w1 where
    p: "NodePublishVolume sample_node (sample_publish ''u1'' ''/t1'') sample_world = (Inr (), n1, w1)"
    using sample_publish_done by blast
  have "case NodePublishVolume sample_node (sample_publish ''u1'' ''/t1'') sample_world of (a, n', w') \<Rightarrow>
      mtab w' = [\<lparr>mnt_point = [''t1''], mnt_source = [''store'', ''copies'', ''data''], mnt_ro = False\<rparr>] \<and>
      plain_holds \<lparr>root = ''/store''\<rparr> w'"
    by code_simp
  then have mt: "mtab w1 = [\<lparr>mnt_point = [''t1''], mnt_source = [''store'', ''copies'', ''data''], mnt_ro = False\<rparr>]"
    and ph: "plain_holds \<lparr>root = ''/store''\<rparr> w1"
    using p by simp_all
  have table: "readable_table linux_row (mtab w1)"
    using sample_table by (simp only: mt)
  obtain n2 w2 where r: "resume (newNode linux_calls linux_row sample_statfs ''worker-1'' ''/store''
      (node_events sample_node)) w1 = (n2, w2)" by fastforce
  have u: "utf8_hold (hold_for (podOf (sample_context ''u1'')) ''/t1'')" "path_text (locate ''/t1'') = ''/t1''"
    by code_simp+
  have "may_mount sample_node (sample_publish ''u1'' ''/t1'')" "answering_kernel (mounts sample_node)"
    by (simp_all add: la.answering_kernel_axioms)
  from restart_keeps_the_rule [OF this sample_healthy _ _ _ p refl _ _ lr.proc_table_axioms table,
      of linux_calls sample_statfs "''worker-1''" "node_events sample_node" n2 w2]
  have "holder n2 ''data'' = Some (hold_for (podOf (sample_context ''u1'')) ''/t1'')"
    using sample_ready u ph r by simp
  with p r show ?thesis by blast
qed

end
