(* ===== verification/Sweep.thy ===== *)
theory Sweep
  imports Node_Release
begin

section \<open>sweep.go: the removal of orphaned copies\<close>

text \<open>
  The filter on the informer's cache, one pass of the sweep, the one-slot channel that wakes it,
  the count of watches, and the loop of \<open>follow\<close> as a step relation between the informer, the
  ticker and the loop. A Go map from handles to \<open>true\<close> is the list of its keys.
\<close>

subsection \<open>handlesOf, dropManagedFields\<close>

text \<open>What the driver reads of an object: \<open>spec.csi\<close> and \<open>metadata.managedFields\<close>.\<close>

record csi_source =
  Driver :: string
  VolumeHandle :: string

record persistent_volume =
  managedFields :: "string list"
  spec_CSI :: "csi_source option"

text \<open>
  What the cache may hold: a PersistentVolume, another API object, or a value that is none (the
  placeholder client-go stores for a deletion it missed).
\<close>

datatype object =
    PersistentVolume persistent_volume
  | OtherObject "string list"
  | NoObject

fun handlesOf :: "object list \<Rightarrow> string list" where
  "handlesOf [] = []"
| "handlesOf (PersistentVolume held # objects) =
     (case spec_CSI held of
        None \<Rightarrow> handlesOf objects
      | Some source \<Rightarrow>
          if Driver source \<noteq> driverName then handlesOf objects
          else VolumeHandle source # handlesOf objects)"
| "handlesOf (OtherObject mf # objects) = handlesOf objects"
| "handlesOf (NoObject # objects) = handlesOf objects"

fun dropManagedFields :: "object \<Rightarrow> object" where
  "dropManagedFields (PersistentVolume v) = PersistentVolume (v\<lparr>managedFields := []\<rparr>)"
| "dropManagedFields (OtherObject mf) = OtherObject []"
| "dropManagedFields NoObject = NoObject"

subsection \<open>One pass\<close>

fun sweep_handles :: "node \<Rightarrow> string list \<Rightarrow> string list \<Rightarrow> string list \<Rightarrow> world \<Rightarrow> world" where
  "sweep_handles n named held [] w = w"
| "sweep_handles n named held (handle # hs) w =
     (if handle \<in> set named \<or> handle \<in> set held then sweep_handles n named held hs w
      else case removeCopy (node_store n) handle w of
        (Some err, w) \<Rightarrow>
          sweep_handles n named held hs
            (emit (Logged LogWarn ''the copy stayed'' [(''volume'', Str handle), (''error'', Err err)]) w)
      | (None, w) \<Rightarrow>
          sweep_handles n named held hs
            (emit (Logged LogInfo ''swept the copy'' [(''volume'', Str handle)]) (forget handle w)))"

definition sweep :: "node \<Rightarrow> string list \<Rightarrow> world \<Rightarrow> world" where
  "sweep n named w =
     (let held = heldHandles n
      in case handles (node_store n) w of (hs, w) \<Rightarrow> sweep_handles n named held hs w)"

subsection \<open>What a pass does\<close>

definition plain_copies :: "store \<Rightarrow> world \<Rightarrow> bool" where
  "plain_copies s w \<longleftrightarrow> list_all plain_name (child_names w (copies_place s))"

lemma holder_heldHandles: "h \<in> set (heldHandles n) \<longleftrightarrow> holder n h \<noteq> None"
  by (simp add: heldHandles_def holder_def map_of_eq_None_iff)

lemma sweep_handles_facts:
  assumes "\<forall>h \<in> set hs. plain_name h"
  shows "onward w (sweep_handles n named held hs w)"
    "mtab (sweep_handles n named held hs w) = mtab w"
    "wf_tree w \<Longrightarrow> wf_tree (sweep_handles n named held hs w)"
    "(\<And>h. h \<in> set hs \<Longrightarrow> h \<notin> set named \<Longrightarrow> h \<notin> set held \<Longrightarrow> \<not> prefix (copy_place (node_store n) h) q) \<Longrightarrow>
      fs (sweep_handles n named held hs w) q = fs w q"
    "fs (sweep_handles n named held hs w) q = fs w q \<or> fs (sweep_handles n named held hs w) q = None"
    "volumes_gauge (effects (sweep_handles n named held hs w)) = volumes_gauge (effects w)"
    "posted (effects (sweep_handles n named held hs w)) = posted (effects w)"
proof -
  let ?P = "\<lambda>hs w. onward w (sweep_handles n named held hs w) \<and>
    mtab (sweep_handles n named held hs w) = mtab w \<and>
    (wf_tree w \<longrightarrow> wf_tree (sweep_handles n named held hs w)) \<and>
    ((\<forall>h \<in> set hs. h \<notin> set named \<longrightarrow> h \<notin> set held \<longrightarrow> \<not> prefix (copy_place (node_store n) h) q) \<longrightarrow>
      fs (sweep_handles n named held hs w) q = fs w q) \<and>
    (fs (sweep_handles n named held hs w) q = fs w q \<or> fs (sweep_handles n named held hs w) q = None) \<and>
    volumes_gauge (effects (sweep_handles n named held hs w)) = volumes_gauge (effects w) \<and>
    posted (effects (sweep_handles n named held hs w)) = posted (effects w)"
  have "?P hs w" using assms
  proof (induction hs arbitrary: w)
    case (Cons h hs)
    show ?case
    proof (cases "h \<in> set named \<or> h \<in> set held")
      case True
      then show ?thesis using Cons by auto
    next
      case False
      obtain r w1 where rc: "removeCopy (node_store n) h w = (r, w1)" by fastforce
      have p: "plain_name h" using Cons.prems by simp
      note R = removeCopy_facts [OF rc p]
      define w2 where "w2 = (case r of
          Some err \<Rightarrow> emit (Logged LogWarn ''the copy stayed'' [(''volume'', Str h), (''error'', Err err)]) w1
        | None \<Rightarrow> emit (Logged LogInfo ''swept the copy'' [(''volume'', Str h)]) (forget h w1))"
      have s: "sweep_handles n named held (h # hs) w = sweep_handles n named held hs w2"
        using False rc by (simp add: w2_def split: option.split)
      have f2: "fs w2 = fs w1" "mtab w2 = mtab w1" "wf_tree w2 = wf_tree w1"
        "volumes_gauge (effects w2) = volumes_gauge (effects w1)" "posted (effects w2) = posted (effects w1)"
        "onward w1 w2"
        by (cases r; force simp: w2_def forget_def onward_def)+
      have w1: "mtab w1 = mtab w" "effects w1 = effects w" "onward w w1"
        using R(1) onward_only_fs by (auto simp: only_fs_def)
      have IH: "?P hs w2" using Cons.IH [of w2] Cons.prems by simp
      show ?thesis
        unfolding s
        using IH f2 w1 R(2) R(3) [of q] R(4) [of q] False
        by (auto intro: onward_trans)
    qed
  qed simp
  then show "onward w (sweep_handles n named held hs w)"
    "mtab (sweep_handles n named held hs w) = mtab w"
    "wf_tree w \<Longrightarrow> wf_tree (sweep_handles n named held hs w)"
    "(\<And>h. h \<in> set hs \<Longrightarrow> h \<notin> set named \<Longrightarrow> h \<notin> set held \<Longrightarrow> \<not> prefix (copy_place (node_store n) h) q) \<Longrightarrow>
      fs (sweep_handles n named held hs w) q = fs w q"
    "fs (sweep_handles n named held hs w) q = fs w q \<or> fs (sweep_handles n named held hs w) q = None"
    "volumes_gauge (effects (sweep_handles n named held hs w)) = volumes_gauge (effects w)"
    "posted (effects (sweep_handles n named held hs w)) = posted (effects w)"
    by (simp_all only: simp_thms) blast?
qed

text \<open>A pass only ever takes handles off the gauge.\<close>

lemma sweep_handles_gauge:
  assumes "\<forall>h \<in> set hs. plain_name h" "copy_gauge x (effects w) g = None"
  shows "copy_gauge x (effects (sweep_handles n named held hs w)) g = None"
  using assms
proof (induction hs arbitrary: w)
  case (Cons h hs)
  obtain r w1 where rc: "removeCopy (node_store n) h w = (r, w1)" by fastforce
  have "effects w1 = effects w"
    using removeCopy_facts(1) [OF rc] Cons.prems(1) by (simp add: only_fs_def)
  then show ?case using Cons rc by (auto simp: forget_def split: option.splits)
qed simp

definition no_mount_below :: "world \<Rightarrow> path \<Rightarrow> bool" where
  "no_mount_below w p \<longleftrightarrow> list_all (\<lambda>m. \<not> prefix p (mnt_point m)) (mtab w)"

lemma removeCopy_healthy:
  assumes "healthy w" "wf_tree w" "plain_name h" "no_mount_below w (copies_place s)"
  shows "\<exists>w'. removeCopy s h w = (None, w') \<and> healthy w'"
proof -
  have "\<not> mounted_at w q" if "prefix (copy_place s h) q" for q
  proof -
    have "prefix (copies_place s) q"
      using that by (auto simp: copy_place_def prefix_def)
    then show ?thesis using assms(4) by (auto simp: no_mount_below_def mounted_at_def list_all_iff)
  qed
  moreover have "copy_place s h \<noteq> []" by (simp add: copy_place_def)
  ultimately show ?thesis
    using os_RemoveAll_healthy [of w "copyPath s h"] assms(1,2)
    by (simp add: removeCopy_def locate_copyPath [OF assms(3)])
qed

lemma sweep_handles_healthy:
  assumes "\<forall>h \<in> set hs. plain_name h" "healthy w" "wf_tree w"
    "no_mount_below w (copies_place (node_store n))"
    "x \<in> set hs" "x \<notin> set named" "x \<notin> set held"
  shows "fs (sweep_handles n named held hs w) (copy_place (node_store n) x) = None \<and>
    copy_gauge x (effects (sweep_handles n named held hs w)) g = None"
  using assms
proof (induction hs arbitrary: w)
  case (Cons h hs)
  show ?case
  proof (cases "h \<in> set named \<or> h \<in> set held")
    case True
    then show ?thesis using Cons by auto
  next
    case False
    have p: "plain_name h" "\<forall>h \<in> set hs. plain_name h" using Cons.prems(1) by auto
    obtain w1 where rc: "removeCopy (node_store n) h w = (None, w1)" and h1: "healthy w1"
      using removeCopy_healthy [OF Cons.prems(2,3) p(1) Cons.prems(4)] by blast
    note R = removeCopy_facts [OF rc p(1)]
    let ?w2 = "emit (Logged LogInfo ''swept the copy'' [(''volume'', Str h)]) (forget h w1)"
    have w2: "healthy ?w2" "wf_tree ?w2" "no_mount_below ?w2 (copies_place (node_store n))"
      using h1 R(2) [OF Cons.prems(3)] Cons.prems(4) only_fsD(1) [OF R(1)]
      by (simp_all add: forget_def no_mount_below_def)
    have s: "sweep_handles n named held (h # hs) w = sweep_handles n named held hs ?w2"
      using False rc by simp
    show ?thesis
    proof (cases "x = h")
      case True
      have "fs ?w2 (copy_place (node_store n) x) = None"
        using R(5) [OF Cons.prems(3) healthy_honest [OF Cons.prems(2)]] True by (simp add: forget_def)
      moreover have "copy_gauge x (effects ?w2) g = None" using True by (simp add: forget_def)
      ultimately show ?thesis
        unfolding s
        using sweep_handles_facts(5) [OF p(2), where n = n and named = named and held = held and w = ?w2 and q = "copy_place (node_store n) x"]
          sweep_handles_gauge [OF p(2), of x ?w2 g] by auto
    next
      case False
      then have "x \<in> set hs" using Cons.prems(5) by simp
      then show ?thesis
        unfolding s using Cons.IH [OF p(2) w2] Cons.prems(6,7) by blast
    qed
  qed
qed simp

lemma handles_plain:
  assumes "handles s w = (hs, w1)" "plain_copies s w"
  shows "\<forall>h \<in> set hs. plain_name h"
  using handles_child [OF assms(1)] assms(2)
  by (auto simp: plain_copies_def list_all_iff child_names_iff copy_place_def)

subsection \<open>Properties of a pass\<close>

text \<open>
  C7. A pass touches no copy that a PersistentVolume of this driver names or that a pod on this
  node holds, whatever the kernel refuses: such a copy and everything in it is as it was. What a
  pass does change is a removal at or below the copy of a handle that is neither, and it changes
  no mount.
\<close>

theorem sweep_removes_only_orphans:
  assumes "plain_copies (node_store n) w" "w' = sweep n named w"
  shows "(\<forall>h q. h \<in> set named \<or> holder n h \<noteq> None \<longrightarrow>
      prefix (copy_place (node_store n) h) q \<longrightarrow> fs w' q = fs w q) \<and>
    (\<forall>q. fs w' q \<noteq> fs w q \<longrightarrow> fs w' q = None \<and>
      (\<exists>h. prefix (copy_place (node_store n) h) q \<and> h \<notin> set named \<and> holder n h = None)) \<and>
    mtab w' = mtab w"
proof -
  obtain hs w1 where h: "handles (node_store n) w = (hs, w1)" by fastforce
  note R = readsD [OF handles_reads [OF h]]
  have w': "w' = sweep_handles n named (heldHandles n) hs w1"
    using assms(2) h by (simp add: sweep_def Let_def)
  note F = sweep_handles_facts [OF handles_plain [OF h assms(1)], where n = n and named = named and held = "heldHandles n" and w = w1, folded w']
  have ch: "\<exists>h. prefix (copy_place (node_store n) h) q \<and> h \<notin> set named \<and> holder n h = None"
    if "fs w' q \<noteq> fs w q" for q
  proof (rule ccontr)
    assume no: "\<nexists>h. prefix (copy_place (node_store n) h) q \<and> h \<notin> set named \<and> holder n h = None"
    have "fs w' q = fs w1 q"
    proof (rule F(4))
      fix h assume "h \<notin> set named" "h \<notin> set (heldHandles n)"
      then show "\<not> prefix (copy_place (node_store n) h) q"
        using no by (auto simp: holder_heldHandles)
    qed
    with that R(1) show False by simp
  qed
  have one: "h = h'" if "prefix (copy_place (node_store n) h) q" "prefix (copy_place (node_store n) h') q"
    for h h' q
    using that prefix_same_cases [OF that] by (auto simp: copy_place_def)
  have none: "fs w' q = None" if "fs w' q \<noteq> fs w q" for q
    using F(5) [of q] that R(1) by auto
  have m: "mtab w' = mtab w" using F(2) only_fsD(1) [OF R(4)] by simp
  show ?thesis
    using ch none one m by metis
qed

text \<open>
  C16. Where no call is refused and nothing is mounted inside the store, a pass removes the copy
  of every handle that no PersistentVolume names and no pod holds, takes it off the gauge, and
  leaves every other copy: after the pass the copies on the node are those that were there and
  are named or held.
\<close>

theorem sweep_removes_every_orphan:
  assumes "healthy w" "wf_tree w" "plain_copies (node_store n) w"
    and "no_mount_below w (copies_place (node_store n))" "dir_at w (copies_place (node_store n))"
    and "w' = sweep n named w"
  shows "(\<forall>h. fs w' (copy_place (node_store n) h) =
      (if h \<in> set named \<or> holder n h \<noteq> None then fs w (copy_place (node_store n) h) else None)) \<and>
    (\<forall>h. fs w (copy_place (node_store n) h) \<noteq> None \<longrightarrow> h \<notin> set named \<longrightarrow> holder n h = None \<longrightarrow>
      copy_gauge h (effects w') None = None)"
proof -
  obtain hs w1 where h: "handles (node_store n) w = (hs, w1)" by fastforce
  note R = readsD [OF handles_reads [OF h]]
  have w': "w' = sweep_handles n named (heldHandles n) hs w1"
    using assms(6) h by (simp add: sweep_def Let_def)
  note pl = handles_plain [OF h assms(3)]
  note F = sweep_handles_facts [OF pl, where n = n and named = named and held = "heldHandles n" and w = w1, folded w']
  have hs: "set hs = {h. fs w (copy_place (node_store n) h) \<noteq> None}"
    using handles_healthy [OF assms(1,5) h] .
  have w1: "healthy w1" "wf_tree w1" "no_mount_below w1 (copies_place (node_store n))"
    using assms(1,2,4) only_fsD(1,7) [OF R(4)] R(6) by (simp_all add: no_mount_below_def)
  note H = sweep_handles_healthy [OF pl w1, where named = named and held = "heldHandles n", folded w']
  have keep: "fs w' (copy_place (node_store n) h) = fs w (copy_place (node_store n) h)"
    if "h \<in> set named \<or> holder n h \<noteq> None" for h
  proof -
    have "fs w' (copy_place (node_store n) h) = fs w1 (copy_place (node_store n) h)"
    proof (rule F(4))
      fix h' assume "h' \<notin> set named" "h' \<notin> set (heldHandles n)"
      then have "h' \<noteq> h" using that by (auto simp: holder_heldHandles)
      then show "\<not> prefix (copy_place (node_store n) h') (copy_place (node_store n) h)"
        using prefix_copy_place [of "node_store n" h' h "[]"] by simp
    qed
    then show ?thesis using R(1) by simp
  qed
  have gone: "fs w' (copy_place (node_store n) h) = None \<and>
      (fs w (copy_place (node_store n) h) \<noteq> None \<longrightarrow> copy_gauge h (effects w') None = None)"
    if "h \<notin> set named" "holder n h = None" for h
  proof (cases "h \<in> set hs")
    case True
    then show ?thesis using H that by (simp add: holder_heldHandles)
  next
    case False
    then have "fs w (copy_place (node_store n) h) = None" using hs by auto
    then show ?thesis using F(5) [of "copy_place (node_store n) h"] R(1) by auto
  qed
  show ?thesis using keep gone by simp
qed

definition orphan_world :: world where
  "orphan_world =
     held_world\<lparr>tree := ([''store'', ''copies'', ''old''], Dir 0x1FF) #
       ([''store'', ''copies'', ''old'', ''f''], Reg 0x1A4 ''x'') # tree held_world\<rparr>"

lemma sweep_removes_every_orphan_witness:
  "(let w' = sweep sample_held [''pv-1''] orphan_world
    in fs w' [''store'', ''copies'', ''old''] = None \<and> fs w' [''store'', ''copies'', ''data''] = Some (Dir 0x1FF))"
proof -
  have p: "healthy orphan_world" "wf_tree orphan_world" "plain_copies (node_store sample_held) orphan_world"
    "no_mount_below orphan_world (copies_place (node_store sample_held))"
    "dir_at orphan_world (copies_place (node_store sample_held))"
    "copy_place (node_store sample_held) ''old'' = [''store'', ''copies'', ''old'']"
    "copy_place (node_store sample_held) ''data'' = [''store'', ''copies'', ''data'']"
    "fs orphan_world [''store'', ''copies'', ''data''] = Some (Dir 0x1FF)"
    "holder sample_held ''old'' = None" "holder sample_held ''data'' \<noteq> None"
    by code_simp+
  note S = sweep_removes_every_orphan [OF p(1-5) refl, of "[''pv-1'']", THEN conjunct1, rule_format]
  show ?thesis using S [of "''old''"] S [of "''data''"] p(6-10) by (simp add: Let_def)
qed

lemma sweep_removes_only_orphans_witness:
  "fs (sweep sample_held [] orphan_world) [''store'', ''copies'', ''data'', ''f''] =
     fs orphan_world [''store'', ''copies'', ''data'', ''f'']"
proof -
  have p: "plain_copies (node_store sample_held) orphan_world" "holder sample_held ''data'' \<noteq> None"
    "prefix (copy_place (node_store sample_held) ''data'') [''store'', ''copies'', ''data'', ''f'']"
    by code_simp+
  from sweep_removes_only_orphans [OF p(1) refl] p(2,3) show ?thesis by blast
qed

subsection \<open>wake and the count of watches\<close>

text \<open>The channel has one slot; a send to a full one goes nowhere.\<close>

definition wake :: "bool \<Rightarrow> bool" where
  "wake slot = (if slot then slot else True)"

text \<open>
  The watch function of \<open>volumes\<close>: \<open>answer\<close> is the API server's, an error or none, and
  \<open>opened\<close> the flag that it swaps.
\<close>

definition watchedKind :: string where
  "watchedKind = ''PersistentVolume''"

definition watch_volumes :: "string option \<Rightarrow> bool \<Rightarrow> world \<Rightarrow> bool \<times> world" where
  "watch_volumes answer opened w =
     (case answer of
        Some err \<Rightarrow> (opened, w)
      | None \<Rightarrow> (True, if opened then watchRestarted watchedKind w else w))"

fun watch_again :: "string option list \<Rightarrow> bool \<Rightarrow> world \<Rightarrow> bool \<times> world" where
  "watch_again [] opened w = (opened, w)"
| "watch_again (answer # answers) opened w =
     (case watch_volumes answer opened w of (opened, w) \<Rightarrow> watch_again answers opened w)"

lemma watch_again_counts:
  "watch_again answers opened w = (opened', w') \<Longrightarrow>
     restarts_counted (effects w') watchedKind =
       restarts_counted (effects w) watchedKind +
         (count_list answers None - (if opened then 0 else 1))"
proof (induction answers arbitrary: opened w)
  case (Cons a answers)
  then show ?case
    by (cases a; cases opened) (fastforce simp: watch_volumes_def restarts_counted_def)+
qed simp

text \<open>
  The restart counter of the watch counts every watch the API server accepted but the first;
  a refused watch is never counted, and however the answers come the counter never runs ahead of
  the accepted watches.
\<close>

theorem watch_restarts_counted:
  "restarts_counted (effects (snd (watch_again answers False w))) watchedKind =
     restarts_counted (effects w) watchedKind + (count_list answers None - 1)"
  using watch_again_counts [of answers False w] by (metis prod.collapse)

end
