(* ===== verification/Identity.thy ===== *)
theory Identity
  imports Node_Release
begin

section \<open>identity.go: the Identity service\<close>

text \<open>
  The three calls of the Identity service. \<open>Probe\<close> creates and removes a file in the store; the
  random part of the file's name comes from the runtime and is a parameter. The properties: a
  probe never touches anything that was there, and is ready exactly where the store takes a file.
\<close>

record identity =
  identity_store :: string

definition GetPluginInfo :: "string \<Rightarrow> identity \<Rightarrow> status + string \<times> string" where
  "GetPluginInfo version i = Inr (driverName, version)"

definition GetPluginCapabilities :: "identity \<Rightarrow> status + unit list" where
  "GetPluginCapabilities i = Inr []"

text \<open>Closing the file is a call whose answer the code drops.\<close>

definition storeIsWriteable :: "(nat \<Rightarrow> string) \<Rightarrow> identity \<Rightarrow> world \<Rightarrow> bool \<times> world" where
  "storeIsWriteable random i w =
     (case os_CreateTemp random (identity_store i) ''.probe-'' w of
        (Inl err, w) \<Rightarrow> (False, w)
      | (Inr tmp, w) \<Rightarrow>
          (case take_fault w of
             (closed, w) \<Rightarrow> (case os_Remove tmp w of (removed, w) \<Rightarrow> (True, w))))"

definition Probe :: "(nat \<Rightarrow> string) \<Rightarrow> identity \<Rightarrow> world \<Rightarrow> (status + bool) \<times> world" where
  "Probe random i w = (case storeIsWriteable random i w of (ready, w) \<Rightarrow> (Inr ready, w))"

subsection \<open>Creating a temporary file\<close>

lemma join_path_append: "join_path d a @ b = join_path d (a @ b)"
  by (simp add: join_path_def)

lemma locate_join_path:
  assumes "d \<noteq> ''''" "plain_name f"
  shows "locate (join_path d f) = locate d @ [f]"
proof (cases "last d = slash")
  case True
  then obtain t where t: "d = t @ [slash]" using assms(1) by (metis append_butlast_last_id)
  show ?thesis using locate_append [of t f] locate_append [of t "[]"] elems_plain [OF assms(2)] assms(2)
    by (simp add: t join_path_def locate_step_def plain_name_def)
next
  case False
  then show ?thesis using locate_append [of d f] elems_plain [OF assms(2)] assms
    by (simp add: join_path_def locate_step_def plain_name_def)
qed

lemma create_exclusive_facts:
  assumes "create_exclusive p m w = (r, w')"
  shows "only_fs w w'" "r \<noteq> None \<Longrightarrow> fs w' = fs w"
    "r = None \<Longrightarrow> fs w p = None \<and> p \<noteq> [] \<and> dir_at w (butlast p) \<and>
      (\<exists>d. fs w' = (fs w)(p \<mapsto> Reg d '''')) \<and> (wf_tree w \<longrightarrow> wf_tree w')"
proof -
  obtain f w1 where t: "take_fault w = (f, w1)" by fastforce
  note T = readsD [OF take_fault_reads [OF t]]
  show "only_fs w w'" "r \<noteq> None \<Longrightarrow> fs w' = fs w"
    using assms t T by (auto simp: create_exclusive_def split: option.splits prod.splits if_splits)
  show "fs w p = None \<and> p \<noteq> [] \<and> dir_at w (butlast p) \<and>
      (\<exists>d. fs w' = (fs w)(p \<mapsto> Reg d '''')) \<and> (wf_tree w \<longrightarrow> wf_tree w')" if "r = None"
  proof -
    have c: "f = None" "fs w1 p = None" "p \<noteq> []" "dir_at w1 (butlast p)"
      "w' = set_fs p (Reg (m AND NOT (umask w1)) '''') w1"
      using assms t that by (auto simp: create_exclusive_def split: option.splits prod.splits if_splits)
    have "wf_tree w1 \<Longrightarrow> wf_tree w'" unfolding c(5) using c(2-4) by (intro wf_tree_set_fs) (auto simp: dir_at_def)
    then show ?thesis using c T by auto
  qed
qed

lemma create_temp_facts:
  "create_temp k random pre w = (r, w') \<Longrightarrow>
     only_fs w w' \<and>
     (case r of
        Inl err \<Rightarrow> fs w' = fs w
      | Inr tmp \<Rightarrow> fs w (locate tmp) = None \<and> dir_at w (butlast (locate tmp)) \<and>
          (\<exists>d j. fs w' = (fs w)(locate tmp \<mapsto> Reg d '''') \<and> j < k \<and> tmp = pre @ random j))"
proof (induction k arbitrary: w)
  case (Suc k)
  obtain e w1 where c: "create_exclusive (locate (pre @ random k)) 0x180 w = (e, w1)" by fastforce
  note C = create_exclusive_facts [OF c]
  show ?case
  proof (cases e)
    case None
    then show ?thesis using Suc.prems c C by (auto simp: Let_def)
  next
    case (Some x)
    show ?thesis
    proof (cases "x = EEXIST")
      case True
      then have "create_temp k random pre w1 = (r, w')" using Suc.prems c Some by (simp add: Let_def)
      from Suc.IH [OF this] C(1,2) Some show ?thesis
        by (auto simp: dir_at_def split: sum.splits intro: only_fs_trans less_SucI)
    qed (use Suc.prems c Some C(1,2) in \<open>auto simp: Let_def\<close>)
  qed
qed (auto simp: only_fs_def)

lemma create_temp_first:
  "k \<noteq> 0 \<Longrightarrow> create_temp k random pre w =
     (case create_exclusive (locate (pre @ random (k - 1))) 0x180 w of
        (None, w) \<Rightarrow> (Inr (pre @ random (k - 1)), w)
      | (Some e, w) \<Rightarrow>
          if e = EEXIST then create_temp (k - 1) random pre w
          else (Inl (PathError ''open'' (pre @ random (k - 1)) e), w))"
  by (cases k) (simp_all add: Let_def split: prod.split option.split)

subsection \<open>Properties of a probe\<close>

text \<open>
  C32. A probe leaves the node as it found it, whatever the kernel refuses: no place that held
  anything is changed or removed, and the only trace it can leave is its own empty file, and that
  only where it answers that the store is ready. Where nothing is refused, and every mount point
  is a place of the tree, it leaves none.
\<close>

theorem probe_leaves_no_trace:
  assumes "Probe random i w = (Inr ready, w')"
  shows "(\<forall>q x. fs w q = Some x \<longrightarrow> fs w' q = Some x) \<and>
    (\<forall>q. fs w' q \<noteq> fs w q \<longrightarrow> (\<exists>d. fs w' q = Some (Reg d '''')) \<and> ready) \<and>
    (healthy w \<and> (\<forall>q. mounted_at w q \<longrightarrow> fs w q \<noteq> None) \<longrightarrow> fs w' = fs w) \<and>
    mtab w' = mtab w \<and> effects w' = effects w"
proof -
  let ?pre = "join_path (if identity_store i = '''' then ''/tmp'' else identity_store i) ''.probe-''"
  obtain r w1 where c: "os_CreateTemp random (identity_store i) ''.probe-'' w = (r, w1)" by fastforce
  note C = create_temp_facts [OF c [unfolded os_CreateTemp_def]]
  show ?thesis
  proof (cases r)
    case (Inl err)
    then have "w' = w1" "\<not> ready" using assms c by (auto simp: Probe_def storeIsWriteable_def)
    then show ?thesis using C Inl by (auto simp: only_fs_def)
  next
    case (Inr tmp)
    obtain f w2 where t: "take_fault w1 = (f, w2)" by fastforce
    obtain e w3 where o: "os_Remove tmp w2 = (e, w3)" by fastforce
    have out: "ready" "w' = w3" using assms c Inr t o by (auto simp: Probe_def storeIsWriteable_def)
    note T = readsD [OF take_fault_reads [OF t]]
    obtain d where d: "fs w (locate tmp) = None" "fs w1 = (fs w)(locate tmp \<mapsto> Reg d '''')"
      "only_fs w w1"
      using C Inr by auto
    have o3: "only_fs w w3" using d(3) T(4) os_Remove_only_fs [OF o] by (blast intro: only_fs_trans)
    have gone: "(fs w1)(locate tmp := None) = fs w" using d(1,2) by auto
    have fs3: "fs w3 = fs w1 \<or> fs w3 = fs w"
      using o T(1) gone by (cases e) (auto dest!: os_Remove_None os_Remove_Some dest: fs_cong)
    have "fs w3 = fs w" if h: "healthy w" and m: "\<forall>q. mounted_at w q \<longrightarrow> fs w q \<noteq> None"
    proof -
      have h2: "healthy w2" using h only_fsD(7) [OF d(3)] only_fsD(7) [OF T(4)] by blast
      have "mounted_at w2 = mounted_at w" using only_fsD(6) [OF d(3)] only_fsD(6) [OF T(4)] by simp
      then have "\<not> mounted_at w2 (locate tmp)" using m d(1) by auto
      moreover have "fs w2 (locate tmp) = Some (Reg d '''')" using d(2) T(1) by simp
      ultimately have "e = None"
        using os_Remove_healthy [OF h2, of tmp] o by (auto simp: dir_at_def Let_def)
      then show ?thesis using o T(1) gone by (auto dest!: os_Remove_None)
    qed
    then show ?thesis using d fs3 o3 out by (auto simp: only_fs_def split: if_splits)
  qed
qed

text \<open>
  \<open>Probe\<close> says what the store is: where no call is refused and the first name tried is
  free and not too long, the answer is ready exactly where the store is a directory.
\<close>

theorem probe_tells_the_store:
  assumes "healthy w" "identity_store i \<noteq> ''''"
    and "plain_name (''.probe-'' @ random 9999)" "length (''.probe-'' @ random 9999) \<le> 255"
    and "fs w (locate (identity_store i) @ [''.probe-'' @ random 9999]) = None"
    and "\<not> name_too_long (locate (identity_store i))"
  shows "fst (Probe random i w) = Inr (dir_at w (locate (identity_store i)))"
proof -
  let ?f = "''.probe-'' @ random 9999" and ?d = "identity_store i"
  have l: "locate (join_path ?d ''.probe-'' @ random 9999) = locate ?d @ [?f]"
    using locate_join_path [OF assms(2,3)] by (simp add: join_path_append)
  have long: "\<not> name_too_long (locate ?d @ [?f])" using assms(4,6) by (auto simp: name_too_long_def)
  obtain w1 where t: "take_fault w = (None, w1)" "mtab w1 = mtab w"
    using assms(1) by (rule take_fault_healthy_obtain)
  note T = readsD [OF take_fault_reads [OF t(1)]]
  show ?thesis
  proof (cases "dir_at w (locate ?d)")
    case True
    have "create_exclusive (locate ?d @ [?f]) 0x180 w =
        (None, set_fs (locate ?d @ [?f]) (Reg (0x180 AND NOT (umask w1)) '''') w1)"
      using t(1) T(1,2) assms(5) long True by (simp add: create_exclusive_def)
    then show ?thesis
      using True l assms(2)
      by (simp add: Probe_def storeIsWriteable_def os_CreateTemp_def create_temp_first split: prod.split)
  next
    case False
    have "create_exclusive (locate ?d @ [?f]) 0x180 w =
        (Some (absent_errno w1 (locate ?d @ [?f])), w1)"
      using t(1) T(1,2) assms(5) long False by (simp add: create_exclusive_def)
    moreover have "absent_errno w1 (locate ?d @ [?f]) \<noteq> EEXIST" by (simp add: absent_errno_def)
    ultimately show ?thesis
      using False l assms(2)
      by (simp add: Probe_def storeIsWriteable_def os_CreateTemp_def create_temp_first split: prod.split)
  qed
qed

definition sample_random :: "nat \<Rightarrow> string" where
  "sample_random k = ''7''"

lemma probe_leaves_no_trace_witness:
  "fs (snd (Probe sample_random \<lparr>identity_store = ''/store''\<rparr> held_world)) = fs held_world"
proof -
  obtain ready w' where p: "Probe sample_random \<lparr>identity_store = ''/store''\<rparr> held_world = (Inr ready, w')"
    by (cases "storeIsWriteable sample_random \<lparr>identity_store = ''/store''\<rparr> held_world")
      (simp add: Probe_def)
  have "healthy held_world" "list_all (\<lambda>m. fs held_world (mnt_point m) \<noteq> None) (mtab held_world)"
    by code_simp+
  then have "healthy held_world \<and> (\<forall>q. mounted_at held_world q \<longrightarrow> fs held_world q \<noteq> None)"
    by (auto simp: list_all_iff mounted_at_def)
  then show ?thesis using probe_leaves_no_trace [OF p] p by simp
qed

lemma probe_tells_the_store_witness:
  "fst (Probe sample_random \<lparr>identity_store = ''/store''\<rparr> held_world) = Inr True \<and>
   fst (Probe sample_random \<lparr>identity_store = ''/gone''\<rparr> held_world) = Inr False"
proof -
  have p: "healthy held_world" "plain_name (''.probe-'' @ sample_random 9999)"
    "length (''.probe-'' @ sample_random 9999) \<le> 255"
    "fs held_world (locate ''/store'' @ [''.probe-'' @ sample_random 9999]) = None"
    "fs held_world (locate ''/gone'' @ [''.probe-'' @ sample_random 9999]) = None"
    "\<not> name_too_long (locate ''/store'')" "\<not> name_too_long (locate ''/gone'')"
    "dir_at held_world (locate ''/store'')" "\<not> dir_at held_world (locate ''/gone'')"
    by code_simp+
  show ?thesis
    using probe_tells_the_store [OF p(1), of "\<lparr>identity_store = ''/store''\<rparr>" sample_random]
      probe_tells_the_store [OF p(1), of "\<lparr>identity_store = ''/gone''\<rparr>" sample_random] p
    by simp
qed

end
