(* ===== verification/System.thy ===== *)
theory System
  imports Node_Restart Sweep Identity
begin

section \<open>The driver under the kubelet: one pod per handle\<close>

text \<open>
  The parts put together: the kubelet's calls, the sweep, the probes and restarts of the driver
  as steps of one machine, in any order and each with whatever refusals of the kernel the world
  holds, and between them anything else that happens on the node. The abstract specification is
  a table that grants each handle to at most one pod. A restart may lose track of a handle, where
  the disk does not say what the memory said or cannot be read; the table then promises nothing
  for that handle any longer, and what it promises for the others stays. The lemmas show that
  every step of the machine is a step of the specification with the same label, and that a mount
  of a copy that no restart has lost track of is at the target of the pod it is granted to.
\<close>

subsection \<open>The specification: grants\<close>

datatype grant = Free | GivenTo string | Astray

type_synonym grants = "string \<Rightarrow> grant"

datatype label =
    Granted string string      \<comment> \<open>the pod and the handle\<close>
  | Refused string string
  | Released string string
  | NotReleased string string
  | Restarted "string list" "string list"
      \<comment> \<open>the handles whose mount had gone, and those the driver lost track of\<close>
  | Quiet

fun spec_step :: "label \<Rightarrow> grants \<Rightarrow> grants option" where
  "spec_step (Granted u h) g =
     (case g h of
        Free \<Rightarrow> Some (g(h := GivenTo u))
      | GivenTo v \<Rightarrow> if v = u then Some g else None
      | Astray \<Rightarrow> Some g)"
| "spec_step (Refused u h) g = Some g"
| "spec_step (Released u h) g = Some (if g h = GivenTo u then g(h := Free) else g)"
| "spec_step (NotReleased u h) g = Some g"
| "spec_step (Restarted lost astray) g =
     Some (\<lambda>h. if h \<in> set astray \<or> g h = Astray then Astray else if h \<in> set lost then Free else g h)"
| "spec_step Quiet g = Some g"

fun spec_run :: "label list \<Rightarrow> grants \<Rightarrow> grants option" where
  "spec_run [] g = Some g"
| "spec_run (l # ls) g = (case spec_step l g of None \<Rightarrow> None | Some g' \<Rightarrow> spec_run ls g')"

text \<open>The labels at which a pod's grant may end, and at which the table stops to promise.\<close>

fun gives_up :: "string \<Rightarrow> string \<Rightarrow> label \<Rightarrow> bool" where
  "gives_up u h (Released u' h') = (u' = u \<and> h' = h)"
| "gives_up u h (Restarted lost astray) = (h \<in> set lost \<or> h \<in> set astray)"
| "gives_up u h l = False"

fun strays :: "string \<Rightarrow> label \<Rightarrow> bool" where
  "strays h (Restarted lost astray) = (h \<in> set astray)"
| "strays h l = False"

definition strayed :: "label list \<Rightarrow> string set" where
  "strayed ls = {h. list_ex (strays h) ls}"

lemma strayed_simps [simp]:
  "strayed [] = {}" "strayed (l # ls) = {h. strays h l} \<union> strayed ls"
  "strayed (ls @ ls') = strayed ls \<union> strayed ls'"
  by (auto simp: strayed_def)

lemma strays_gives_up: "strays h l \<Longrightarrow> gives_up u h l"
  by (cases l) simp_all

text \<open>What the specification promises: a handle changes hands only after it was given up.\<close>

lemma spec_keeps:
  "spec_step l g = Some g' \<Longrightarrow> g h = GivenTo u \<Longrightarrow> \<not> gives_up u h l \<Longrightarrow> g' h = GivenTo u"
  by (cases l) (auto split: if_splits grant.splits)

lemma spec_run_keeps:
  "spec_run ls g = Some g' \<Longrightarrow> g h = GivenTo u \<Longrightarrow> \<forall>l \<in> set ls. \<not> gives_up u h l \<Longrightarrow> g' h = GivenTo u"
  by (induction ls arbitrary: g) (auto split: option.splits dest: spec_keeps)

lemma spec_run_append:
  "spec_run (ls @ ls') g = (case spec_run ls g of None \<Rightarrow> None | Some g' \<Rightarrow> spec_run ls' g')"
  by (induction ls arbitrary: g) (auto split: option.splits)

subsection \<open>What the kubelet promises\<close>

text \<open>
  The kubelet gives each pod a target of its own for each handle, an absolute clean path.
\<close>

locale kubelet =
  fixes target_of :: "string \<Rightarrow> string \<Rightarrow> string"
  assumes target_own:
    "plain_name u \<Longrightarrow> checkHandle h = None \<Longrightarrow> plain_name u' \<Longrightarrow> checkHandle h' = None \<Longrightarrow>
       locate (target_of u h) = locate (target_of u' h') \<Longrightarrow> u' = u \<and> h' = h"
  and target_clean:
    "plain_name u \<Longrightarrow> checkHandle h = None \<Longrightarrow> path_text (locate (target_of u h)) = target_of u h"

text \<open>The kubelet's own layout, and the driver's.\<close>

definition kubelet_target :: "string \<Rightarrow> string \<Rightarrow> string" where
  "kubelet_target u h =
     path_text [''var'', ''lib'', ''kubelet'', ''pods'', u, ''volumes'', ''kubernetes.io~csi'', h, ''mount'']"

interpretation kt: kubelet kubelet_target
proof
  have l: "locate (kubelet_target u h) =
      [''var'', ''lib'', ''kubelet'', ''pods'', u, ''volumes'', ''kubernetes.io~csi'', h, ''mount'']"
    if "plain_name u" "checkHandle h = None" for u h
    unfolding kubelet_target_def using that checked_plain [of h]
    by (intro locate_path_text) (auto simp: plain_name_def)
  show "u' = u \<and> h' = h"
    if "plain_name u" "checkHandle h = None" "plain_name u'" "checkHandle h' = None"
      "locate (kubelet_target u h) = locate (kubelet_target u' h')" for u h u' h'
    using that by (simp add: l)
  show "path_text (locate (kubelet_target u h)) = kubelet_target u h"
    if "plain_name u" "checkHandle h = None" for u h
    using that by (simp add: l) (simp add: kubelet_target_def)
qed

subsection \<open>The mount table through the calls\<close>

definition cleared :: "path \<Rightarrow> world \<Rightarrow> mount_entry list" where
  "cleared p w = (if mounted_at w p then detach p (mtab w) else mtab w)"

lemma cleared_subset: "set (cleared p w) \<subseteq> set (mtab w)"
  using detach_subset by (simp add: cleared_def)

lemma cleared_distinct: "distinct (map mnt_point (mtab w)) \<Longrightarrow> distinct (map mnt_point (cleared p w))"
  by (simp add: cleared_def distinct_detach)

lemma cleared_gone:
  "distinct (map mnt_point (mtab w)) \<Longrightarrow> m \<in> set (cleared p w) \<Longrightarrow> mnt_point m \<noteq> p"
  by (auto simp: cleared_def mounted_at_def dest: detach_gone split: if_splits)

lemma refused_mtab:
  assumes "detaching_kernel (mounts n)" "NodePublishVolume n r w = (Inl err, n', w')"
  shows "n' = n" "mtab w' = mtab w \<or> mtab w' = cleared (locate (publish_TargetPath r)) w"
proof -
  have b: "bind_kernel (mounts n)" using assms(1) by (simp add: detaching_kernel_def)
  have "n' = n \<and> (mtab w' = mtab w \<or> mtab w' = cleared (locate (publish_TargetPath r)) w)"
  proof (cases rule: publish_cases [where r = r and n = n and w = w])
    case (failed e w1)
    then show ?thesis
      using assms node_mount_failed [OF failed(2) may_mount_plain [OF failed(1)] b]
      by (auto simp: publish_mount_failed [OF failed] post_frame cleared_def mountFailed_def)
  qed (use assms(2) in \<open>auto simp: publish_branches post_frame\<close>)
  then show "n' = n" "mtab w' = mtab w \<or> mtab w' = cleared (locate (publish_TargetPath r)) w" by auto
qed

text \<open>A publish that succeeds was a repetition, or it bound the copy and took the hold.\<close>

lemma granted_cases:
  assumes "bind_kernel (mounts n)" "NodePublishVolume n r w = (Inr (), n', w')"
  obtains (repeated) k where "n' = n" "w' = w" "checkHandle (publish_VolumeId r) = None"
      "holder n (publish_VolumeId r) = Some k" "PodUID k = uid (podOf (publish_VolumeContext r))"
      "Target k = publish_TargetPath r"
  | (bound) "may_mount n r"
      "n' = n\<lparr>holds := AList.update (publish_VolumeId r)
         (hold_for (podOf (publish_VolumeContext r)) (publish_TargetPath r)) (holds n)\<rparr>"
      "mtab w' = \<lparr>mnt_point = locate (publish_TargetPath r),
          mnt_source = copy_place (node_store n) (publish_VolumeId r), mnt_ro = publish_Readonly r\<rparr> #
        cleared (locate (publish_TargetPath r)) w"
proof (cases rule: publish_cases [where r = r and n = n and w = w])
  case (mounted w1 n2 w2)
  note p = may_mount_plain [OF mounted(1)]
  have e: "n' = n2" "mtab w' = mtab w2" using assms(2) by (auto simp: publish_mounted [OF mounted])
  show thesis
    using bound [OF mounted(1)] keepHold_facts(1,3) [OF mounted(3) p]
      node_mount_done(1) [OF mounted(2) p assms(1)] e
    by (simp add: cleared_def)
next
  case (repeated k)
  then show thesis using that(1) [of k] assms(2) publish_repeated [OF repeated] by simp
qed (use assms(2) in \<open>simp_all add: publish_branches\<close>)

lemma unpublish_mtab:
  assumes "bind_kernel (mounts n)" "NodeUnpublishVolume n r w = (a, n', w')"
  shows "mtab w' = mtab w \<or> mtab w' = cleared (locate (unpublish_TargetPath r)) w"
    "a = Inr () \<Longrightarrow> mtab w' = cleared (locate (unpublish_TargetPath r)) w"
    "a \<noteq> Inr () \<Longrightarrow> n' = n"
    "a = Inr () \<Longrightarrow> n' = (if keeps_hold n r then n else n\<lparr>holds := AList.delete (unpublish_VolumeId r) (holds n)\<rparr>)"
proof -
  let ?c = "cleared (locate (unpublish_TargetPath r)) w"
  have c: "mtab w2 = ?c"
    if "unbind (mounts n) (unpublish_TargetPath r) w = (None, w1)"
      "os_Remove (unpublish_TargetPath r) w1 = (e, w2)" for e w1 w2
    using bind_kernel.unbind_done [OF assms(1) that(1)] only_fsD(1) [OF os_Remove_only_fs [OF that(2)]]
    by (simp add: cleared_def)
  have "(mtab w' = mtab w \<or> mtab w' = ?c) \<and> (a = Inr () \<longrightarrow> mtab w' = ?c) \<and> (a \<noteq> Inr () \<longrightarrow> n' = n) \<and>
      (a = Inr () \<longrightarrow> n' = (if keeps_hold n r then n
         else n\<lparr>holds := AList.delete (unpublish_VolumeId r) (holds n)\<rparr>))"
    using assms(2)
  proof (cases rule: unpublish_cases)
    case (still_mounted err)
    then show ?thesis using bind_kernel.unbind_refused [OF assms(1)] by auto
  next
    case (not_removed err w1)
    then show ?thesis using c [of w1 "Some err" w'] by auto
  next
    case (hold_kept w1 w2 removed)
    then show ?thesis using c [of w1 removed w2] only_effectsD(2) [of w2 w'] by auto
  next
    case (hold_dropped w1 w2 w3 removed)
    then show ?thesis
      using c [of w1 removed w2] only_effectsD(2) [of w3 w'] dropHold_facts(1,3) [OF hold_dropped(7)] by auto
  qed auto
  then show "mtab w' = mtab w \<or> mtab w' = ?c" "a = Inr () \<Longrightarrow> mtab w' = ?c" "a \<noteq> Inr () \<Longrightarrow> n' = n"
    "a = Inr () \<Longrightarrow> n' = (if keeps_hold n r then n
       else n\<lparr>holds := AList.delete (unpublish_VolumeId r) (holds n)\<rparr>)" by auto
qed

lemma sweep_mtab: "plain_copies (node_store n) w \<Longrightarrow> mtab (sweep n named w) = mtab w"
  using handles_plain [of "node_store n" w] sweep_handles_facts(2)
    only_fsD(1) [OF readsD(4) [OF handles_reads]]
  by (auto simp: sweep_def Let_def split: prod.split)

lemma probe_mtab: "Probe random i w = (Inr b, w') \<Longrightarrow> mtab w' = mtab w"
  using create_temp_facts by (auto simp: Probe_def storeIsWriteable_def os_CreateTemp_def
      split: prod.splits sum.splits dest!: create_temp_facts os_Remove_only_fs take_fault_reads readsD(4) only_fsD(1))

text \<open>\<open>statfs(2)\<close> changes nothing on the node.\<close>

locale reading_call =
  fixes ask :: "string \<Rightarrow> world \<Rightarrow> 'r \<times> world"
  assumes reads_only: "ask path w = (r, w') \<Longrightarrow> reads w w'"
begin

lemma mtab_kept: "ask path w = (r, w') \<Longrightarrow> mtab w' = mtab w"
  using readsD(4) [OF reads_only] only_fsD(1) by blast

end

lemma reading_spaceOf: "reading_call statfs \<Longrightarrow> reading_call (spaceOf statfs)"
  unfolding reading_call_def spaceOf_def
  by (auto split: prod.splits sum.splits simp: Let_def)

interpretation ss: reading_call sample_statfs
  by unfold_locales (simp add: sample_statfs_def reads_def)

lemma stats_mtab:
  assumes "reading_call (space n)" "NodeGetVolumeStats n r w = (a, w')"
  shows "mtab w' = mtab w"
proof -
  obtain used e w1 where c: "copySize (copyPath (node_store n) (stats_VolumeId r)) w = ((used, e), w1)"
    by (metis prod.collapse)
  obtain x w2 where s: "space n (root (node_store n)) w1 = (x, w2)" by fastforce
  have "mtab w1 = mtab w" "mtab w2 = mtab w1"
    using readsD(4) [OF copySize_reads [OF c]] reading_call.mtab_kept [OF assms(1) s]
    by (auto dest: only_fsD(1))
  then show ?thesis
    using assms(2) c s
    by (auto simp: NodeGetVolumeStats_def Let_def record_bytes_def split: if_splits option.splits sum.splits)
qed

subsection \<open>The machine\<close>

text \<open>The disk says of the holds what the memory says.\<close>

definition recorded_at :: "node \<Rightarrow> world \<Rightarrow> string \<Rightarrow> bool" where
  "recorded_at n w h \<longleftrightarrow>
     (case holder n h of
        None \<Rightarrow> fs w (hold_place (node_store n) h) = None
      | Some k \<Rightarrow> utf8_hold k \<and>
          (\<exists>m. fs w (hold_place (node_store n) h) = Some (Reg m (json_Marshal k))))"

definition recorded :: "node \<Rightarrow> world \<Rightarrow> bool" where
  "recorded n w \<longleftrightarrow> (\<forall>h. recorded_at n w h)"

text \<open>
  What a restart has to find to know what the driver knew of a handle: no call is refused, the
  tree is a tree, the mount table can be read, and the disk says of the handle what the memory
  said.
\<close>

definition orderly :: "(mount_entry \<Rightarrow> string) \<Rightarrow> node \<Rightarrow> world \<Rightarrow> string \<Rightarrow> bool" where
  "orderly row n w h \<longleftrightarrow>
     healthy w \<and> wf_tree w \<and> plain_holds (node_store n) w \<and> readable_table row (mtab w) \<and> recorded_at n w h"

text \<open>
  What a restart from \<open>n\<close> to \<open>n'\<close> did to the holds: \<open>gone\<close> are those it gave up whose target was
  no mount, \<open>astray\<close> are those it gave up or changed otherwise, or took from the disk alone.
\<close>

definition gone_holds :: "node \<Rightarrow> node \<Rightarrow> world \<Rightarrow> string list" where
  "gone_holds n n' w =
     filter (\<lambda>h. holder n' h = None \<and>
         (case holder n h of None \<Rightarrow> False | Some k \<Rightarrow> Target k \<notin> set (mount_points w)))
       (heldHandles n)"

definition astray_holds :: "node \<Rightarrow> node \<Rightarrow> world \<Rightarrow> string list" where
  "astray_holds n n' w =
     filter (\<lambda>h. holder n' h \<noteq> holder n h \<and> h \<notin> set (gone_holds n n' w)) (heldHandles n @ heldHandles n')"

lemma gone_holds_iff:
  "h \<in> set (gone_holds n n' w) \<longleftrightarrow>
     holder n' h = None \<and> (\<exists>k. holder n h = Some k \<and> Target k \<notin> set (mount_points w))"
  by (auto simp: gone_holds_def holder_heldHandles split: option.splits)

lemma astray_holds_iff:
  "h \<in> set (astray_holds n n' w) \<longleftrightarrow> holder n' h \<noteq> holder n h \<and> h \<notin> set (gone_holds n n' w)"
  by (cases "holder n h"; cases "holder n' h") (auto simp: astray_holds_def holder_heldHandles)

type_synonym sys = "node \<times> world"

text \<open>
  The kubelet's calls name a pod and an accepted handle by the pod's own target for it; the
  other calls are free. A restart happens in any world, whatever the disk says and whatever the
  kernel refuses to it. \<open>outside\<close> is everything else on the node: it may change
  files, the kernel's answers, the clock, and mounts, but it binds no copy.
\<close>

inductive sys_step ::
  "(string \<Rightarrow> string \<Rightarrow> string) \<Rightarrow> (mount_entry \<Rightarrow> string) \<Rightarrow> sys \<Rightarrow> label \<Rightarrow> sys \<Rightarrow> bool"
  for target_of row where
  granted:
    "u = uid (podOf (publish_VolumeContext r)) \<Longrightarrow> h = publish_VolumeId r \<Longrightarrow> plain_name u \<Longrightarrow>
     publish_TargetPath r = target_of u h \<Longrightarrow> NodePublishVolume n r w = (Inr (), n', w') \<Longrightarrow>
     sys_step target_of row (n, w) (Granted u h) (n', w')"
| refused:
    "u = uid (podOf (publish_VolumeContext r)) \<Longrightarrow> h = publish_VolumeId r \<Longrightarrow> plain_name u \<Longrightarrow>
     publish_TargetPath r = target_of u h \<Longrightarrow> NodePublishVolume n r w = (Inl err, n', w') \<Longrightarrow>
     sys_step target_of row (n, w) (Refused u h) (n', w')"
| released:
    "plain_name u \<Longrightarrow> h = unpublish_VolumeId r \<Longrightarrow> checkHandle h = None \<Longrightarrow>
     unpublish_TargetPath r = target_of u h \<Longrightarrow> NodeUnpublishVolume n r w = (Inr (), n', w') \<Longrightarrow>
     sys_step target_of row (n, w) (Released u h) (n', w')"
| not_released:
    "plain_name u \<Longrightarrow> h = unpublish_VolumeId r \<Longrightarrow> checkHandle h = None \<Longrightarrow>
     unpublish_TargetPath r = target_of u h \<Longrightarrow> NodeUnpublishVolume n r w = (Inl err, n', w') \<Longrightarrow>
     sys_step target_of row (n, w) (NotReleased u h) (n', w')"
| measured:
    "NodeGetVolumeStats n rs w = (a, w') \<Longrightarrow> sys_step target_of row (n, w) Quiet (n, w')"
| swept:
    "plain_copies (node_store n) w \<Longrightarrow> sys_step target_of row (n, w) Quiet (n, sweep n named w)"
| probed:
    "Probe random i w = (Inr b, w') \<Longrightarrow> sys_step target_of row (n, w) Quiet (n, w')"
| restarted:
    "reading_call statfs \<Longrightarrow>
     resume (newNode (mounts n) row statfs (nodeID n) (root (node_store n)) (node_events n)) w = (n', w') \<Longrightarrow>
     sys_step target_of row (n, w) (Restarted (gone_holds n n' w) (astray_holds n n' w)) (n', w')"
| outside:
    "distinct (map mnt_point (mtab w')) \<Longrightarrow>
     \<forall>m \<in> set (mtab w'). prefix (copies_place (node_store n)) (mnt_source m) \<longrightarrow> m \<in> set (mtab w) \<Longrightarrow>
     sys_step target_of row (n, w) Quiet (n, w')"

inductive sys_run ::
  "(string \<Rightarrow> string \<Rightarrow> string) \<Rightarrow> (mount_entry \<Rightarrow> string) \<Rightarrow> sys \<Rightarrow> label list \<Rightarrow> sys \<Rightarrow> bool"
  for target_of row where
  none: "sys_run target_of row s [] s"
| step: "sys_step target_of row s l s' \<Longrightarrow> sys_run target_of row s' ls s'' \<Longrightarrow>
    sys_run target_of row s (l # ls) s''"

text \<open>A driver on a node where no copy is mounted yet.\<close>

definition sys_init :: "sys \<Rightarrow> bool" where
  "sys_init s \<longleftrightarrow>
     (case s of (n, w) \<Rightarrow> detaching_kernel (mounts n) \<and> reading_call (space n) \<and> holds n = [] \<and>
        distinct (map mnt_point (mtab w)) \<and>
        (\<forall>m \<in> set (mtab w). \<not> prefix (copies_place (node_store n)) (mnt_source m)))"

definition grant_of :: "node \<Rightarrow> string \<Rightarrow> grant" where
  "grant_of n h = (case holder n h of None \<Rightarrow> Free | Some k \<Rightarrow> GivenTo (PodUID k))"

lemma grant_of_not_Astray [simp]: "grant_of n h \<noteq> Astray"
  by (simp add: grant_of_def split: option.split)

text \<open>The table of a state in which the handles of \<open>A\<close> are astray.\<close>

definition grants_of :: "string set \<Rightarrow> sys \<Rightarrow> grants" where
  "grants_of A s = (\<lambda>h. if h \<in> A then Astray else grant_of (fst s) h)"

lemma grants_of_cong: "fst s = fst s' \<Longrightarrow> grants_of A s = grants_of A s'"
  by (simp add: grants_of_def cong: if_cong)

subsection \<open>The invariant\<close>

text \<open>Of one handle: its hold is the kubelet's, and its mounts are at the target of the hold.\<close>

definition handle_inv :: "(string \<Rightarrow> string \<Rightarrow> string) \<Rightarrow> sys \<Rightarrow> string \<Rightarrow> bool" where
  "handle_inv target_of s h \<longleftrightarrow>
     (case s of (n, w) \<Rightarrow>
        (\<forall>k. holder n h = Some k \<longrightarrow>
           checkHandle h = None \<and> plain_name (PodUID k) \<and> Target k = target_of (PodUID k) h) \<and>
        (\<forall>m \<in> set (mtab w). mnt_source m = copy_place (node_store n) h \<longrightarrow>
           (\<exists>k. holder n h = Some k \<and> mnt_point m = locate (Target k))))"

definition sys_inv :: "(string \<Rightarrow> string \<Rightarrow> string) \<Rightarrow> string set \<Rightarrow> sys \<Rightarrow> bool" where
  "sys_inv target_of A s \<longleftrightarrow>
     (case s of (n, w) \<Rightarrow> detaching_kernel (mounts n) \<and> reading_call (space n) \<and>
        distinct (map mnt_point (mtab w)) \<and> (\<forall>h. h \<notin> A \<longrightarrow> handle_inv target_of (n, w) h))"

lemma sys_invD:
  assumes "sys_inv T A (n, w)"
  shows "detaching_kernel (mounts n)" "reading_call (space n)" "bind_kernel (mounts n)"
    "distinct (map mnt_point (mtab w))" "h \<notin> A \<Longrightarrow> handle_inv T (n, w) h"
    "h \<notin> A \<Longrightarrow> holder n h = Some k \<Longrightarrow> checkHandle h = None \<and> plain_name (PodUID k) \<and> Target k = T (PodUID k) h"
    "h \<notin> A \<Longrightarrow> m \<in> set (mtab w) \<Longrightarrow> mnt_source m = copy_place (node_store n) h \<Longrightarrow>
      \<exists>k. holder n h = Some k \<and> mnt_point m = locate (Target k)"
  using assms by (auto simp: sys_inv_def handle_inv_def detaching_kernel_def)

text \<open>A step that keeps the holds and takes mounts away at most, or mounts no copy.\<close>

lemma handle_inv_same:
  assumes "handle_inv T (n, w) h" "holder n' h = holder n h" "node_store n' = node_store n"
    and "\<And>m. m \<in> set (mtab w') \<Longrightarrow> mnt_source m = copy_place (node_store n) h \<Longrightarrow> m \<in> set (mtab w)"
  shows "handle_inv T (n', w') h"
  using assms by (auto simp: handle_inv_def)

lemma sys_inv_same:
  assumes "sys_inv T A (n, w)" "distinct (map mnt_point (mtab w'))"
    and "\<And>m. m \<in> set (mtab w') \<Longrightarrow> prefix (copies_place (node_store n)) (mnt_source m) \<Longrightarrow> m \<in> set (mtab w)"
  shows "sys_inv T A (n, w')"
  unfolding sys_inv_def prod.case
proof (intro conjI allI impI)
  show "handle_inv T (n, w') h" if "h \<notin> A" for h
    using handle_inv_same [OF sys_invD(5) [OF assms(1) that], of n w'] assms(3) by (simp add: copy_place_def)
qed (use sys_invD [OF assms(1)] assms(2) in auto)

lemma sys_inv_fewer:
  assumes "sys_inv T A (n, w)" "mtab w' = mtab w \<or> mtab w' = cleared p w"
  shows "sys_inv T A (n, w')"
proof (rule sys_inv_same [OF assms(1)])
  show "distinct (map mnt_point (mtab w'))" using assms sys_invD(4) [OF assms(1)] cleared_distinct by auto
  show "m \<in> set (mtab w') \<Longrightarrow> m \<in> set (mtab w)" for m using assms(2) cleared_subset [of p w] by auto
qed

subsection \<open>Every step keeps the invariant and is a step of the specification\<close>

lemma holder_update: "holder (n\<lparr>holds := AList.update h k (holds n)\<rparr>) = (holder n)(h \<mapsto> k)"
  by (simp add: holder_def fun_eq_iff)

lemma holder_delete: "holder (n\<lparr>holds := AList.delete h (holds n)\<rparr>) = (holder n)(h := None)"
  by (simp add: holder_def fun_eq_iff)

definition step_ok :: "(string \<Rightarrow> string \<Rightarrow> string) \<Rightarrow> string set \<Rightarrow> sys \<Rightarrow> label \<Rightarrow> sys \<Rightarrow> bool" where
  "step_ok T A s l s' \<longleftrightarrow>
     (let A' = A \<union> {h. strays h l}
      in sys_inv T A' s' \<and> spec_step l (grants_of A s) = Some (grants_of A' s'))"

text \<open>A step that changes no hold.\<close>

lemma quiet_step_ok:
  assumes "sys_inv T A (n, w')" "spec_step l (grants_of A (n, w)) = Some (grants_of A (n, w))" "\<And>h. \<not> strays h l"
  shows "step_ok T A (n, w) l (n, w')"
  using assms grants_of_cong [of "(n, w')" "(n, w)"] by (simp add: step_ok_def)

context kubelet
begin

lemma granted_ok:
  assumes inv: "sys_inv target_of A (n, w)" and u: "u = uid (podOf (publish_VolumeContext r))" "plain_name u"
    and h: "h = publish_VolumeId r" and t: "publish_TargetPath r = target_of u h"
    and p: "NodePublishVolume n r w = (Inr (), n', w')"
  shows "step_ok target_of A (n, w) (Granted u h) (n', w')"
  using sys_invD(3) [OF inv] p
proof (cases rule: granted_cases)
  case (repeated k)
  then have "spec_step (Granted u h) (grants_of A (n, w)) = Some (grants_of A (n, w))"
    using u h by (simp add: grants_of_def grant_of_def)
  then show ?thesis unfolding repeated(1,2) using inv by (simp add: quiet_step_ok)
next
  case bound
  let ?t = "publish_TargetPath r" and ?k = "hold_for (podOf (publish_VolumeContext r)) (publish_TargetPath r)"
  let ?new = "\<lparr>mnt_point = locate ?t, mnt_source = copy_place (node_store n) h, mnt_ro = publish_Readonly r\<rparr>"
  have c: "checkHandle h = None" using bound(1) h by (simp add: may_mount_def)
  have free: "holder n h = None" if "h \<notin> A"
  proof (rule ccontr)
    assume "holder n h \<noteq> None"
    then obtain k where k: "holder n h = Some k" by blast
    with sys_invD(6) [OF inv that] have "Target k = target_of (PodUID k) h" by blast
    then show False using bound(1) k u h t by (auto simp: may_mount_def)
  qed
  have m: "mtab w' = ?new # cleared (locate ?t) w" using bound(3) h by simp
  have n': "node_store n' = node_store n" "mounts n' = mounts n" "space n' = space n"
    and hold: "holder n' = (holder n)(h \<mapsto> ?k)"
    using bound(2) h holder_update by auto
  have "sys_inv target_of A (n', w')"
    unfolding sys_inv_def prod.case n'
  proof (intro conjI allI impI)
    have "locate ?t \<notin> mnt_point ` set (cleared (locate ?t) w)"
      by (auto dest: cleared_gone [OF sys_invD(4) [OF inv]])
    then show "distinct (map mnt_point (mtab w'))"
      using m cleared_distinct [OF sys_invD(4) [OF inv]] by simp
    fix h' assume h': "h' \<notin> A"
    show "handle_inv target_of (n', w') h'"
    proof (cases "h' = h")
      case True
      have "mnt_point m = locate ?t" if "m \<in> set (mtab w')" "mnt_source m = copy_place (node_store n) h" for m
        using that m cleared_subset [of "locate ?t" w] sys_invD(7) [OF inv h', of m] free h' True by auto
      then show ?thesis using True c u t n' by (auto simp: handle_inv_def hold)
    next
      case False
      have "m \<in> set (mtab w)" if "m \<in> set (mtab w')" "mnt_source m = copy_place (node_store n) h'" for m
        using that m cleared_subset [of "locate ?t" w] False by (auto simp: copy_place_def)
      then show ?thesis
        using handle_inv_same [OF sys_invD(5) [OF inv h'], of n' w'] False n' hold by simp
    qed
  qed (use sys_invD [OF inv] in auto)
  moreover have "spec_step (Granted u h) (grants_of A (n, w)) = Some (grants_of A (n', w'))"
    using free u hold by (auto simp: grants_of_def grant_of_def fun_eq_iff)
  ultimately show ?thesis by (simp add: step_ok_def)
qed

lemma refused_ok:
  assumes inv: "sys_inv target_of A (n, w)" and p: "NodePublishVolume n r w = (Inl err, n', w')"
  shows "step_ok target_of A (n, w) (Refused u h) (n', w')"
proof -
  note R = refused_mtab [OF sys_invD(1) [OF inv] p]
  show ?thesis unfolding R(1) using sys_inv_fewer [OF inv R(2)] by (simp add: quiet_step_ok)
qed

lemma released_ok:
  assumes inv: "sys_inv target_of A (n, w)" and u: "plain_name u" and h: "h = unpublish_VolumeId r"
    and c: "checkHandle h = None" and t: "unpublish_TargetPath r = target_of u h"
    and p: "NodeUnpublishVolume n r w = (Inr (), n', w')"
  shows "step_ok target_of A (n, w) (Released u h) (n', w')"
proof -
  note U = unpublish_mtab [OF sys_invD(3) [OF inv] p]
  have fewer: "sys_inv target_of A (n, w')" using sys_inv_fewer [OF inv U(1)] .
  have own: "PodUID k = u \<longleftrightarrow> Target k = target_of u h" if "h \<notin> A" "holder n h = Some k" for k
    using sys_invD(6) [OF inv that] target_own [of "PodUID k" h u h] u c by fastforce
  show ?thesis
  proof (cases "keeps_hold n r")
    case True
    then have "n' = n" using U(4) by simp
    moreover have "grants_of A (n, w) h \<noteq> GivenTo u"
      using True own t h by (auto simp: grants_of_def grant_of_def keeps_hold_def split: option.splits)
    ultimately show ?thesis using fewer by (auto intro: quiet_step_ok)
  next
    case False
    then have n': "n' = n\<lparr>holds := AList.delete h (holds n)\<rparr>" using U(4) h by simp
    have gone: "\<not> (m \<in> set (mtab w') \<and> mnt_source m = copy_place (node_store n) h)" if out: "h \<notin> A" for m
    proof
      assume m: "m \<in> set (mtab w') \<and> mnt_source m = copy_place (node_store n) h"
      then obtain k where k: "holder n h = Some k" "mnt_point m = locate (Target k)"
        using sys_invD(7) [OF fewer out] by blast
      then have "mnt_point m = locate (unpublish_TargetPath r)"
        using False h by (simp add: keeps_hold_def)
      then show False using m U(2) cleared_gone [OF sys_invD(4) [OF inv]] by auto
    qed
    have "handle_inv target_of (n', w') h'" if "h' \<notin> A" for h'
      using sys_invD(5) [OF fewer that] gone that
      by (cases "h' = h") (auto simp: handle_inv_def n' holder_delete)
    then have "sys_inv target_of A (n', w')"
      using sys_invD [OF fewer] by (simp add: sys_inv_def n')
    moreover have "grants_of A (n', w') = (if h \<in> A then grants_of A (n, w) else (grants_of A (n, w))(h := Free))"
      by (auto simp: grants_of_def grant_of_def n' holder_delete fun_eq_iff)
    moreover have "grants_of A (n, w) h = (if h \<in> A then Astray else if holder n h = None then Free else GivenTo u)"
      using False own t h by (auto simp: grants_of_def grant_of_def keeps_hold_def split: option.splits)
    ultimately show ?thesis by (auto simp: step_ok_def fun_eq_iff)
  qed
qed

lemma not_released_ok:
  assumes inv: "sys_inv target_of A (n, w)" and p: "NodeUnpublishVolume n r w = (Inl err, n', w')"
  shows "step_ok target_of A (n, w) (NotReleased u h) (n', w')"
proof -
  note U = unpublish_mtab [OF sys_invD(3) [OF inv] p]
  have "n' = n" using U(3) by simp
  then show ?thesis using sys_inv_fewer [OF inv U(1)] by (simp add: quiet_step_ok)
qed

lemma quiet_ok:
  assumes "sys_inv target_of A (n, w)" "distinct (map mnt_point (mtab w'))"
    and "\<And>m. m \<in> set (mtab w') \<Longrightarrow> prefix (copies_place (node_store n)) (mnt_source m) \<Longrightarrow> m \<in> set (mtab w)"
  shows "step_ok target_of A (n, w) Quiet (n, w')"
  using sys_inv_same [OF assms] by (simp add: quiet_step_ok)

lemma quiet_mtab_ok:
  assumes "sys_inv target_of A (n, w)" "mtab w' = mtab w"
  shows "step_ok target_of A (n, w) Quiet (n, w')"
  using assms sys_invD(4) [OF assms(1)] by (intro quiet_ok) simp_all

end

subsection \<open>A restart\<close>

text \<open>
  Whatever is refused to it, a restart changes no mount, removes files at most, and changes nothing
  of the node but its holds.
\<close>

definition only_removes :: "world \<Rightarrow> world \<Rightarrow> bool" where
  "only_removes w w' \<longleftrightarrow>
     mtab w' = mtab w \<and> (wf_tree w \<longrightarrow> wf_tree w') \<and> (\<forall>q. fs w' q = fs w q \<or> fs w' q = None)"

lemma only_removes_refl [simp, intro]: "only_removes w w"
  by (simp add: only_removes_def)

lemma only_removes_trans: "only_removes w w' \<Longrightarrow> only_removes w' w'' \<Longrightarrow> only_removes w w''"
  unfolding only_removes_def by metis

lemma only_removes_reads: "reads w w' \<Longrightarrow> only_removes w w'"
  using readsD(1,4,6) only_fsD(1) by (metis only_removes_def)

lemma only_removes_emit [simp]: "only_removes (emit e w) w' \<longleftrightarrow> only_removes w w'"
  by (simp add: only_removes_def)

lemma resume_entry_frame:
  assumes "resume_entry h n w = (n', w')" "reading_call (mounted n)"
  shows "only_removes w w' \<and> n' = n\<lparr>holds := holds n'\<rparr>"
proof -
  obtain x w1 where f: "os_ReadFile (holdPath (node_store n) h) w = (x, w1)" by fastforce
  have 1: "only_removes w w1" using only_removes_reads [OF os_ReadFile_reads [OF f]] .
  have m: "only_removes v v'" if "mounted n t v = (b, v')" for t v b v'
    using only_removes_reads [OF reading_call.reads_only [OF assms(2) that]] .
  have d: "only_removes v w' \<and> n' = n\<lparr>holds := holds n'\<rparr>" if "dropHold n h (emit e v) = (n', w')" for e v
  proof -
    have "only_removes (emit e v) w'"
      unfolding only_removes_def using dropHold_facts(3,4,6) [OF that] by blast
    then show ?thesis using dropHold_facts(1) [OF that] by simp
  qed
  show ?thesis
    using assms(1) f 1
    by (auto simp: resume_entry_def readHold_def split: sum.splits prod.splits bool.splits
        dest!: d m intro: only_removes_trans)
qed

lemma resume_entries_frame:
  "resume_entries hs n w = (n', w') \<Longrightarrow> reading_call (mounted n) \<Longrightarrow>
     only_removes w w' \<and> n' = n\<lparr>holds := holds n'\<rparr>"
proof (induction hs arbitrary: n w)
  case (Cons h hs)
  obtain n1 w1 where e: "resume_entry h n w = (n1, w1)" by fastforce
  have r: "resume_entries hs n1 w1 = (n', w')" using Cons.prems(1) e by simp
  have "only_removes w w1 \<and> n1 = n\<lparr>holds := holds n1\<rparr>"
    using resume_entry_frame [OF e Cons.prems(2)] .
  then obtain hx where 1: "only_removes w w1" "n1 = n\<lparr>holds := hx\<rparr>" by metis
  then have "only_removes w1 w' \<and> n' = n1\<lparr>holds := holds n'\<rparr>" using Cons.IH [OF r] Cons.prems(2) by simp
  then obtain hy where "only_removes w1 w'" "n' = n1\<lparr>holds := hy\<rparr>" by metis
  with 1 show ?case using only_removes_trans by simp
qed simp

lemma newNode_reads: "reading_call (mounted (newNode calls row statfs node_id store_root posting))"
  by unfold_locales (simp add: newNode_def mountedNow_reads)

lemma restart_frame:
  assumes "resume (newNode (mounts n) row statfs (nodeID n) (root (node_store n)) posting) w = (n', w')"
  shows "mtab w' = mtab w" "node_store n' = node_store n" "mounts n' = mounts n" "space n' = spaceOf statfs"
    "only_removes w w'"
proof -
  let ?f = "newNode (mounts n) row statfs (nodeID n) (root (node_store n)) posting"
  have "only_removes w w' \<and> (\<exists>hs. n' = ?f\<lparr>holds := hs\<rparr>)"
  proof -
    obtain x w1 where d: "os_ReadDir (filepath_Join [root (node_store ?f), holdsDirectory]) w = (x, w1)" by fastforce
    have 1: "only_removes w w1" using only_removes_reads [OF os_ReadDir_reads [OF d]] .
    show ?thesis
    proof (cases x)
      case (Inl err)
      then have "n' = ?f" "w' = w1" using assms d by (simp_all add: resume_def)
      moreover have "?f = ?f\<lparr>holds := holds ?f\<rparr>" by simp
      ultimately show ?thesis using 1 by blast
    next
      case (Inr hs)
      obtain n2 w2 where e: "resume_entries hs ?f w1 = (n2, w2)" by fastforce
      have "n' = n2" "w' = reportVolumes n2 w2" using assms d Inr e by (auto simp: resume_def)
      moreover have "only_removes w w2" "n2 = ?f\<lparr>holds := holds n2\<rparr>"
        using resume_entries_frame [OF e newNode_reads] only_removes_trans [OF 1] by auto
      ultimately show ?thesis by (auto simp: only_removes_def)
    qed
  qed
  then show "mtab w' = mtab w" "node_store n' = node_store n" "mounts n' = mounts n" "space n' = spaceOf statfs"
    "only_removes w w'"
    by (auto simp: newNode_def newStore_def only_removes_def)
qed

text \<open>A restart that is orderly at a handle takes back its hold exactly where the mount stands.\<close>

lemma orderly_restart:
  assumes "orderly row n w h" "proc_table row"
    and "resume (newNode (mounts n) row statfs (nodeID n) (root (node_store n)) posting) w = (n', w')"
  shows "holder n' h = (case holder n h of
      None \<Rightarrow> None | Some k \<Rightarrow> if Target k \<in> set (mount_points w) then Some k else None)"
    "h \<notin> set (astray_holds n n' w)"
proof -
  let ?f = "newNode (mounts n) row statfs (nodeID n) (root (node_store n)) posting"
  have s: "node_store ?f = node_store n" "holds ?f = []" by (simp_all add: newNode_def newStore_def)
  have o: "healthy w" "wf_tree w" "plain_holds (node_store ?f) w" "readable_table row (mtab w)" "recorded_at n w h"
    unfolding s using assms(1) by (simp_all add: orderly_def)
  note R = resume_healthy [OF o(1-3) newNode_asks_kernel [OF assms(2) o(4)] s(2) assms(3), unfolded s(1)]
  have d: "dir_at w (holds_place (node_store n))" if "fs w (hold_place (node_store n) h) \<noteq> None"
    using o(2) that wf_tree_parent [of w "holds_place (node_store n)" h] by (simp add: hold_place_def)
  have "holder n' h = (if dir_at w (holds_place (node_store n)) then standing (node_store n) w h else None)"
    by (rule R(1))
  also have "\<dots> = (case holder n h of
      None \<Rightarrow> None | Some k \<Rightarrow> if Target k \<in> set (mount_points w) then Some k else None)"
  proof (cases "holder n h")
    case None
    then have "fs w (hold_place (node_store n) h) = None" using o(5) by (simp add: recorded_at_def)
    then show ?thesis using None by (simp add: standing_def)
  next
    case (Some k)
    then obtain m where f: "fs w (hold_place (node_store n) h) = Some (Reg m (json_Marshal k))" "utf8_hold k"
      using o(5) by (auto simp: recorded_at_def)
    then show ?thesis using Some d Unmarshal_Marshal [OF f(2)] by (simp add: standing_def)
  qed
  finally show *: "holder n' h = (case holder n h of
      None \<Rightarrow> None | Some k \<Rightarrow> if Target k \<in> set (mount_points w) then Some k else None)" .
  then show "h \<notin> set (astray_holds n n' w)"
    by (auto simp: astray_holds_iff gone_holds_iff split: option.splits if_splits)
qed

context kubelet
begin

lemma restarted_ok:
  assumes inv: "sys_inv target_of A (n, w)" and "reading_call statfs"
    and r: "resume (newNode (mounts n) row statfs (nodeID n) (root (node_store n)) posting) w = (n', w')"
  shows "step_ok target_of A (n, w) (Restarted (gone_holds n n' w) (astray_holds n n' w)) (n', w')"
proof -
  note F = restart_frame [OF r]
  let ?A = "A \<union> set (astray_holds n n' w)"
  have kept: "holder n' h = holder n h \<or> h \<in> set (gone_holds n n' w)" if "h \<notin> ?A" for h
    using that by (auto simp: astray_holds_iff)
  have "handle_inv target_of (n', w') h" if h: "h \<notin> ?A" for h
  proof (cases "h \<in> set (gone_holds n n' w)")
    case False
    then have "holder n' h = holder n h" using kept [OF h] by blast
    then show ?thesis using handle_inv_same [of target_of n w h n' w'] sys_invD(5) [OF inv] h F(1,2) by simp
  next
    case True
    then obtain k where k: "holder n' h = None" "holder n h = Some k" "Target k \<notin> set (mount_points w)"
      by (auto simp: gone_holds_iff)
    have "mnt_source m \<noteq> copy_place (node_store n) h" if m: "m \<in> set (mtab w)" for m
    proof
      assume "mnt_source m = copy_place (node_store n) h"
      then obtain k' where "holder n h = Some k'" "mnt_point m = locate (Target k')"
        using sys_invD(7) [OF inv _ m] h by blast
      then have "mnt_point m = locate (Target k)" using k(2) by simp
      moreover have "path_text (locate (Target k)) = Target k"
        using sys_invD(6) [OF inv _ k(2)] h target_clean [of "PodUID k" h] by simp
      ultimately show False using k(3) m by (force simp: mount_points_def)
    qed
    then show ?thesis using k(1) F by (simp add: handle_inv_def)
  qed
  then have "sys_inv target_of ?A (n', w')"
    using sys_invD [OF inv] F reading_spaceOf [OF assms(2)] by (simp add: sys_inv_def)
  moreover have "spec_step (Restarted (gone_holds n n' w) (astray_holds n n' w)) (grants_of A (n, w)) =
      Some (grants_of ?A (n', w'))"
  proof -
    have "grants_of ?A (n', w') h =
        (if h \<in> set (astray_holds n n' w) \<or> grants_of A (n, w) h = Astray then Astray
         else if h \<in> set (gone_holds n n' w) then Free else grants_of A (n, w) h)" for h
    proof (cases "h \<in> ?A")
      case False
      have "grant_of n' h = (if h \<in> set (gone_holds n n' w) then Free else grant_of n h)"
        using kept [OF False] by (auto simp: grant_of_def gone_holds_iff)
      then show ?thesis using False by (simp add: grants_of_def)
    qed (auto simp: grants_of_def)
    then show ?thesis by (simp add: fun_eq_iff)
  qed
  moreover have "{h. strays h (Restarted (gone_holds n n' w) (astray_holds n n' w))} = set (astray_holds n n' w)"
    by simp
  ultimately show ?thesis by (simp add: step_ok_def)
qed

lemma sys_step_ok:
  assumes "sys_step target_of row s l s'" "sys_inv target_of A s"
  shows "step_ok target_of A s l s'"
  using assms(1)
proof cases
  case (granted u r h n w n' w')
  then show ?thesis using granted_ok assms(2) by blast
next
  case (refused u r h n w err n' w')
  then show ?thesis using refused_ok assms(2) by blast
next
  case (released u h r n w n' w')
  then show ?thesis using released_ok assms(2) by blast
next
  case (not_released u h r n w err n' w')
  then show ?thesis using not_released_ok assms(2) by blast
next
  case (measured n rs w a w')
  then show ?thesis using quiet_mtab_ok stats_mtab sys_invD(2) assms(2) by blast
next
  case (swept n w named)
  then show ?thesis using quiet_mtab_ok sweep_mtab assms(2) by blast
next
  case (probed random i w b w' n)
  then show ?thesis using quiet_mtab_ok probe_mtab assms(2) by blast
next
  case (restarted statfs n w n' w')
  then show ?thesis using restarted_ok assms(2) by blast
next
  case (outside w' n w)
  then show ?thesis using quiet_ok assms(2) by blast
qed

lemma sys_run_ok:
  "sys_run target_of row s ls s' \<Longrightarrow> sys_inv target_of A s \<Longrightarrow>
     sys_inv target_of (A \<union> strayed ls) s' \<and> spec_run ls (grants_of A s) = Some (grants_of (A \<union> strayed ls) s')"
proof (induction arbitrary: A rule: sys_run.induct)
  case (step s l s' ls s'')
  then have "step_ok target_of A s l s'" using sys_step_ok by blast
  then show ?case using step.IH [of "A \<union> {h. strays h l}"] by (simp add: step_ok_def Let_def Un_assoc)
qed simp

lemma sys_init_inv: "sys_init s \<Longrightarrow> sys_inv target_of A s"
  by (cases s) (auto simp: sys_init_def sys_inv_def handle_inv_def holder_def copy_place_def)

text \<open>From a start, the handles that strayed are the ones the table promises nothing for.\<close>

lemma sys_run_start:
  assumes "sys_run target_of row s ls s'" "sys_init s"
  shows "sys_inv target_of (strayed ls) s'" "spec_run ls (\<lambda>h. Free) = Some (grants_of (strayed ls) s')"
proof -
  have "grants_of {} s = (\<lambda>h. Free)"
    using assms(2) by (cases s) (simp add: sys_init_def grants_of_def grant_of_def holder_def)
  then show "sys_inv target_of (strayed ls) s'" "spec_run ls (\<lambda>h. Free) = Some (grants_of (strayed ls) s')"
    using sys_run_ok [OF assms(1) sys_init_inv [OF assms(2), of "{}"]] by simp_all
qed

end

inductive_simps sys_run_Nil: "sys_run T row s [] t"
inductive_simps sys_run_Cons: "sys_run T row s (l # ls) t"

lemma sys_run_append:
  "sys_run T row s (xs @ ys) s' \<longleftrightarrow> (\<exists>t. sys_run T row s xs t \<and> sys_run T row t ys s')"
proof (induction xs arbitrary: s)
  case Nil
  show ?case unfolding append_Nil sys_run_Nil by blast
next
  case (Cons l xs)
  show ?case unfolding append_Cons sys_run_Cons Cons.IH by blast
qed

subsection \<open>A run\<close>

text \<open>
  A sequence of the kubelet's calls on the handle \<open>data\<close>, with the labels that the answers give
  it. In the sample one pod takes the handle, a second one is refused and taken down, the first
  leaves, and the second takes the handle.
\<close>

definition sys_start :: sys where
  "sys_start = (sample_node\<lparr>mounts := steady_calls, space := spaceOf sample_statfs\<rparr>, sample_world)"

datatype pod_call = Publish string | Unpublish string

definition pod_publish :: "string \<Rightarrow> NodePublishVolumeRequest" where
  "pod_publish u = sample_publish u (kubelet_target u ''data'')"

definition pod_unpublish :: "string \<Rightarrow> NodeUnpublishVolumeRequest" where
  "pod_unpublish u =
     \<lparr>unpublish_VolumeId = ''data'', unpublish_TargetPath = kubelet_target u ''data''\<rparr>"

fun pod_call_step :: "pod_call \<Rightarrow> sys \<Rightarrow> label \<times> sys" where
  "pod_call_step (Publish u) (n, w) =
     (case NodePublishVolume n (pod_publish u) w of
        (Inr a, s) \<Rightarrow> (Granted u ''data'', s)
      | (Inl err, s) \<Rightarrow> (Refused u ''data'', s))"
| "pod_call_step (Unpublish u) (n, w) =
     (case NodeUnpublishVolume n (pod_unpublish u) w of
        (Inr a, s) \<Rightarrow> (Released u ''data'', s)
      | (Inl err, s) \<Rightarrow> (NotReleased u ''data'', s))"

fun pod_calls :: "pod_call list \<Rightarrow> sys \<Rightarrow> label list \<times> sys" where
  "pod_calls [] s = ([], s)"
| "pod_calls (c # cs) s =
     (case pod_call_step c s of (l, s) \<Rightarrow> (case pod_calls cs s of (ls, s) \<Rightarrow> (l # ls, s)))"

fun caller :: "pod_call \<Rightarrow> string" where
  "caller (Publish u) = u"
| "caller (Unpublish u) = u"

lemma pod_publish_fields [simp]:
  "uid (podOf (publish_VolumeContext (pod_publish u))) = u" "publish_VolumeId (pod_publish u) = ''data''"
  "publish_TargetPath (pod_publish u) = kubelet_target u ''data''"
  "unpublish_VolumeId (pod_unpublish u) = ''data''"
  "unpublish_TargetPath (pod_unpublish u) = kubelet_target u ''data''"
  by (simp_all add: pod_publish_def pod_unpublish_def)

lemma pod_call_is_step:
  assumes "pod_call_step c s = (l, s')" "plain_name (caller c)"
  shows "sys_step kubelet_target row s l s'"
proof (cases c)
  case (Publish u)
  then show ?thesis
    using assms sys_step.granted [where r = "pod_publish u" and target_of = kubelet_target and row = row]
      sys_step.refused [where r = "pod_publish u" and target_of = kubelet_target and row = row]
    by (cases s; cases s') (auto split: prod.splits sum.splits)
next
  case (Unpublish u)
  then show ?thesis
    using assms sys_step.released [where r = "pod_unpublish u" and target_of = kubelet_target and row = row]
      sys_step.not_released [where r = "pod_unpublish u" and target_of = kubelet_target and row = row]
    by (cases s; cases s') (auto split: prod.splits sum.splits)
qed

lemma pod_calls_are_a_run:
  "pod_calls cs s = (ls, s') \<Longrightarrow> \<forall>c \<in> set cs. plain_name (caller c) \<Longrightarrow> sys_run kubelet_target row s ls s'"
  by (induction cs arbitrary: s ls)
    (auto split: prod.splits intro: sys_run.none sys_run.step pod_call_is_step)

definition sample_calls :: "pod_call list" where
  "sample_calls = [Publish ''u1'', Publish ''u2'', Unpublish ''u2'', Unpublish ''u1'', Publish ''u2'']"

definition sample_labels :: "label list" where
  "sample_labels =
     [Granted ''u1'' ''data'', Refused ''u2'' ''data'', Released ''u2'' ''data'',
      Released ''u1'' ''data'', Granted ''u2'' ''data'']"

lemma sample_answers: "fst (pod_calls sample_calls sys_start) = sample_labels"
  by code_simp

lemma sample_pods: "plain_name ''u1''" "plain_name ''u2''"
  by code_simp+

lemma sample_sys_run: "sys_run kubelet_target row sys_start sample_labels (snd (pod_calls sample_calls sys_start))"
proof (rule pod_calls_are_a_run)
  show "pod_calls sample_calls sys_start = (sample_labels, snd (pod_calls sample_calls sys_start))"
    using sample_answers by (metis prod.collapse)
  show "\<forall>c \<in> set sample_calls. plain_name (caller c)" by (simp add: sample_calls_def sample_pods)
qed

lemma sample_first_run:
  "\<exists>n w. sys_run kubelet_target row sys_start [Granted ''u1'' ''data''] (n, w) \<and> node_store n = \<lparr>root = ''/store''\<rparr> \<and>
     mtab w = [\<lparr>mnt_point = locate (kubelet_target ''u1'' ''data''),
       mnt_source = [''store'', ''copies'', ''data''], mnt_ro = False\<rparr>]"
proof -
  obtain n0 w0 where s: "sys_start = (n0, w0)" by (cases sys_start)
  obtain n w where p: "NodePublishVolume n0 (pod_publish ''u1'') w0 = (Inr (), n, w)"
  proof -
    have "hd sample_labels = fst (pod_call_step (Publish ''u1'') sys_start)"
      unfolding sample_answers [symmetric] sample_calls_def by (simp split: prod.split)
    then show thesis
      using that by (auto simp: sample_labels_def s split: prod.splits sum.splits)
  qed
  then have "pod_calls [Publish ''u1''] sys_start = ([Granted ''u1'' ''data''], (n, w))" by (simp add: s)
  then have run: "sys_run kubelet_target row sys_start [Granted ''u1'' ''data''] (n, w)"
    by (rule pod_calls_are_a_run) (simp add: sample_pods)
  have n0: "mounts n0 = steady_calls" "node_store n0 = \<lparr>root = ''/store''\<rparr>" "holder n0 h = None" "mtab w0 = []"
    for h using s by (auto simp: sys_start_def sample_world_def holder_def)
  have b: "bind_kernel (mounts n0)" using n0(1) by (simp add: sk.bind_kernel_axioms)
  have c: "copy_place \<lparr>root = ''/store''\<rparr> ''data'' = [''store'', ''copies'', ''data'']" by code_simp
  from b p have "node_store n = \<lparr>root = ''/store''\<rparr> \<and>
      mtab w = [\<lparr>mnt_point = locate (kubelet_target ''u1'' ''data''),
       mnt_source = [''store'', ''copies'', ''data''], mnt_ro = False\<rparr>]"
    by (cases rule: granted_cases)
      (simp_all add: n0 c cleared_def mounted_at_def pod_publish_def sample_publish_def)
  with run show ?thesis by blast
qed

lemma sys_start_init: "sys_init sys_start"
proof -
  have "distinct (map mnt_point (mtab sample_world))" "mtab sample_world = []"
    by (simp_all add: sample_world_def)
  then show ?thesis
    by (simp add: sys_init_def sys_start_def sk.detaching_kernel_axioms
        reading_spaceOf [OF ss.reading_call_axioms])
qed

subsection \<open>Properties\<close>

text \<open>
  C1. One pod per handle: in every state that the kubelet's calls, the sweep, the probes,
  restarts and everything else on the node can lead to, in any order and whatever the kernel
  refuses but a detach of the driver's own mount, a mount of the copy of a handle that no restart
  has lost track of is at the target of the pod that holds the handle, and it is the only mount of
  that copy. A restart from there loses track of the handle at most where it is not orderly: a
  call is refused to it, the mount table cannot be read, or the file of the hold does not say what
  the driver knew, as after a write of the hold that was refused and only logged.
\<close>

theorem one_pod_per_handle:
  assumes "kubelet T" "proc_table row" "sys_init s" "sys_run T row s ls (n, w)" "h \<notin> strayed ls"
  shows "(\<forall>m \<in> set (mtab w). mnt_source m = copy_place (node_store n) h \<longrightarrow>
      (\<exists>k. holder n h = Some k \<and> mnt_point m = locate (T (PodUID k) h)) \<and>
      (\<forall>m' \<in> set (mtab w). mnt_source m' = copy_place (node_store n) h \<longrightarrow> m' = m)) \<and>
    (\<forall>l s'. sys_step T row (n, w) l s' \<and> orderly row n w h \<longrightarrow> \<not> strays h l)"
proof (intro conjI ballI impI allI)
  note inv = sys_invD [OF kubelet.sys_run_start(1) [OF assms(1,4,3)]]
  have at: "\<exists>k. holder n h = Some k \<and> Target k = T (PodUID k) h \<and> mnt_point m = locate (Target k)"
    if "m \<in> set (mtab w)" "mnt_source m = copy_place (node_store n) h" for m
    using inv(7) [OF assms(5) that] inv(6) [OF assms(5)] by blast
  fix m assume m: "m \<in> set (mtab w)" "mnt_source m = copy_place (node_store n) h"
  show "\<exists>k. holder n h = Some k \<and> mnt_point m = locate (T (PodUID k) h)" using at [OF m] by metis
  fix m' assume m': "m' \<in> set (mtab w)" "mnt_source m' = copy_place (node_store n) h"
  have "inj_on mnt_point (set (mtab w))" using inv(4) by (simp add: distinct_map)
  then show "m' = m" using at [OF m] at [OF m'] m(1) m'(1) by (auto intro: inj_onD)
next
  fix l s' assume s: "sys_step T row (n, w) l s' \<and> orderly row n w h"
  then have "sys_step T row (n, w) l s'" by blast
  then show "\<not> strays h l" using s by cases (auto dest: orderly_restart(2) [OF _ assms(2)])
qed

lemma one_pod_per_handle_witness:
  "\<exists>n w k. sys_run kubelet_target linux_row sys_start [Granted ''u1'' ''data''] (n, w) \<and> length (mtab w) = 1 \<and>
     holder n ''data'' = Some k \<and>
     mnt_point (hd (mtab w)) = locate (kubelet_target (PodUID k) ''data'')"
proof -
  obtain n w where r: "sys_run kubelet_target linux_row sys_start [Granted ''u1'' ''data''] (n, w)"
    and s: "node_store n = \<lparr>root = ''/store''\<rparr>"
    and m: "mtab w = [\<lparr>mnt_point = locate (kubelet_target ''u1'' ''data''),
       mnt_source = [''store'', ''copies'', ''data''], mnt_ro = False\<rparr>]"
    using sample_first_run by blast
  have "copy_place \<lparr>root = ''/store''\<rparr> ''data'' = [''store'', ''copies'', ''data'']" by code_simp
  with one_pod_per_handle [OF kt.kubelet_axioms lr.proc_table_axioms sys_start_init r,
      of "''data''"] m s
  have "\<exists>k. holder n ''data'' = Some k \<and> mnt_point (hd (mtab w)) = locate (kubelet_target (PodUID k) ''data'')"
    by auto
  moreover have "length (mtab w) = 1" by (simp add: m)
  ultimately show ?thesis using r by blast
qed

text \<open>
  C2. Every run of the driver is a run of the specification with the same labels, from the table
  with no grant to the table of the holds, in which the handles that a restart lost track of are
  astray and every other one is given to the pod that holds it or free: the driver refines the
  table of grants.
\<close>

theorem every_run_refines:
  assumes "kubelet T" "sys_init s" "sys_run T row s ls s'"
  shows "spec_run ls (\<lambda>h. Free) = Some (grants_of (strayed ls) s')"
  by (rule kubelet.sys_run_start(2) [OF assms(1,3,2)])

lemma every_run_refines_witness:
  "spec_run sample_labels (\<lambda>h. Free) = Some (grants_of (strayed sample_labels) (snd (pod_calls sample_calls sys_start)))"
  by (rule every_run_refines [OF kt.kubelet_axioms sys_start_init sample_sys_run])

text \<open>
  C3. A handle changes hands only after it was given up: between a publish that gave it to one
  pod and the next that gives it to another, the first pod's target was unpublished, or the driver
  restarted in a state in which the first pod's target was no mount any longer, or in one that was
  not orderly at the handle. No earlier restart had lost track of the handle.
\<close>

theorem handle_changes_hands:
  assumes "kubelet T" "proc_table row" "sys_init s" "h \<notin> strayed xs"
    and "sys_run T row s (xs @ Granted u h # ys @ [Granted u' h]) s'" "u \<noteq> u'"
  shows "\<exists>ys1 l ys2 n w s2. ys = ys1 @ l # ys2 \<and> sys_run T row s (xs @ Granted u h # ys1) (n, w) \<and>
    sys_step T row (n, w) l s2 \<and>
    (l = Released u h \<or>
     (\<exists>lost astray. l = Restarted lost astray \<and> (T u h \<notin> set (mount_points w) \<or> \<not> orderly row n w h)))"
proof -
  note start = kubelet.sys_run_start [OF assms(1) _ assms(3)]
  have given: "g h = GivenTo u"
    if r: "spec_run (xs @ [Granted u h] @ zs) (\<lambda>h. Free) = Some g" and no: "\<forall>l \<in> set zs. \<not> gives_up u h l" for zs g
  proof -
    obtain g1 g2 where g: "spec_run xs (\<lambda>h. Free) = Some g1" "spec_step (Granted u h) g1 = Some g2"
      "spec_run zs g2 = Some g"
      using r by (auto simp: spec_run_append simp del: spec_step.simps split: option.splits)
    obtain t where "sys_run T row s xs t" using assms(5) by (auto simp: sys_run_append)
    then have "g1 h \<noteq> Astray" using start(2) g(1) assms(4) by (auto simp: grants_of_def grant_of_def split: option.splits)
    then have "g2 h = GivenTo u" using g(2) by (auto split: grant.splits if_splits)
    then show ?thesis using spec_run_keeps [OF g(3)] no by blast
  qed
  have "\<exists>l \<in> set ys. gives_up u h l"
  proof (rule ccontr)
    assume no: "\<not> ?thesis"
    obtain g g' where g: "spec_run (xs @ [Granted u h] @ ys) (\<lambda>h. Free) = Some g" "spec_step (Granted u' h) g = Some g'"
      using start(2) [OF assms(5)] by (auto simp: spec_run_append simp del: spec_step.simps split: option.splits)
    then show False using given [OF g(1)] no assms(6) by simp
  qed
  then obtain ys1 l ys2 where ys: "ys = ys1 @ l # ys2" "gives_up u h l" "\<forall>l \<in> set ys1. \<not> gives_up u h l"
    by (rule split_list_first_prop [THEN exE]) blast
  have "sys_run T row s ((xs @ Granted u h # ys1) @ [l] @ ys2 @ [Granted u' h]) s'" using assms(5) ys(1) by simp
  then obtain t t2 where run: "sys_run T row s (xs @ Granted u h # ys1) t" "sys_run T row t [l] t2"
    unfolding sys_run_append [of _ _ _ "xs @ Granted u h # ys1"] sys_run_append [of _ _ _ "[l]"] by blast
  obtain n w where t: "t = (n, w)" by (cases t)
  obtain s2 where st: "sys_step T row (n, w) l s2" using run(2) t by (auto elim: sys_run.cases)
  have tracked: "h \<notin> strayed (xs @ Granted u h # ys1)"
    using assms(4) ys(3) strays_gives_up by (auto simp: strayed_def list_ex_iff)
  have "grants_of (strayed (xs @ Granted u h # ys1)) (n, w) h = GivenTo u"
    using given [of ys1] start(2) [OF run(1)] ys(3) t by simp
  then obtain k where k: "holder n h = Some k" "PodUID k = u"
    using tracked by (auto simp: grants_of_def grant_of_def split: option.splits)
  have target: "Target k = T u h"
    using sys_invD(6) [OF start(1) [OF run(1) [unfolded t]] tracked k(1)] k(2) by blast
  have "l = Released u h \<or>
     (\<exists>lost astray. l = Restarted lost astray \<and> (T u h \<notin> set (mount_points w) \<or> \<not> orderly row n w h))"
    using st
  proof cases
    case (restarted statfs n' w')
    then show ?thesis
      using ys(2) orderly_restart(2) [OF _ assms(2) restarted(4)] k target by (auto simp: gone_holds_iff)
  qed (use ys(2) in auto)
  then show ?thesis using ys(1) run(1) st t by blast
qed

lemma handle_changes_hands_witness:
  "\<exists>ys1 l ys2 n w s2.
    [Refused ''u2'' ''data'', Released ''u2'' ''data'', Released ''u1'' ''data''] = ys1 @ l # ys2 \<and>
    sys_run kubelet_target linux_row sys_start (Granted ''u1'' ''data'' # ys1) (n, w) \<and>
    sys_step kubelet_target linux_row (n, w) l s2 \<and>
    (l = Released ''u1'' ''data'' \<or> (\<exists>lost astray. l = Restarted lost astray))"
proof -
  have "sys_run kubelet_target linux_row sys_start ([] @ Granted ''u1'' ''data'' #
      [Refused ''u2'' ''data'', Released ''u2'' ''data'', Released ''u1'' ''data''] @ [Granted ''u2'' ''data''])
      (snd (pod_calls sample_calls sys_start))"
    using sample_sys_run by (simp add: sample_labels_def)
  from handle_changes_hands [OF kt.kubelet_axioms lr.proc_table_axioms sys_start_init _ this]
  show ?thesis unfolding append_Nil by (simp only: strayed_simps) blast
qed

end
