(* ===== verification/Follow.thy ===== *)
theory Follow
  imports Sweep
begin

section \<open>sweep.go: the loop of follow\<close>

text \<open>
  \<open>follow\<close> is a machine of three parts that share the informer's cache and two one-slot
  channels: client-go's reflector, which changes the cache and calls the delete handler, the
  ticker, and the loop. \<open>follow_event\<close> lists what each part can do, and \<open>follow_step\<close> is
  the machine: \<open>None\<close> where the part cannot do it now. A pass reads the cache when it begins.
  client-go takes a deleted object out of the cache before it calls the handler, so between the
  two the object counts as \<open>pending\<close>. The first list goes into the cache object by object before
  anything the watch reports, and the informer has synced when all of it is there. An object that
  is put under a name the cache knows is an update, whatever it is: Kubernetes keeps the handle of
  a volume as it is, but a volume that was deleted and created again under one name while no watch
  was open comes as an update too, with another handle, and no handler runs for it.

  Three fields are not in the code: \<open>last_named\<close> is the handles the last pass saw, \<open>passes\<close>
  how many there were, and \<open>taken_over\<close> the handles of the objects that an update has put
  another handle in the place of since the last pass.
\<close>

datatype follow_phase = Waiting | Looping | Returned | Panicked

record follow_state =
  client_there :: bool
  every :: int                              \<comment> \<open>nanoseconds\<close>
  phase :: follow_phase
  synced :: bool
  unread :: "(string \<times> object) list option" \<comment> \<open>what is left of the first list; \<open>None\<close> before it\<close>
  cache :: "(string \<times> object) list"
  pending :: nat
  deleted :: bool
  tick :: bool
  last_named :: "string list"
  passes :: nat
  taken_over :: "string list"

datatype follow_event =
    Listed "(string \<times> object) list"  \<comment> \<open>the API server answers the first list\<close>
  | Put string object        \<comment> \<open>the reflector adds or updates an object\<close>
  | Remove string            \<comment> \<open>the reflector takes an object out of the cache\<close>
  | HandleDelete             \<comment> \<open>and its delete handler runs\<close>
  | Sync                     \<comment> \<open>the first list is in the cache\<close>
  | Ticked                   \<comment> \<open>the ticker sends\<close>
  | Begin                    \<comment> \<open>the loop's first pass\<close>
  | TakeDeleted              \<comment> \<open>the loop receives from \<open>deleted\<close>\<close>
  | TakeTick                 \<comment> \<open>the loop receives from the ticker\<close>
  | CtxDone                  \<comment> \<open>the loop sees the end of the run\<close>

definition follow_start :: "bool \<Rightarrow> int \<Rightarrow> world \<Rightarrow> follow_state \<times> world" where
  "follow_start with_client interval w =
     (let f = \<lparr>client_there = with_client, every = interval, phase = Waiting, synced = False, unread = None,
        cache = [], pending = 0, deleted = False, tick = False, last_named = [], passes = 0, taken_over = []\<rparr>
      in if \<not> with_client then
        (f\<lparr>phase := Returned\<rparr>,
         emit (Logged LogWarn ''no sweep'' [(''reason'', Str ''the driver reached no cluster'')]) w)
      else (f, w))"

definition named_now :: "follow_state \<Rightarrow> string list" where
  "named_now f = handlesOf (map snd (cache f))"

definition follow_pass :: "node \<Rightarrow> follow_state \<Rightarrow> world \<Rightarrow> follow_state \<times> world" where
  "follow_pass n f w =
     (f\<lparr>last_named := named_now f, passes := Suc (passes f), taken_over := []\<rparr>, sweep n (named_now f) w)"

text \<open>What is left of the first list after an object, and the handle an update takes away.\<close>

fun next_unread :: "(string \<times> object) list option \<Rightarrow> string \<times> object \<Rightarrow> (string \<times> object) list option" where
  "next_unread None x = None"
| "next_unread (Some []) x = Some []"
| "next_unread (Some (y # later)) x = (if x = y then Some later else None)"

definition displaced :: "object option \<Rightarrow> object \<Rightarrow> string list" where
  "displaced old obj =
     (case old of
        None \<Rightarrow> []
      | Some old \<Rightarrow> if handlesOf [obj] = handlesOf [old] then [] else handlesOf [old])"

fun follow_step :: "node \<Rightarrow> follow_event \<Rightarrow> follow_state \<Rightarrow> world \<Rightarrow> (follow_state \<times> world) option" where
  "follow_step n (Listed objs) f w =
     (if unread f = None then Some (f\<lparr>unread := Some objs\<rparr>, w) else None)"
| "follow_step n (Put key obj) f w =
     (case next_unread (unread f) (key, obj) of
        None \<Rightarrow> None
      | Some later \<Rightarrow>
          Some (f\<lparr>unread := Some later, cache := AList.update key (dropManagedFields obj) (cache f),
                 taken_over := displaced (map_of (cache f) key) obj @ taken_over f\<rparr>, w))"
| "follow_step n (Remove key) f w =
     (if unread f \<noteq> Some [] \<or> map_of (cache f) key = None then None
      else Some (f\<lparr>cache := AList.delete key (cache f), pending := Suc (pending f)\<rparr>, w))"
| "follow_step n HandleDelete f w =
     (case pending f of
        0 \<Rightarrow> None
      | Suc k \<Rightarrow> Some (f\<lparr>pending := k, deleted := wake (deleted f)\<rparr>, w))"
| "follow_step n Sync f w = (if unread f = Some [] then Some (f\<lparr>synced := True\<rparr>, w) else None)"
| "follow_step n Ticked f w = (if phase f = Looping then Some (f\<lparr>tick := True\<rparr>, w) else None)"
| "follow_step n Begin f w =
     (if phase f = Waiting \<and> synced f then
        (if every f \<le> 0 then Some (f\<lparr>phase := Panicked\<rparr>, w)
         else Some (follow_pass n (f\<lparr>phase := Looping\<rparr>) w))
      else None)"
| "follow_step n TakeDeleted f w =
     (if phase f = Looping \<and> deleted f then Some (follow_pass n (f\<lparr>deleted := False\<rparr>) w) else None)"
| "follow_step n TakeTick f w =
     (if phase f = Looping \<and> tick f then Some (follow_pass n (f\<lparr>tick := False\<rparr>) w) else None)"
| "follow_step n CtxDone f w =
     (case phase f of
        Waiting \<Rightarrow>
          Some (f\<lparr>phase := Returned\<rparr>,
            emit (Logged LogWarn ''no sweep'' [(''reason'', Str ''the volumes did not sync'')]) w)
      | Looping \<Rightarrow> Some (f\<lparr>phase := Returned\<rparr>, w)
      | _ \<Rightarrow> None)"

text \<open>
  The states the machine can reach. Between two steps the node and the world may change in any
  way: the kubelet's calls run all the time.
\<close>

inductive follow_reach :: "follow_state \<Rightarrow> bool" where
  started: "follow_start with_client interval w = (f, w') \<Longrightarrow> follow_reach f"
| stepped: "follow_reach f \<Longrightarrow> follow_step n e f w = Some (f', w') \<Longrightarrow> follow_reach f'"

subsection \<open>Facts on the cache\<close>

lemma handlesOf_drop [simp]: "handlesOf [dropManagedFields obj] = handlesOf [obj]"
  by (cases obj) simp_all

lemma handlesOf_Cons: "handlesOf (x # xs) = handlesOf [x] @ handlesOf xs"
  by (cases x) (auto split: option.split)

lemma handlesOf_iff:
  "h \<in> set (handlesOf os) \<longleftrightarrow>
     (\<exists>v s. PersistentVolume v \<in> set os \<and> spec_CSI v = Some s \<and> Driver s = driverName \<and>
       VolumeHandle s = h)"
  by (induction os rule: handlesOf.induct) (auto split: option.splits)

lemma handlesOf_update_new:
  "map_of c key = None \<Longrightarrow>
     set (handlesOf (map snd (AList.update key x c))) = set (handlesOf (map snd c)) \<union> set (handlesOf [x])"
proof (induction c)
  case (Cons a c)
  then show ?case
    using handlesOf_Cons [of "snd a" "map snd c"] handlesOf_Cons [of x "map snd c"]
      handlesOf_Cons [of "snd a" "map snd (AList.update key x c)"]
    by (cases a) (auto split: if_splits)
qed simp

lemma handlesOf_update_old:
  "map_of c key = Some old \<Longrightarrow>
     set (handlesOf (map snd c)) \<subseteq> set (handlesOf (map snd (AList.update key x c))) \<union> set (handlesOf [old]) \<and>
     (handlesOf [x] = handlesOf [old] \<longrightarrow> handlesOf (map snd (AList.update key x c)) = handlesOf (map snd c))"
proof (induction c)
  case (Cons a c)
  obtain k y where a: "a = (k, y)" by (cases a)
  show ?case
  proof (cases "k = key")
    case True
    with Cons.prems a have "old = y" by simp
    then show ?thesis
      using True a handlesOf_Cons [of x "map snd c"] handlesOf_Cons [of y "map snd c"] by auto
  next
    case False
    then show ?thesis
      using Cons a handlesOf_Cons [of y "map snd c"] handlesOf_Cons [of y "map snd (AList.update key x c)"]
      by auto
  qed
qed simp

lemma handlesOf_member: "map_of c key = Some old \<Longrightarrow> set (handlesOf [old]) \<subseteq> set (handlesOf (map snd c))"
  by (auto simp: handlesOf_iff dest!: map_of_SomeD) force

text \<open>A put loses no handle but the one it displaces.\<close>

lemma handlesOf_put:
  "set (handlesOf (map snd c)) \<subseteq>
     set (handlesOf (map snd (AList.update key (dropManagedFields obj) c))) \<union> set (displaced (map_of c key) obj)"
  using handlesOf_update_new [of c key "dropManagedFields obj"]
    handlesOf_update_old [of c key _ "dropManagedFields obj"]
  by (cases "map_of c key") (auto simp: displaced_def)

subsection \<open>The invariant of the loop\<close>

text \<open>
  A handle the last pass saw named and the cache names no longer has a wake-up on its way; a
  pass has happened only after the first list, and never in a driver without a client.
\<close>

definition follow_inv :: "follow_state \<Rightarrow> bool" where
  "follow_inv f \<longleftrightarrow>
     (set (last_named f) \<subseteq> set (named_now f) \<union> set (taken_over f) \<or> deleted f \<or> pending f \<noteq> 0) \<and>
     (passes f \<noteq> 0 \<longrightarrow> synced f \<and> client_there f \<and> every f > 0) \<and>
     (synced f \<longrightarrow> unread f = Some []) \<and>
     (phase f = Waiting \<longrightarrow> client_there f) \<and> (phase f = Looping \<longrightarrow> passes f \<noteq> 0)"

lemma follow_start_inv: "follow_start c i w = (f, w') \<Longrightarrow> follow_inv f"
  by (auto simp: follow_start_def follow_inv_def Let_def split: if_splits)

lemma follow_step_inv:
  assumes "follow_inv f" "follow_step n e f w = Some (f', w')"
  shows "follow_inv f'"
proof (cases e)
  case (Listed objs)
  then show ?thesis using assms by (auto simp: follow_inv_def named_now_def split: if_splits)
next
  case (Put key obj)
  then obtain later where f': "f' = f\<lparr>unread := Some later,
        cache := AList.update key (dropManagedFields obj) (cache f),
        taken_over := displaced (map_of (cache f) key) obj @ taken_over f\<rparr>"
    and l: "next_unread (unread f) (key, obj) = Some later"
    using assms(2) by (auto split: option.splits)
  have "unread f = Some [] \<Longrightarrow> later = []" using l by simp
  then show ?thesis
    using assms(1) f' handlesOf_put [of "cache f" key obj] by (auto simp: follow_inv_def named_now_def)
next
  case (Remove key)
  then have "f' = f\<lparr>cache := AList.delete key (cache f), pending := Suc (pending f)\<rparr>"
    using assms(2) by (simp split: if_split_asm)
  then show ?thesis using assms(1) by (simp add: follow_inv_def)
next
  case HandleDelete
  then have "deleted f'" "named_now f' = named_now f" "phase f' = phase f" "passes f' = passes f"
    "last_named f' = last_named f" "synced f' = synced f" "unread f' = unread f" "client_there f' = client_there f" "every f' = every f"
    using assms(2) by (auto simp: wake_def named_now_def split: nat.split_asm)
  then show ?thesis using assms(1) by (simp add: follow_inv_def)
next
  case Sync
  then show ?thesis using assms by (auto simp: follow_inv_def named_now_def split: if_splits)
next
  case Ticked
  then have "f' = f\<lparr>tick := True\<rparr>" using assms(2) by (simp split: if_split_asm)
  then show ?thesis using assms(1) by (simp add: follow_inv_def named_now_def)
next
  case Begin
  then show ?thesis
    using assms by (auto simp: follow_inv_def named_now_def follow_pass_def split: if_split_asm)
next
  case TakeDeleted
  then have "phase f = Looping" "f' = fst (follow_pass n (f\<lparr>deleted := False\<rparr>) w)"
    using assms(2) by (simp_all split: if_split_asm)
  then show ?thesis using assms(1) by (simp add: follow_inv_def named_now_def follow_pass_def)
next
  case TakeTick
  then have "phase f = Looping" "f' = fst (follow_pass n (f\<lparr>tick := False\<rparr>) w)"
    using assms(2) by (simp_all split: if_split_asm)
  then show ?thesis using assms(1) by (simp add: follow_inv_def named_now_def follow_pass_def)
next
  case CtxDone
  then have "phase f' = Returned" "f' = f\<lparr>phase := Returned\<rparr>"
    using assms(2) by (auto split: follow_phase.split_asm)
  then show ?thesis using assms(1) by (simp add: follow_inv_def named_now_def)
qed

lemma follow_reach_inv: "follow_reach f \<Longrightarrow> follow_inv f"
  by (induction rule: follow_reach.induct) (auto intro: follow_start_inv follow_step_inv)

subsection \<open>Runs\<close>

fun follow_run :: "node \<Rightarrow> follow_event list \<Rightarrow> follow_state \<Rightarrow> world \<Rightarrow> (follow_state \<times> world) option" where
  "follow_run n [] f w = Some (f, w)"
| "follow_run n (e # es) f w =
     (case follow_step n e f w of None \<Rightarrow> None | Some (f, w) \<Rightarrow> follow_run n es f w)"

lemma follow_run_reach:
  "follow_reach f \<Longrightarrow> follow_run n es f w = Some (f', w') \<Longrightarrow> follow_reach f'"
  by (induction es arbitrary: f w) (auto split: option.splits intro: follow_reach.stepped)

definition sample_volume :: object where
  "sample_volume = PersistentVolume \<lparr>managedFields = [''kubectl''],
     spec_CSI = Some \<lparr>Driver = driverName, VolumeHandle = ''old''\<rparr>\<rparr>"

definition sample_run :: "follow_event list \<Rightarrow> (follow_state \<times> world) option" where
  "sample_run es =
     (case follow_start True 600000000000 sample_world of (f, w) \<Rightarrow> follow_run sample_held es f w)"

lemma sample_run_reach: "sample_run es = Some (f, w) \<Longrightarrow> follow_reach f"
  unfolding sample_run_def
  by (cases "follow_start True 600000000000 sample_world")
    (auto intro: follow_run_reach follow_reach.started)

subsection \<open>Properties\<close>

text \<open>
  C10. No deletion that the informer hands over is lost: in every state the loop can reach, a
  handle that the last pass took for named and that no cached volume names any longer has a
  wake-up in the channel or a delete handler still to run, however the reflector, the ticker and
  the loop interleave. The one exception is a handle whose volume an update has replaced by
  another handle's under the same name: for that no handler runs, and the copy waits.
\<close>

theorem no_deletion_is_lost:
  assumes "follow_reach f" "h \<in> set (last_named f)" "h \<notin> set (named_now f)"
  shows "deleted f \<or> pending f \<noteq> 0 \<or> h \<in> set (taken_over f)"
  using follow_reach_inv [OF assms(1)] assms(2,3) by (auto simp: follow_inv_def)

lemma no_deletion_is_lost_witness:
  "\<exists>f. follow_reach f \<and> ''old'' \<in> set (last_named f) \<and> taken_over f = [] \<and> (deleted f \<or> pending f \<noteq> 0)"
proof -
  let ?es = "[Listed [(''a'', sample_volume)], Put ''a'' sample_volume, Sync, Begin, Remove ''a'', HandleDelete]"
  have "case sample_run ?es of None \<Rightarrow> False
      | Some (f, w) \<Rightarrow> ''old'' \<in> set (last_named f) \<and> ''old'' \<notin> set (named_now f) \<and> taken_over f = []"
    by code_simp
  then obtain f w where r: "sample_run ?es = Some (f, w)"
    and f: "''old'' \<in> set (last_named f)" "''old'' \<notin> set (named_now f)" "taken_over f = []"
    by (auto split: option.splits)
  from no_deletion_is_lost [OF sample_run_reach [OF r] f(1,2)] f sample_run_reach [OF r] show ?thesis
    by auto
qed

text \<open>
  A volume that was deleted and created again under its name while no watch was open, with
  another handle, comes as an update: the copy of the old handle is named no longer, and no pass
  begins for it, whatever is put, until the ticker sends or another volume is removed. The tick
  then starts a pass that does not take the old handle for named.
\<close>

theorem recreated_volume_waits_for_the_tick:
  assumes "phase f = Looping" "unread f = Some []" "\<not> deleted f" "\<not> tick f" "pending f = 0"
    and "map_of (cache f) key = Some old" "h \<in> set (handlesOf [old])"
    and "h \<notin> set (handlesOf (map snd (AList.update key (dropManagedFields obj) (cache f))))"
  shows "\<exists>g. follow_step n (Put key obj) f w = Some (g, w) \<and> h \<notin> set (named_now g) \<and> h \<in> set (taken_over g) \<and>
    (\<forall>es g' w'. follow_run n es g w = Some (g', w') \<longrightarrow> Ticked \<notin> set es \<longrightarrow> (\<forall>k. Remove k \<notin> set es) \<longrightarrow>
      passes g' = passes f \<and> tree w' = tree w) \<and>
    (\<exists>g' w'. follow_run n [Ticked, TakeTick] g w = Some (g', w') \<and> passes g' = Suc (passes f) \<and>
      h \<notin> set (last_named g'))"
proof -
  let ?g = "f\<lparr>cache := AList.update key (dropManagedFields obj) (cache f),
      taken_over := displaced (Some old) obj @ taken_over f\<rparr>"
  have p: "follow_step n (Put key obj) f w = Some (?g, w)" using assms(2,6) by simp
  have other: "handlesOf [obj] \<noteq> handlesOf [old]"
    using assms(7,8) handlesOf_update_old [OF assms(6), of "dropManagedFields obj"] handlesOf_member [OF assms(6)]
    by auto
  have quiet: "passes g' = passes g \<and> tree w' = tree v"
    if "follow_run n es g v = Some (g', w')" "Ticked \<notin> set es" "\<forall>k. Remove k \<notin> set es"
      "phase g \<noteq> Waiting" "\<not> deleted g" "\<not> tick g" "pending g = 0" for es g v g' w'
    using that
  proof (induction es arbitrary: g v)
    case (Cons e es)
    obtain g1 v1 where s: "follow_step n e g v = Some (g1, v1)" and r: "follow_run n es g1 v1 = Some (g', w')"
      using Cons.prems(1) by (auto split: option.splits)
    have "passes g1 = passes g \<and> tree v1 = tree v \<and> phase g1 \<noteq> Waiting \<and> \<not> deleted g1 \<and> \<not> tick g1 \<and> pending g1 = 0"
      using s Cons.prems(2-7) by (cases e) (auto split: option.splits if_splits follow_phase.splits)
    then show ?case using Cons.IH [OF r] Cons.prems(2,3) by simp
  qed simp
  have "passes g' = passes f \<and> tree w' = tree w"
    if "follow_run n es ?g w = Some (g', w')" "Ticked \<notin> set es" "\<forall>k. Remove k \<notin> set es" for es g' w'
    using quiet [OF that] assms(1,3-5) by simp
  moreover have "h \<in> set (taken_over ?g)" using other assms(7) by (simp add: displaced_def)
  moreover have "\<exists>g' w'. follow_run n [Ticked, TakeTick] ?g w = Some (g', w') \<and> passes g' = Suc (passes f) \<and>
      h \<notin> set (last_named g')"
    using assms(1,8) by (simp add: follow_pass_def named_now_def)
  ultimately show ?thesis using p assms(8) by (intro exI [of _ ?g]) (auto simp: named_now_def)
qed

lemma recreated_volume_waits_for_the_tick_witness:
  "\<exists>f g. follow_reach f \<and> ''old'' \<in> set (named_now f) \<and> ''old'' \<notin> set (named_now g) \<and>
     follow_step sample_held (Put ''a'' (PersistentVolume \<lparr>managedFields = [],
       spec_CSI = Some \<lparr>Driver = driverName, VolumeHandle = ''new''\<rparr>\<rparr>)) f sample_world = Some (g, sample_world)"
proof -
  let ?new = "PersistentVolume \<lparr>managedFields = [], spec_CSI = Some \<lparr>Driver = driverName, VolumeHandle = ''new''\<rparr>\<rparr>"
  let ?es = "[Listed [(''a'', sample_volume)], Put ''a'' sample_volume, Sync, Begin]"
  have "case sample_run ?es of None \<Rightarrow> False
      | Some (f, w) \<Rightarrow> phase f = Looping \<and> unread f = Some [] \<and> \<not> deleted f \<and> \<not> tick f \<and> pending f = 0 \<and>
          map_of (cache f) ''a'' = Some (dropManagedFields sample_volume) \<and> ''old'' \<in> set (named_now f) \<and>
          ''old'' \<notin> set (handlesOf (map snd (AList.update ''a'' (dropManagedFields ?new) (cache f))))"
    by code_simp
  then obtain f w where r: "sample_run ?es = Some (f, w)"
    and f: "phase f = Looping" "unread f = Some []" "\<not> deleted f" "\<not> tick f" "pending f = 0"
      "map_of (cache f) ''a'' = Some (dropManagedFields sample_volume)" "''old'' \<in> set (named_now f)"
      "''old'' \<notin> set (handlesOf (map snd (AList.update ''a'' (dropManagedFields ?new) (cache f))))"
    by (auto split: option.splits)
  have "''old'' \<in> set (handlesOf [dropManagedFields sample_volume])" by code_simp
  from recreated_volume_waits_for_the_tick [OF f(1-6) this f(8), of sample_held sample_world]
  show ?thesis using sample_run_reach [OF r] f(7) by blast
qed

text \<open>
  C31. Nothing is swept in the dark: a pass has run only in a driver with a client, and only
  after every object of the first list of the volumes was put in the cache.
\<close>

theorem no_pass_before_the_first_list:
  assumes "follow_reach f" "passes f \<noteq> 0"
  shows "synced f \<and> unread f = Some [] \<and> client_there f \<and> every f > 0"
  using follow_reach_inv [OF assms(1)] assms(2) by (simp add: follow_inv_def)

lemma no_pass_before_the_first_list_witness:
  "\<exists>f. follow_reach f \<and> passes f = 2 \<and> synced f \<and> client_there f"
proof -
  let ?es = "[Listed [(''a'', sample_volume)], Put ''a'' sample_volume, Sync, Begin, Remove ''a'', HandleDelete, TakeDeleted]"
  have "case sample_run ?es of None \<Rightarrow> False | Some (f, w) \<Rightarrow> passes f = 2"
    by code_simp
  then obtain f w where r: "sample_run ?es = Some (f, w)" and f: "passes f = 2"
    by (auto split: option.splits)
  from no_pass_before_the_first_list [OF sample_run_reach [OF r]] f sample_run_reach [OF r]
  show ?thesis by auto
qed

text \<open>
  A burst of deletions costs one pass: however many delete handlers run between two of the
  loop's steps, they leave one wake-up, and after the pass it starts none is left.
\<close>

theorem burst_costs_one_pass:
  assumes "phase f = Looping" "pending f = Suc k"
  shows "\<exists>g w1 g' w2. follow_run n (replicate (Suc k) HandleDelete) f w = Some (g, w1) \<and>
    deleted g \<and> pending g = 0 \<and> passes g = passes f \<and> named_now g = named_now f \<and>
    follow_step n TakeDeleted g w1 = Some (g', w2) \<and> passes g' = Suc (passes f) \<and>
    follow_step n TakeDeleted g' w2 = None"
proof -
  have "\<exists>g. follow_run n (replicate j HandleDelete) f w = Some (g, w) \<and>
      g = f\<lparr>pending := 0, deleted := True\<rparr>" if "pending f = j" "j \<noteq> 0 \<or> deleted f" for j f
    using that
  proof (induction j arbitrary: f)
    case (Suc j)
    then show ?case
      using Suc.IH [of "f\<lparr>pending := j, deleted := True\<rparr>"] by (simp add: wake_def)
  qed simp
  from this [of f "Suc k"] assms(2)
  have r: "follow_run n (replicate (Suc k) HandleDelete) f w = Some (f\<lparr>pending := 0, deleted := True\<rparr>, w)"
    by blast
  show ?thesis
    unfolding r using assms(1) by (simp add: named_now_def follow_pass_def)
qed

lemma burst_costs_one_pass_witness:
  "\<exists>g w1. follow_run sample_held [HandleDelete, HandleDelete]
      \<lparr>client_there = True, every = 1, phase = Looping, synced = True, unread = Some [], cache = [], pending = 2,
       deleted = False, tick = False, last_named = [], passes = 1, taken_over = []\<rparr> sample_world = Some (g, w1) \<and>
    deleted g \<and> pending g = 0 \<and> passes g = 1"
  using burst_costs_one_pass [of "\<lparr>client_there = True, every = 1, phase = Looping, synced = True,
      unread = Some [], cache = [], pending = 2, deleted = False, tick = False, last_named = [], passes = 1,
      taken_over = []\<rparr>" 1
      sample_held sample_world]
  by (auto simp: numeral_2_eq_2)

text \<open>
  The loop ends with the run: unless the ticker's panic took the process down, the loop can
  always take the end of the context, and from then on, whatever the reflector and the ticker
  still do, no pass runs and nothing on the node changes.
\<close>

theorem follow_ends_with_the_run:
  assumes "phase f = Waiting \<or> phase f = Looping"
  shows "\<exists>f1 w1. follow_step n CtxDone f w = Some (f1, w1) \<and> phase f1 = Returned \<and>
    tree w1 = tree w \<and> mtab w1 = mtab w \<and>
    (\<forall>es f2 w2. follow_run n es f1 w1 = Some (f2, w2) \<longrightarrow>
      phase f2 = Returned \<and> passes f2 = passes f \<and> w2 = w1)"
proof -
  have stay: "phase f2 = Returned \<and> passes f2 = passes g \<and> w2 = v"
    if "follow_run n es g v = Some (f2, w2)" "phase g = Returned" for es g v f2 w2
    using that
  proof (induction es arbitrary: g)
    case (Cons e es)
    obtain g1 v1 where s: "follow_step n e g v = Some (g1, v1)" and r: "follow_run n es g1 v1 = Some (f2, w2)"
      using Cons.prems(1) by (auto split: option.splits)
    have "phase g1 = Returned \<and> passes g1 = passes g \<and> v1 = v"
      using s Cons.prems(2) by (cases e) (auto split: option.splits if_splits nat.splits)
    then show ?case using Cons.IH [of g1] r by simp
  qed simp
  obtain f1 w1 where d: "follow_step n CtxDone f w = Some (f1, w1)" "phase f1 = Returned" "passes f1 = passes f"
    "tree w1 = tree w" "mtab w1 = mtab w"
    using assms by (cases "phase f") auto
  have "phase f2 = Returned \<and> passes f2 = passes f \<and> w2 = w1" if "follow_run n es f1 w1 = Some (f2, w2)" for es f2 w2
    using stay [OF that d(2)] d(3) by simp
  with d show ?thesis by blast
qed

lemma follow_ends_with_the_run_witness:
  "\<exists>f1 w1. follow_step sample_held CtxDone (fst (follow_start True 1 sample_world)) sample_world = Some (f1, w1) \<and>
    phase f1 = Returned \<and> tree w1 = tree sample_world"
  using follow_ends_with_the_run [of "fst (follow_start True 1 sample_world)" sample_held sample_world]
  by (auto simp: follow_start_def)

end
