(* ===== verification/Server.thy ===== *)
theory Server
  imports Cli System Follow
begin

section \<open>server.go: the socket, the server and the calls it answers\<close>

text \<open>
  The start of the driver in the order of \<open>newServer\<close>, the end of \<open>serve\<close>, and the two
  interceptors around every call. What the network and the cluster answer are parameters:
  \<open>load\<close> and \<open>new_client\<close> (client-go), \<open>listen_tcp\<close> (\<open>net.Listen\<close> on a TCP address), the
  mount calls, the lines of the mount table and \<open>statfs\<close>. The Unix socket is a file, so its
  listener is a definition on the tree.
\<close>

definition endpointScheme :: string where
  "endpointScheme = ''unix://''"

datatype start_error = BadEndpoint string | StartError goerror

fun start_text :: "start_error \<Rightarrow> message" where
  "start_text (BadEndpoint e) =
     [Lit ''--endpoint '', Quoted e, Lit ('' does not begin with '' @ endpointScheme)]"
| "start_text (StartError err) = [Lit (error_text err)]"

record server =
  srv_node :: node
  srv_identity :: identity
  srv_socket :: string
  srv_metrics :: "string option"       \<comment> \<open>the address the metrics listener took\<close>
  srv_sweep :: follow_state

subsection \<open>net.Listen on a Unix socket\<close>

text \<open>
  An empty name or one that begins with \<open>@\<close> is an abstract socket, which is no file. A name of
  108 bytes or more does not fit a socket address. Closing the listener unlinks the file.
\<close>

definition abstract_socket :: "string \<Rightarrow> bool" where
  "abstract_socket socket \<longleftrightarrow> socket = '''' \<or> hd socket = CHR ''@''"

definition EADDRINUSE :: errno where
  "EADDRINUSE = OtherErrno 98 ''address already in use''"

definition listen_error :: "string \<Rightarrow> string \<Rightarrow> errno \<Rightarrow> goerror" where
  "listen_error socket call e = WrapError (''listen unix '' @ socket @ '': '' @ call) (SysError e)"

definition sys_bind_socket :: "string \<Rightarrow> world \<Rightarrow> errno option \<times> world" where
  "sys_bind_socket socket w =
     (let p = locate socket
      in case take_fault w of
        (Some (e, n), w) \<Rightarrow> (Some e, w)
      | (None, w) \<Rightarrow>
          if abstract_socket socket then (None, w)
          else if length socket \<ge> 108 then (Some EINVAL, w)
          else if fs w p \<noteq> None then (Some EADDRINUSE, w)
          else if p = [] \<or> name_too_long p \<or> \<not> dir_at w (butlast p) then (Some (absent_errno w p), w)
          else (None, set_fs p (Special (0x1FF AND NOT (umask w))) w))"

definition listen_unix :: "string \<Rightarrow> world \<Rightarrow> (goerror + unit) \<times> world" where
  "listen_unix socket w =
     (case sys_bind_socket socket w of
        (Some e, w) \<Rightarrow> (Inl (listen_error socket ''bind'' e), w)
      | (None, w) \<Rightarrow>
          (case take_fault w of
             (Some (e, n), w) \<Rightarrow> (Inl (listen_error socket ''listen'' e), w)
           | (None, w) \<Rightarrow> (Inr (), w)))"

definition close_unix :: "string \<Rightarrow> world \<Rightarrow> world" where
  "close_unix socket w =
     (if abstract_socket socket then snd (take_fault w)
      else case sys_unlink (locate socket) w of (ignored, w) \<Rightarrow> snd (take_fault w))"

subsection \<open>newServer\<close>

type_synonym listen_call = "string \<Rightarrow> world \<Rightarrow> (goerror + string) \<times> world"

definition metrics_listen :: "listen_call \<Rightarrow> string \<Rightarrow> world \<Rightarrow> (goerror + string option) \<times> world" where
  "metrics_listen listen_tcp address w =
     (if address = '''' then (Inr None, w)
      else case listen_tcp address w of
        (Inl err, w) \<Rightarrow> (Inl err, w)
      | (Inr at, w) \<Rightarrow> (Inr (Some at), w))"

text \<open>\<open>os.Remove\<close> of an empty name finds nothing.\<close>

definition remove_socket :: "string \<Rightarrow> world \<Rightarrow> goerror option \<times> world" where
  "remove_socket socket w =
     (if socket = '''' then (Some (PathError ''remove'' '''' ENOENT), w) else os_Remove socket w)"

text \<open>
  The part between the socket and the metrics listener: the client for Events, the Node service,
  the holds taken back, and the sweep, which runs beside the server from here on.
\<close>

definition start_node ::
  "world mountSyscalls \<Rightarrow> (mount_entry \<Rightarrow> string) \<Rightarrow> statfs_call \<Rightarrow> (string + 'config) \<Rightarrow>
   ('config \<Rightarrow> string option) \<Rightarrow> config \<Rightarrow> world \<Rightarrow> (node \<times> follow_state) \<times> world"
where
  "start_node calls row statfs load new_client cfg w =
     (case eventsFrom (cfg_nodeID cfg) load new_client w of
        (posting, w) \<Rightarrow>
          (case resume (newNode calls row statfs (cfg_nodeID cfg) (cfg_store cfg) posting) w of
             (answering, w) \<Rightarrow>
               (case follow_start (client posting) (sweepEvery cfg) w of
                  (sweeping, w) \<Rightarrow> ((answering, sweeping), w))))"

definition newServer ::
  "world mountSyscalls \<Rightarrow> (mount_entry \<Rightarrow> string) \<Rightarrow> statfs_call \<Rightarrow> (string + 'config) \<Rightarrow>
   ('config \<Rightarrow> string option) \<Rightarrow> listen_call \<Rightarrow> config \<Rightarrow> world \<Rightarrow> (start_error + server) \<times> world"
where
  "newServer calls row statfs load new_client listen_tcp cfg w =
     (case cut_prefix (endpoint cfg) endpointScheme of
        (socket, found) \<Rightarrow>
          if \<not> found then (Inl (BadEndpoint (endpoint cfg)), w)
          else case os_MkdirAll (cfg_store cfg) 0x1ED w of
            (Some err, w) \<Rightarrow> (Inl (StartError err), w)
          | (None, w) \<Rightarrow>
              (case remove_socket socket w of
                 (removed, w) \<Rightarrow>
                   if (case removed of Some err \<Rightarrow> \<not> errors_is err ENOENT | None \<Rightarrow> False)
                   then (Inl (StartError (the removed)), w)
                   else case listen_unix socket w of
                     (Inl err, w) \<Rightarrow> (Inl (StartError err), w)
                   | (Inr u, w) \<Rightarrow>
                       (case start_node calls row statfs load new_client cfg w of
                          ((answering, sweeping), w) \<Rightarrow>
                            (case metrics_listen listen_tcp (cfg_metrics cfg) w of
                               (Inl err, w) \<Rightarrow> (Inl (StartError err), close_unix socket w)
                             | (Inr at, w) \<Rightarrow>
                                 (Inr \<lparr>srv_node = answering,
                                    srv_identity = \<lparr>identity_store = cfg_store cfg\<rparr>,
                                    srv_socket = socket, srv_metrics = at, srv_sweep = sweeping\<rparr>, w)))))"

subsection \<open>serve\<close>

text \<open>
  What the gRPC server's \<open>Serve\<close> returns, and which of the two the select saw first: the
  return of \<open>Serve\<close>, or the end of the context, after which \<open>Serve\<close> is stopped and awaited.
\<close>

datatype serve_error = ErrServerStopped | WrappedServe string serve_error | ServeFailed string

fun is_stopped :: "serve_error \<Rightarrow> bool" where
  "is_stopped ErrServerStopped = True"
| "is_stopped (WrappedServe t e) = is_stopped e"
| "is_stopped (ServeFailed t) = False"

fun serve_text :: "serve_error \<Rightarrow> string" where
  "serve_text ErrServerStopped = ''grpc: the server has been stopped''"
| "serve_text (WrappedServe t e) = t @ '': '' @ serve_text e"
| "serve_text (ServeFailed t) = t"

datatype serve_end =
    ServeReturned "serve_error option"
  | ContextEnded "serve_error option"

fun serve :: "serve_end \<Rightarrow> serve_error option" where
  "serve (ServeReturned err) = err"
| "serve (ContextEnded err) =
     (case err of None \<Rightarrow> None | Some e \<Rightarrow> if \<not> is_stopped e then Some e else None)"

subsection \<open>The interceptors\<close>

definition operationName :: "string \<Rightarrow> string" where
  "operationName fullMethod =
     (case last_index slash fullMethod of
        Some i \<Rightarrow> drop (i + 1) fullMethod
      | None \<Rightarrow> fullMethod)"

text \<open>
  A call on its way through the server: a function from the state and the world to the answer,
  the state and the world. How long it takes comes from the clock.
\<close>

type_synonym ('s, 'a) rpc = "'s \<Rightarrow> world \<Rightarrow> (status + 'a) \<times> 's \<times> world"

definition logCalls :: "string \<Rightarrow> ('s, 'a) rpc \<Rightarrow> ('s, 'a) rpc" where
  "logCalls fullMethod handle s w =
     (case handle s w of
        (answer, s, w) \<Rightarrow>
          (answer, s, emit (Logged LogInfo ''call''
             [(''rpc'', Str fullMethod), (''code'', Code (status_Code answer))]) w))"

fun failed :: "'e + 'a \<Rightarrow> bool" where
  "failed (Inl err) = True"
| "failed (Inr a) = False"

definition metricsInterceptor :: "string \<Rightarrow> int \<Rightarrow> ('s, 'a) rpc \<Rightarrow> ('s, 'a) rpc" where
  "metricsInterceptor fullMethod elapsed handle s w =
     (case handle s w of
        (answer, s, w) \<Rightarrow> (answer, s, recordCall (operationName fullMethod) elapsed (failed answer) w))"

definition intercepted :: "string \<Rightarrow> int \<Rightarrow> ('s, 'a) rpc \<Rightarrow> ('s, 'a) rpc" where
  "intercepted fullMethod elapsed handle =
     metricsInterceptor fullMethod elapsed (logCalls fullMethod handle)"

subsection \<open>The registered services\<close>

text \<open>
  The calls that reach the two services, with the name gRPC gives the method. A method of the
  Node service that the driver does not define is answered by the generated
  \<open>UnimplementedNodeServer\<close> it embeds; a name that is no method never reaches an interceptor.
\<close>

datatype csi_call =
    CallGetPluginInfo
  | CallGetPluginCapabilities
  | CallProbe
  | CallNodeGetInfo
  | CallNodeGetCapabilities
  | CallNodePublishVolume NodePublishVolumeRequest
  | CallNodeUnpublishVolume NodeUnpublishVolumeRequest
  | CallNodeGetVolumeStats NodeGetVolumeStatsRequest
  | CallNodeExpandVolume
  | CallNodeStageVolume
  | CallNodeUnstageVolume

datatype csi_answer =
    PluginInfo string string
  | PluginCapabilities "unit list"
  | Ready bool
  | NodeInfo string
  | NodeCapabilities "capability_type list"
  | Empty
  | Stats VolumeUsage

fun call_method :: "csi_call \<Rightarrow> string" where
  "call_method CallGetPluginInfo = ''/csi.v1.Identity/GetPluginInfo''"
| "call_method CallGetPluginCapabilities = ''/csi.v1.Identity/GetPluginCapabilities''"
| "call_method CallProbe = ''/csi.v1.Identity/Probe''"
| "call_method CallNodeGetInfo = ''/csi.v1.Node/NodeGetInfo''"
| "call_method CallNodeGetCapabilities = ''/csi.v1.Node/NodeGetCapabilities''"
| "call_method (CallNodePublishVolume r) = ''/csi.v1.Node/NodePublishVolume''"
| "call_method (CallNodeUnpublishVolume r) = ''/csi.v1.Node/NodeUnpublishVolume''"
| "call_method (CallNodeGetVolumeStats r) = ''/csi.v1.Node/NodeGetVolumeStats''"
| "call_method CallNodeExpandVolume = ''/csi.v1.Node/NodeExpandVolume''"
| "call_method CallNodeStageVolume = ''/csi.v1.Node/NodeStageVolume''"
| "call_method CallNodeUnstageVolume = ''/csi.v1.Node/NodeUnstageVolume''"

definition map_answer :: "('a \<Rightarrow> 'b) \<Rightarrow> status + 'a \<Rightarrow> status + 'b" where
  "map_answer f r = (case r of Inl s \<Rightarrow> Inl s | Inr a \<Rightarrow> Inr (f a))"

definition unimplemented :: "string \<Rightarrow> status + 'a" where
  "unimplemented method = Inl (status_Error Unimplemented [Lit (''method '' @ method @ '' not implemented'')])"

fun call_handler :: "(nat \<Rightarrow> string) \<Rightarrow> string \<Rightarrow> identity \<Rightarrow> csi_call \<Rightarrow> (node, csi_answer) rpc" where
  "call_handler random version i CallGetPluginInfo n w =
     (map_answer (\<lambda>(x, v). PluginInfo x v) (GetPluginInfo version i), n, w)"
| "call_handler random version i CallGetPluginCapabilities n w =
     (map_answer PluginCapabilities (GetPluginCapabilities i), n, w)"
| "call_handler random version i CallProbe n w =
     (case Probe random i w of (r, w) \<Rightarrow> (map_answer Ready r, n, w))"
| "call_handler random version i CallNodeGetInfo n w = (map_answer NodeInfo (NodeGetInfo n), n, w)"
| "call_handler random version i CallNodeGetCapabilities n w =
     (map_answer NodeCapabilities (NodeGetCapabilities n), n, w)"
| "call_handler random version i (CallNodePublishVolume r) n w =
     (case NodePublishVolume n r w of (a, n, w) \<Rightarrow> (map_answer (\<lambda>u. Empty) a, n, w))"
| "call_handler random version i (CallNodeUnpublishVolume r) n w =
     (case NodeUnpublishVolume n r w of (a, n, w) \<Rightarrow> (map_answer (\<lambda>u. Empty) a, n, w))"
| "call_handler random version i (CallNodeGetVolumeStats r) n w =
     (case NodeGetVolumeStats n r w of (a, w) \<Rightarrow> (map_answer Stats a, n, w))"
| "call_handler random version i CallNodeExpandVolume n w =
     (map_answer (\<lambda>u. Empty) (NodeExpandVolume n), n, w)"
| "call_handler random version i CallNodeStageVolume n w = (unimplemented ''NodeStageVolume'', n, w)"
| "call_handler random version i CallNodeUnstageVolume n w = (unimplemented ''NodeUnstageVolume'', n, w)"

text \<open>A sequence of calls, each with the time it takes, and the answers.\<close>

fun answer_calls ::
  "(nat \<Rightarrow> string) \<Rightarrow> string \<Rightarrow> identity \<Rightarrow> (csi_call \<times> int) list \<Rightarrow> node \<Rightarrow> world \<Rightarrow>
   (status + csi_answer) list \<times> node \<times> world"
where
  "answer_calls random version i [] n w = ([], n, w)"
| "answer_calls random version i ((c, elapsed) # cs) n w =
     (case intercepted (call_method c) elapsed (call_handler random version i c) n w of
        (a, n, w) \<Rightarrow>
          (case answer_calls random version i cs n w of (answers, n, w) \<Rightarrow> (a # answers, n, w)))"

subsection \<open>What a handler leaves of layer 2\<close>

text \<open>No handler touches the readings of the interceptors.\<close>

definition layer2 :: "world \<Rightarrow> (string \<Rightarrow> int list) \<times> (string \<Rightarrow> nat)" where
  "layer2 w = (calls_observed (effects w), errors_counted (effects w))"

lemma layer2_cong: "effects w' = effects w \<Longrightarrow> layer2 w' = layer2 w"
  by (simp add: layer2_def)

lemma layer2_emit:
  "layer2 (emit (Logged l m a) w) = layer2 w" "layer2 (emit (Posted e) w) = layer2 w"
  "layer2 (emit (Measured (CopyBytesSet h b)) w) = layer2 w"
  "layer2 (emit (Measured (CopyBytesDelete h)) w) = layer2 w"
  "layer2 (emit (Measured (VolumesSet v)) w) = layer2 w"
  "layer2 (emit (Measured MountFailuresInc) w) = layer2 w"
  by (auto simp: layer2_def fun_eq_iff errors_counted_def)

lemma layer2_metrics:
  "layer2 (record_bytes h b w) = layer2 w" "layer2 (forget h w) = layer2 w"
  "layer2 (reportVolumes n w) = layer2 w" "layer2 (mountFailed w) = layer2 w"
  by (simp_all add: record_bytes_def forget_def reportVolumes_def setVolumes_def mountFailed_def layer2_emit)

lemma layer2_post: "layer2 (post e pod kind rsn msg w) = layer2 w"
proof -
  have "layer2 (w\<lparr>api_answers := a\<rparr>) = layer2 w" for a w by (rule layer2_cong) simp
  then show ?thesis
    by (auto simp: post_def create_event_def layer2_emit split: list.splits option.splits)
qed

lemma layer2_only_fs: "only_fs w w' \<Longrightarrow> layer2 w' = layer2 w"
  by (auto intro: layer2_cong dest: only_fsD(5))

lemma layer2_only_mtab: "only_mtab w w' \<Longrightarrow> layer2 w' = layer2 w"
  by (auto intro: layer2_cong dest: only_mtabD(5))

lemma layer2_keepHold: "keepHold n h k w = (n', w') \<Longrightarrow> plain_name h \<Longrightarrow> layer2 w' = layer2 w"
  by (auto simp: keepHold_def Let_def layer2_emit layer2_metrics split: prod.splits option.splits
      dest!: layer2_only_fs [OF mkdir_and_write_facts(1)])

lemma layer2_dropHold: "dropHold n h w = (n', w') \<Longrightarrow> layer2 w' = layer2 w"
  by (auto simp: dropHold_def Let_def layer2_emit layer2_metrics split: prod.splits option.splits if_splits
      dest!: layer2_only_fs [OF os_Remove_only_fs])

lemma layer2_publish:
  assumes "bind_kernel (mounts n)" "NodePublishVolume n r w = (a, n', w')"
  shows "layer2 w' = layer2 w"
proof (cases rule: publish_cases [where r = r and n = n and w = w])
  case (failed err w1)
  have "layer2 w1 = layer2 w"
    using node_mount_facts(3) [OF failed(2) may_mount_plain [OF failed(1)] assms(1)] by (rule layer2_cong)
  then show ?thesis
    using assms(2) by (auto simp: publish_mount_failed [OF failed] layer2_post layer2_metrics)
next
  case (mounted w1 n2 w2)
  note p = may_mount_plain [OF mounted(1)]
  have "layer2 w1 = layer2 w" using node_mount_facts(3) [OF mounted(2) p assms(1)] by (rule layer2_cong)
  then show ?thesis
    using assms(2) layer2_keepHold [OF mounted(3) p]
    by (auto simp: publish_mounted [OF mounted] layer2_emit)
next
  case (held k)
  then show ?thesis using assms(2) publish_held [OF held] by (auto simp: layer2_post)
next
  case (repeated k)
  then show ?thesis using assms(2) publish_repeated [OF repeated] by auto
qed (use assms(2) in \<open>auto simp: publish_bad_handle publish_no_target layer2_post\<close>)

lemma layer2_unpublish:
  assumes "bind_kernel (mounts n)" "NodeUnpublishVolume n r w = (a, n', w')"
  shows "layer2 w' = layer2 w"
proof -
  define calls where "calls = mounts n"
  have u: "layer2 w1 = layer2 w" if "unbind calls (unpublish_TargetPath r) w = (e, w1)" for e w1
    using layer2_only_mtab [OF bind_kernel.unbind_frame [OF assms(1) that [unfolded calls_def]]] .
  have o: "layer2 w2 = layer2 w1" if "os_Remove (unpublish_TargetPath r) w1 = (e, w2)" for e w1 w2
    using layer2_only_fs [OF os_Remove_only_fs [OF that]] .
  show ?thesis
    using assms(2)
    by (auto simp: NodeUnpublishVolume_def Let_def layer2_emit layer2_metrics calls_def [symmetric]
        split: if_splits prod.splits option.splits dest!: u o layer2_dropHold)
qed

lemma layer2_stats:
  assumes "reading_call (space n)" "NodeGetVolumeStats n r w = (a, w')"
  shows "layer2 w' = layer2 w"
proof -
  have c: "layer2 w1 = layer2 v" if "copySize dir v = (x, w1)" for dir v x w1
    using layer2_only_fs [OF readsD(4) [OF copySize_reads [OF that]]] .
  have s: "layer2 w1 = layer2 v" if "space n dir v = (x, w1)" for dir v x w1
    using layer2_only_fs [OF readsD(4) [OF reading_call.reads_only [OF assms(1) that]]] .
  show ?thesis
    using assms(2)
    by (auto simp: NodeGetVolumeStats_def Let_def layer2_metrics
        split: if_splits prod.splits option.splits sum.splits dest!: c s)
qed

lemma layer2_probe: "Probe random i w = (r, w') \<Longrightarrow> layer2 w' = layer2 w"
  by (auto simp: Probe_def storeIsWriteable_def os_CreateTemp_def split: prod.splits sum.splits
      dest!: create_temp_facts os_Remove_only_fs take_fault_reads readsD(4) layer2_only_fs)

definition layer2_node :: "node \<Rightarrow> bool" where
  "layer2_node n \<longleftrightarrow> bind_kernel (mounts n) \<and> reading_call (space n)"

lemma handler_layer2:
  assumes "layer2_node n" "call_handler random version i c n w = (a, n', w')"
  shows "layer2 w' = layer2 w" "layer2_node n'"
proof -
  have b: "bind_kernel (mounts n)" "reading_call (space n)" using assms(1) by (auto simp: layer2_node_def)
  have same: "layer2_node n1" if "n1 = n\<lparr>holds := holds n1\<rparr>" for n1
    by (subst that) (use assms(1) in \<open>simp add: layer2_node_def\<close>)
  show "layer2 w' = layer2 w"
    using assms(2) b
    by (cases c) (auto split: prod.splits dest: layer2_publish layer2_unpublish layer2_stats layer2_probe)
  show "layer2_node n'"
    using assms(2) assms(1)
    by (cases c) (auto split: prod.splits intro: same dest: publish_config(1) unpublish_config)
qed

lemma intercepted_layer2:
  assumes "layer2_node n" "intercepted (call_method c) e (call_handler random version i c) n w = (a, n', w')"
  shows "layer2_node n'"
    "calls_observed (effects w') k =
       calls_observed (effects w) k @ (if operationName (call_method c) = k then [e] else [])"
    "errors_counted (effects w') k =
       errors_counted (effects w) k + (if failed a \<and> operationName (call_method c) = k then 1 else 0)"
proof -
  obtain w1 where h: "call_handler random version i c n w = (a, n', w1)"
    and w': "w' = recordCall (operationName (call_method c)) e (failed a)
      (emit (Logged LogInfo ''call'' [(''rpc'', Str (call_method c)), (''code'', Code (status_Code a))]) w1)"
    using assms(2) by (auto simp: intercepted_def metricsInterceptor_def logCalls_def split: prod.splits)
  note L = handler_layer2 [OF assms(1) h]
  show "layer2_node n'" by (rule L(2))
  have "calls_observed (effects w1) = calls_observed (effects w)"
    "errors_counted (effects w1) = errors_counted (effects w)"
    using L(1) by (simp_all add: layer2_def)
  then show "calls_observed (effects w') k =
      calls_observed (effects w) k @ (if operationName (call_method c) = k then [e] else [])"
    "errors_counted (effects w') k =
      errors_counted (effects w) k + (if failed a \<and> operationName (call_method c) = k then 1 else 0)"
    by (auto simp: w' recordCall_def Let_def) (auto simp: errors_counted_def)
qed

subsection \<open>Properties of the interceptors\<close>

text \<open>
  C35. Every call is timed and every failed call is counted, under the name after the last slash
  of its method and under no other: after any sequence of calls the histogram of a kind has one
  observation for each call of the kind, in order, and its error counter went up by the number
  of answers of the kind that are errors. No handler touches either by itself.
\<close>

theorem every_call_is_counted:
  assumes "layer2_node n" "answer_calls random version i calls n w = (answers, n', w')"
  shows "length answers = length calls \<and>
    calls_observed (effects w') k =
      calls_observed (effects w) k @ map snd (filter (\<lambda>(c, e). operationName (call_method c) = k) calls) \<and>
    errors_counted (effects w') k =
      errors_counted (effects w) k +
        length (filter (\<lambda>((c, e), a). failed a \<and> operationName (call_method c) = k) (zip calls answers))"
  using assms
proof (induction calls arbitrary: n w answers)
  case (Cons ce calls)
  obtain c e where ce: "ce = (c, e)" by (cases ce)
  obtain a n1 w1 where h: "intercepted (call_method c) e (call_handler random version i c) n w = (a, n1, w1)"
    by (metis prod_cases3)
  obtain as where r: "answer_calls random version i calls n1 w1 = (as, n', w')" "answers = a # as"
    using Cons.prems(2) h ce by (auto split: prod.splits)
  show ?case
    using Cons.IH [OF intercepted_layer2(1) [OF Cons.prems(1) h] r(1)]
      intercepted_layer2(2,3) [OF Cons.prems(1) h, of k] r(2) ce
    by auto
qed simp

lemma every_call_is_counted_witness:
  "(case answer_calls sample_random ''dev'' \<lparr>identity_store = ''/store''\<rparr>
      [(CallNodeGetInfo, 5), (CallNodeExpandVolume, 7), (CallNodeGetInfo, 11)] sample_node sample_world of
     (answers, n', w') \<Rightarrow> calls_observed (effects w') ''NodeGetInfo'' = [5, 11] \<and>
       errors_counted (effects w') ''NodeExpandVolume'' = 1)"
proof -
  have n: "layer2_node sample_node"
    using reading_spaceOf [OF ss.reading_call_axioms]
    by (simp add: layer2_node_def lk.bind_kernel_axioms sample_node_def newNode_def sample_statfs_def
        spaceOf_def reading_call_def reads_def)
  let ?cs = "[(CallNodeGetInfo, 5), (CallNodeExpandVolume, 7), (CallNodeGetInfo, 11)]"
  obtain answers n' w' where r: "answer_calls sample_random ''dev'' \<lparr>identity_store = ''/store''\<rparr> ?cs
      sample_node sample_world = (answers, n', w')" by (metis prod_cases3)
  have k: "operationName ''/csi.v1.Node/NodeGetInfo'' = ''NodeGetInfo''"
    "operationName ''/csi.v1.Node/NodeExpandVolume'' = ''NodeExpandVolume''" by code_simp+
  have "calls_observed (effects sample_world) ''NodeGetInfo'' = []"
    "errors_counted (effects sample_world) ''NodeExpandVolume'' = 0" by code_simp+
  moreover have "map failed answers = [False, True, False]"
    using r by (auto simp: intercepted_def metricsInterceptor_def logCalls_def map_answer_def
        NodeGetInfo_def NodeExpandVolume_def split: prod.splits)
  moreover from this obtain a b c where "answers = [a, b, c]" by (auto simp: map_eq_Cons_conv)
  ultimately have "calls_observed (effects w') ''NodeGetInfo'' = [5, 11]"
    "errors_counted (effects w') ''NodeExpandVolume'' = 1"
    using every_call_is_counted [OF n r, of "''NodeGetInfo''"]
      every_call_is_counted [OF n r, of "''NodeExpandVolume''"]
    by (auto simp: k)
  then show ?thesis unfolding r by simp
qed

end
