(* ===== verification/Start.thy ===== *)
theory Start
  imports Server
begin

section \<open>server.go: what a start of the driver does\<close>

text \<open>
  The facts and the properties of \<open>newServer\<close>: what a start touches, whatever the kernel refuses
  and whichever step it fails at, and where nothing is refused that it ends with a socket and the
  holds that still stand.
\<close>

subsection \<open>What a start touches\<close>

text \<open>\<open>resume\<close> with any refusals: it removes holds at most, and changes no mount.\<close>

definition only_drops :: "store \<Rightarrow> world \<Rightarrow> world \<Rightarrow> bool" where
  "only_drops s w w' \<longleftrightarrow>
     mtab w' = mtab w \<and> (\<forall>q. fs w' q = fs w q \<or> (fs w' q = None \<and> (\<exists>h. q = hold_place s h)))"

lemma only_drops_refl [simp, intro]: "only_drops s w w"
  by (simp add: only_drops_def)

lemma only_drops_trans: "only_drops s w w' \<Longrightarrow> only_drops s w' w'' \<Longrightarrow> only_drops s w w''"
  unfolding only_drops_def by metis

lemma only_drops_reads: "reads w w' \<Longrightarrow> only_drops s w w'"
  using readsD(1,4) only_fsD(1) by (metis only_drops_def)

lemma only_drops_emit [simp]: "only_drops s w (emit e w') \<longleftrightarrow> only_drops s w w'"
  by (simp add: only_drops_def)

lemma only_drops_emit_left [simp]: "only_drops s (emit e w) w' \<longleftrightarrow> only_drops s w w'"
  by (simp add: only_drops_def)

lemma dropHold_only_drops:
  assumes "dropHold n h w = (n', w')" "plain_name h"
  shows "only_drops (node_store n) w w'" "n' = n\<lparr>holds := holds n'\<rparr>"
proof -
  note D = dropHold_facts [OF assms(1)]
  show "n' = n\<lparr>holds := holds n'\<rparr>" using D(1) by simp
  have "fs w' q = fs w q \<or> fs w' q = None \<and> (\<exists>h. q = hold_place (node_store n) h)" for q
    using D(5,6) [of q] by (auto simp: locate_holdPath [OF assms(2)])
  with D(3) show "only_drops (node_store n) w w'" by (simp add: only_drops_def)
qed

lemma resume_entry_only_drops:
  assumes "resume_entry h n w = (n', w')" "plain_name h" "reading_call (mounted n)"
  shows "only_drops (node_store n) w w' \<and> n' = n\<lparr>holds := holds n'\<rparr>"
proof -
  obtain x w1 where f: "os_ReadFile (holdPath (node_store n) h) w = (x, w1)" by fastforce
  have 1: "only_drops (node_store n) w w1" using only_drops_reads [OF os_ReadFile_reads [OF f]] .
  have m: "only_drops (node_store n) v v'" if "mounted n t v = (b, v')" for t v b v'
    using only_drops_reads [OF reading_call.reads_only [OF assms(3) that]] .
  have d: "only_drops (node_store n) v w' \<and> n' = n\<lparr>holds := holds n'\<rparr>"
    if "dropHold n h (emit e v) = (n', w')" for e v
    using dropHold_only_drops [OF that assms(2)] by simp
  show ?thesis
    using assms(1) f 1
    by (auto simp: resume_entry_def readHold_def split: sum.splits prod.splits bool.splits
        dest!: d m intro: only_drops_trans)
qed

lemma resume_entries_only_drops:
  "resume_entries hs n w = (n', w') \<Longrightarrow> \<forall>h \<in> set hs. plain_name h \<Longrightarrow> reading_call (mounted n) \<Longrightarrow>
     only_drops (node_store n) w w' \<and> n' = n\<lparr>holds := holds n'\<rparr>"
proof (induction hs arbitrary: n w)
  case (Cons h hs)
  obtain n1 w1 where e: "resume_entry h n w = (n1, w1)" by fastforce
  have E: "only_drops (node_store n) w w1" "n1 = n\<lparr>holds := holds n1\<rparr>"
    using resume_entry_only_drops [OF e] Cons.prems(2,3) by auto
  then obtain hx where n1: "n1 = n\<lparr>holds := hx\<rparr>" by metis
  have r: "resume_entries hs n1 w1 = (n', w')" using Cons.prems(1) e by simp
  have IH: "only_drops (node_store n1) w1 w' \<and> n' = n1\<lparr>holds := holds n'\<rparr>"
    using Cons.IH [OF r] Cons.prems(2,3) by (simp add: n1)
  then obtain hy where n': "n' = n1\<lparr>holds := hy\<rparr>" by metis
  show ?case using E(1) IH only_drops_trans n' by (auto simp: n1)
qed simp

lemma resume_only_drops:
  assumes "resume n w = (n', w')" "plain_holds (node_store n) w" "reading_call (mounted n)"
  shows "only_drops (node_store n) w w'" "n' = n\<lparr>holds := holds n'\<rparr>"
proof -
  let ?d = "filepath_Join [root (node_store n), holdsDirectory]"
  obtain r w1 where d: "os_ReadDir ?d w = (r, w1)" by fastforce
  have 1: "only_drops (node_store n) w w1" using only_drops_reads [OF os_ReadDir_reads [OF d]] .
  have "only_drops (node_store n) w w' \<and> n' = n\<lparr>holds := holds n'\<rparr>"
  proof (cases r)
    case (Inl err)
    then show ?thesis using assms(1) d 1 by (simp add: resume_def)
  next
    case (Inr hs)
    have p: "\<forall>h \<in> set hs. plain_name h"
      using os_ReadDir_Inr [OF d [unfolded Inr]] assms(2)
      by (auto simp: plain_holds_def locate_holds list_all_iff)
    obtain n2 w2 where e: "resume_entries hs n w1 = (n2, w2)" by fastforce
    have "only_drops (node_store n) w1 w2" "n2 = n\<lparr>holds := holds n2\<rparr>"
      using resume_entries_only_drops [OF e p assms(3)] by auto
    moreover have "n' = n2" "w' = reportVolumes n2 w2" using assms(1) d Inr e by (auto simp: resume_def)
    ultimately show ?thesis
      using only_drops_trans [OF 1] by (auto simp: only_drops_def)
  qed
  then show "only_drops (node_store n) w w'" "n' = n\<lparr>holds := holds n'\<rparr>" by auto
qed

lemma start_node_only_drops:
  assumes "start_node calls row statfs load new_client cfg w = ((n, sweeping), w')"
    and "plain_holds (newStore (cfg_store cfg)) w"
  shows "only_drops (newStore (cfg_store cfg)) w w'" "node_store n = newStore (cfg_store cfg)"
proof -
  obtain posting w1 where e: "eventsFrom (cfg_nodeID cfg) load new_client w = (posting, w1)" by fastforce
  let ?f = "newNode calls row statfs (cfg_nodeID cfg) (cfg_store cfg) posting"
  obtain w2 where r: "resume ?f w1 = (n, w2)"
    and f: "follow_start (client posting) (sweepEvery cfg) w2 = (sweeping, w')"
    using assms(1) e by (auto simp: start_node_def split: prod.splits)
  have 1: "mtab w1 = mtab w" "tree w1 = tree w"
    using e by (auto simp: eventsFrom_def Let_def split: sum.splits option.splits)
  have 2: "mtab w' = mtab w2" "fs w' = fs w2"
    using f by (auto simp: follow_start_def Let_def split: if_splits)
  have s: "node_store ?f = newStore (cfg_store cfg)" by (simp add: newNode_def)
  have p: "plain_holds (node_store ?f) w1" using assms(2) child_names_cong [OF 1(2)] by (simp add: plain_holds_def s)
  have m: "reading_call (mounted ?f)"
    using mountedNow_reads by (auto simp: newNode_def reading_call_def)
  note R = resume_only_drops [OF r p m, unfolded s]
  show "only_drops (newStore (cfg_store cfg)) w w'"
    using R(1) 1(1) 2 fs_cong [OF 1(2)] by (simp add: only_drops_def)
  show "node_store n = newStore (cfg_store cfg)" by (subst R(2)) (simp add: s)
qed

subsection \<open>The socket\<close>

text \<open>A step that changes the place of the socket at most.\<close>

definition only_socket :: "string \<Rightarrow> world \<Rightarrow> world \<Rightarrow> bool" where
  "only_socket socket w w' \<longleftrightarrow> mtab w' = mtab w \<and> (\<forall>q. q \<noteq> locate socket \<longrightarrow> fs w' q = fs w q)"

lemma only_socket_trans: "only_socket s w w' \<Longrightarrow> only_socket s w' w'' \<Longrightarrow> only_socket s w w''"
  by (simp add: only_socket_def)

lemma only_socket_reads: "reads w w' \<Longrightarrow> only_socket s w w'"
  using readsD(1,4) only_fsD(1) by (metis only_socket_def)

lemma remove_socket_only: "remove_socket socket w = (r, w') \<Longrightarrow> only_socket socket w w'"
  using os_Remove_only_fs [of socket w r w']
  by (cases r) (auto simp: remove_socket_def only_socket_def only_fs_def split: if_splits
      dest!: os_Remove_None os_Remove_Some dest: fs_cong)

lemma listen_unix_only:
  assumes "listen_unix socket w = (r, w')"
  shows "only_socket socket w w'"
proof -
  obtain e w1 where b: "sys_bind_socket socket w = (e, w1)" by fastforce
  obtain f v where t: "take_fault w = (f, v)" by fastforce
  have "only_socket socket w w1"
    using b t readsD(1,4) [OF take_fault_reads [OF t]]
    by (auto simp: sys_bind_socket_def only_socket_def Let_def only_fs_def split: option.splits if_splits)
  moreover have "only_socket socket w1 v1" if "take_fault w1 = (g, v1)" for g v1
    using only_socket_reads [OF take_fault_reads [OF that]] .
  ultimately show ?thesis
    using assms b by (auto simp: listen_unix_def split: option.splits prod.splits intro: only_socket_trans)
qed

lemma close_unix_only: "only_socket socket w (close_unix socket w)"
proof -
  obtain e w1 where u: "sys_unlink (locate socket) w = (e, w1)" by fastforce
  have "only_socket socket w w1"
    using u by (cases e) (auto simp: only_socket_def only_fs_def dest!: sys_unlink_Some sys_unlink_None dest: fs_cong)
  moreover have "only_socket socket v (snd (take_fault v))" for v
    using only_socket_reads [OF take_fault_reads] by (metis prod.collapse)
  ultimately show ?thesis using u by (auto simp: close_unix_def intro: only_socket_trans)
qed

lemma plain_holds_iff: "plain_holds s w \<longleftrightarrow> (\<forall>c. fs w (holds_place s @ [c]) \<noteq> None \<longrightarrow> plain_name c)"
  by (auto simp: plain_holds_def list_all_iff child_names_iff)

lemma plain_holds_socket:
  assumes "plain_holds s w" "only_socket socket w w'"
  shows "plain_holds s w'"
  unfolding plain_holds_iff
proof (intro allI impI)
  fix c assume c: "fs w' (holds_place s @ [c]) \<noteq> None"
  show "plain_name c"
  proof (cases "holds_place s @ [c] = locate socket")
    case True
    then have "c \<in> set (locate socket)" by (metis in_set_conv_decomp)
    then show ?thesis by (rule locate_elem_plain)
  next
    case False
    then show ?thesis using c assms by (auto simp: only_socket_def plain_holds_iff)
  qed
qed

lemma plain_holds_store:
  assumes "plain_holds (newStore d) w" "os_MkdirAll d m w = (r, w')"
  shows "plain_holds (newStore d) w'"
proof -
  have "\<not> prefix (holds_place (newStore d) @ [c]) (locate d)" for c
    by (auto simp: holds_place_def newStore_def prefix_def)
  then have "fs w' (holds_place (newStore d) @ [c]) = fs w (holds_place (newStore d) @ [c])" for c
    using os_MkdirAll_facts(1) [OF assms(2)] unfolding grows_to_def by blast
  then show ?thesis using assms(1) by (simp add: plain_holds_iff)
qed

subsection \<open>Properties of a start\<close>

lemma newServer_scheme:
  assumes "\<not> prefix endpointScheme (endpoint cfg)"
  shows "newServer calls row statfs load new_client listen_tcp cfg w = (Inl (BadEndpoint (endpoint cfg)), w)"
  using assms by (simp add: newServer_def cut_prefix_def)

text \<open>The stages of a start, and where each may end it.\<close>

lemma newServer_stages:
  assumes "newServer calls row statfs load new_client listen_tcp cfg w = (r, w')"
    and "endpoint cfg = endpointScheme @ socket"
  obtains (no_store) err where "os_MkdirAll (cfg_store cfg) 0x1ED w = (Some err, w')" "r = Inl (StartError err)"
  | (no_socket) w1 err where "os_MkdirAll (cfg_store cfg) 0x1ED w = (None, w1)" "only_socket socket w1 w'"
      "r = Inl (StartError err)"
  | (no_metrics) w1 w3 n f w4 err w5 where "os_MkdirAll (cfg_store cfg) 0x1ED w = (None, w1)"
      "only_socket socket w1 w3" "start_node calls row statfs load new_client cfg w3 = ((n, f), w4)"
      "metrics_listen listen_tcp (cfg_metrics cfg) w4 = (Inl err, w5)" "w' = close_unix socket w5"
      "r = Inl (StartError err)"
  | (started) w1 w3 n f w4 at where "os_MkdirAll (cfg_store cfg) 0x1ED w = (None, w1)"
      "only_socket socket w1 w3" "start_node calls row statfs load new_client cfg w3 = ((n, f), w4)"
      "metrics_listen listen_tcp (cfg_metrics cfg) w4 = (Inr at, w')"
      "r = Inr \<lparr>srv_node = n, srv_identity = \<lparr>identity_store = cfg_store cfg\<rparr>,
         srv_socket = socket, srv_metrics = at, srv_sweep = f\<rparr>"
proof -
  have cut: "cut_prefix (endpoint cfg) endpointScheme = (socket, True)"
    using assms(2) by (simp add: cut_prefix_def)
  obtain e1 w1 where 1: "os_MkdirAll (cfg_store cfg) 0x1ED w = (e1, w1)" by fastforce
  obtain e2 w2 where 2: "remove_socket socket w1 = (e2, w2)" by fastforce
  obtain e3 w3 where 3: "listen_unix socket w2 = (e3, w3)" by fastforce
  obtain n f w4 where 4: "start_node calls row statfs load new_client cfg w3 = ((n, f), w4)"
    by (metis prod.collapse)
  obtain e5 w5 where 5: "metrics_listen listen_tcp (cfg_metrics cfg) w4 = (e5, w5)" by fastforce
  note s2 = remove_socket_only [OF 2]
  note s3 = only_socket_trans [OF s2 listen_unix_only [OF 3]]
  show thesis
  proof (cases e1)
    case (Some err)
    then show thesis using assms(1) cut 1 no_store by (simp add: newServer_def)
  next
    case made: None
    show thesis
    proof (cases "case e2 of Some err \<Rightarrow> \<not> errors_is err ENOENT | None \<Rightarrow> False")
      case True
      then show thesis
        using assms(1) cut 1 2 made no_socket [of w1] s2 by (auto simp: newServer_def)
    next
      case removed: False
      show thesis
      proof (cases e3)
        case (Inl err)
        then show thesis
          using assms(1) cut 1 2 3 made removed no_socket [of w1] s3 by (auto simp: newServer_def)
      next
        case (Inr u)
        show thesis
        proof (cases e5)
          case (Inl err)
          then show thesis
            using assms(1) cut 1 2 3 4 5 made removed \<open>e3 = Inr u\<close> no_metrics [of w1 w3 n f w4 err w5] s3
            by (simp add: newServer_def)
        next
          case (Inr at)
          then show thesis
            using assms(1) cut 1 2 3 4 5 made removed \<open>e3 = Inr u\<close> started [of w1 w3 n f w4 at] s3
            by (simp add: newServer_def)
        qed
      qed
    qed
  qed
qed

text \<open>
  C36. A start of the driver, whatever is refused to it and wherever it fails, touches nothing
  but the way to the store, the socket, and hold files it gives up: no mount changes, no copy
  changes, and a start that could not make the store has not touched the socket.
\<close>

theorem start_touches_little:
  assumes "newServer calls row statfs load new_client listen_tcp cfg w = (r, w')"
    and "endpoint cfg = endpointScheme @ socket" "reading_call listen_tcp"
    and "plain_holds (newStore (cfg_store cfg)) w" "\<not> prefix (locate socket) (locate (cfg_store cfg))"
  shows "mtab w' = mtab w \<and>
    (\<forall>q. fs w' q = fs w q \<or> q = locate socket \<or>
      (fs w q = None \<and> dir_at w' q \<and> prefix q (locate (cfg_store cfg))) \<or>
      (fs w' q = None \<and> (\<exists>h. q = hold_place (newStore (cfg_store cfg)) h))) \<and>
    (dir_at w' (locate (cfg_store cfg)) \<or> fs w' (locate socket) = fs w (locate socket))"
proof -
  let ?s = "newStore (cfg_store cfg)" and ?d = "locate (cfg_store cfg)" and ?p = "locate socket"
  obtain e w1 where mk: "os_MkdirAll (cfg_store cfg) 0x1ED w = (e, w1)" by fastforce
  note M = os_MkdirAll_facts [OF mk]
  have m1: "mtab w1 = mtab w" using M(1) by (simp add: grows_to_def only_fs_def)
  have g: "fs w1 q = fs w q \<or> (fs w q = None \<and> dir_at w1 q \<and> prefix q ?d)" for q
    using M(1) [unfolded grows_to_def, THEN conjunct2, THEN spec, of q] by (auto simp: dir_at_def)
  have sp: "fs w1 ?p = fs w ?p" using g [of ?p] assms(5) by auto
  have hp: "\<not> prefix (hold_place ?s h) ?d" for h
    by (auto simp: hold_place_def holds_place_def newStore_def prefix_def)
  have listen: "only_socket socket v v'" if "metrics_listen listen_tcp (cfg_metrics cfg) v = (x, v')" for v x v'
    using that reads_refl [of v] reading_call.reads_only [OF assms(3)]
    by (auto simp: metrics_listen_def split: if_splits prod.splits sum.splits intro!: only_socket_reads)
  text \<open>After the store is made, only the socket and the holds change.\<close>
  have late: "only_socket socket w1 w' \<or>
      (\<exists>w3 w4. only_socket socket w1 w3 \<and> only_drops ?s w3 w4 \<and> only_socket socket w4 w')"
    if "r \<noteq> Inl (StartError err) \<or> e = None" "e = None" for err
    using assms(1,2)
  proof (cases rule: newServer_stages)
    case (no_store err)
    then show ?thesis using mk that by simp
  next
    case (no_socket w1' err)
    then show ?thesis using mk by simp
  next
    case (no_metrics w1' w3 n f w4 err w5)
    then have w1': "w1' = w1" using mk by simp
    have "plain_holds ?s w3"
      using plain_holds_socket [OF plain_holds_store [OF assms(4) mk]] no_metrics(2) w1' by simp
    from start_node_only_drops(1) [OF no_metrics(3) this] show ?thesis
      using no_metrics(2) w1' only_socket_trans [OF listen [OF no_metrics(4)] close_unix_only] no_metrics(5)
      by blast
  next
    case (started w1' w3 n f w4 at)
    then have w1': "w1' = w1" using mk by simp
    have "plain_holds ?s w3"
      using plain_holds_socket [OF plain_holds_store [OF assms(4) mk]] started(2) w1' by simp
    from start_node_only_drops(1) [OF started(3) this] show ?thesis
      using started(2) w1' listen [OF started(4)] by blast
  qed
  show ?thesis
  proof (cases e)
    case (Some err)
    have "w' = w1"
      using assms(1,2) mk Some by (cases rule: newServer_stages) auto
    then show ?thesis using m1 g sp by blast
  next
    case None
    then have d1: "dir_at w1 ?d" using M(3) by simp
    have l: "mtab w' = mtab w1 \<and>
        (\<forall>q. fs w' q = fs w1 q \<or> q = ?p \<or> (fs w' q = None \<and> (\<exists>h. q = hold_place ?s h)))"
      using late [OF _ None] None unfolding only_socket_def only_drops_def by metis
    have keep: "dir_at w' q" if "dir_at w1 q" "q \<noteq> ?p" "prefix q ?d" for q
    proof -
      have "\<nexists>h. q = hold_place ?s h" using hp that(3) by blast
      then have "fs w' q = fs w1 q" using l that(2) by blast
      then show ?thesis using that(1) by (simp add: dir_at_def)
    qed
    have "dir_at w' ?d" using keep [OF d1] assms(5) by auto
    moreover have "fs w' q = fs w q \<or> q = ?p \<or> (fs w q = None \<and> dir_at w' q \<and> prefix q ?d) \<or>
        (fs w' q = None \<and> (\<exists>h. q = hold_place ?s h))" for q
      using g [of q] l keep [of q] by metis
    ultimately show ?thesis using l m1 by simp
  qed
qed

subsection \<open>A start where nothing is refused\<close>

lemma absent_errno_ENOENT:
  assumes "wf_tree w" "dir_at w (butlast p)" "fs w p = None" "\<not> name_too_long p"
  shows "absent_errno w p = ENOENT"
proof -
  have "fs w q = None \<or> dir_at w q" if q: "q \<in> set (prefixes p)" for q
  proof (cases "q = p")
    case False
    obtain zs where z: "p = q @ zs" using q by (auto simp: prefix_def)
    with False have "zs \<noteq> []" by simp
    then obtain x xs where "p = q @ x # xs" using z by (cases zs) auto
    then have b: "butlast p = q @ butlast (x # xs)" by (simp add: butlast_append)
    show ?thesis
    proof (cases "butlast (x # xs) = []")
      case True
      then show ?thesis using b assms(2) by simp
    next
      case False
      then show ?thesis using wf_tree_prefix [OF assms(1), of q "butlast (x # xs)"] assms(2) b by (auto simp: dir_at_iff)
    qed
  qed (use assms(3) in simp)
  then show ?thesis using assms(4) by (auto simp: absent_errno_def list_ex_iff)
qed

definition socket_free :: "string \<Rightarrow> world \<Rightarrow> bool" where
  "socket_free socket w \<longleftrightarrow>
     \<not> abstract_socket socket \<and> length socket < 108 \<and> locate socket \<noteq> [] \<and>
     \<not> name_too_long (locate socket) \<and> dir_at w (butlast (locate socket)) \<and>
     \<not> dir_at w (locate socket) \<and> \<not> mounted_at w (locate socket)"

lemma remove_socket_healthy:
  assumes "healthy w" "wf_tree w" "socket_free socket w"
  shows "\<exists>e w'. remove_socket socket w = (e, w') \<and> (\<forall>err. e = Some err \<longrightarrow> errors_is err ENOENT) \<and>
    healthy w' \<and> wf_tree w' \<and> mtab w' = mtab w \<and> fs w' = (fs w)(locate socket := None)"
proof -
  let ?p = "locate socket"
  have s: "socket \<noteq> ''''" using assms(3) by (simp add: socket_free_def abstract_socket_def)
  obtain e w' where o: "os_Remove socket w = (e, w')" by fastforce
  have m: "mtab w' = mtab w" and h: "healthy w'"
    using only_fsD(1,7) [OF os_Remove_only_fs [OF o]] assms(1) by auto
  have wf: "wf_tree w'" using os_Remove_wf [OF assms(2) o] .
  show ?thesis
  proof (cases "fs w ?p")
    case None
    then have "e = Some (PathError ''remove'' socket ENOENT)"
      using os_Remove_healthy [OF assms(1), of socket] o absent_errno_ENOENT [OF assms(2) _ None] assms(3)
      by (auto simp: socket_free_def Let_def)
    moreover have "fs w' = fs w" using o calculation by (auto dest!: os_Remove_Some dest: fs_cong)
    moreover have "(fs w)(?p := None) = fs w" using None by auto
    ultimately show ?thesis using o s m h wf by (simp add: remove_socket_def)
  next
    case (Some i)
    then have "e = None"
      using os_Remove_healthy [OF assms(1), of socket] o assms(3) by (auto simp: socket_free_def Let_def)
    then show ?thesis using o s m h wf os_Remove_None [of socket w w'] by (auto simp: remove_socket_def)
  qed
qed

lemma listen_unix_healthy:
  assumes "healthy w" "wf_tree w" "socket_free socket w" "fs w (locate socket) = None"
  shows "\<exists>m w'. listen_unix socket w = (Inr (), w') \<and> healthy w' \<and> wf_tree w' \<and> mtab w' = mtab w \<and>
    fs w' = (fs w)(locate socket \<mapsto> Special m)"
proof -
  let ?p = "locate socket"
  obtain w1 where t1: "take_fault w = (None, w1)" using assms(1) by (rule take_fault_healthy_obtain)
  note T1 = readsD [OF take_fault_reads [OF t1]]
  have h1: "healthy w1" using only_fsD(7) [OF T1(4)] assms(1) .
  let ?w2 = "set_fs ?p (Special (0x1FF AND NOT (umask w1))) w1"
  have b: "sys_bind_socket socket w = (None, ?w2)"
    using t1 T1(1,2) assms(3,4) by (simp add: sys_bind_socket_def Let_def socket_free_def)
  have h2: "healthy ?w2" using h1 by (simp add: healthy_def)
  obtain w3 where t3: "take_fault ?w2 = (None, w3)" "mtab w3 = mtab ?w2" "fs w3 = fs ?w2"
    using h2 by (rule take_fault_healthy_obtain)
  note T3 = readsD [OF take_fault_reads [OF t3(1)]]
  have h3: "healthy w3" using only_fsD(7) [OF T3(4)] h2 .
  have "wf_tree ?w2"
    using assms(2,3) T1(2,6) by (intro wf_tree_set_fs) (auto simp: socket_free_def)
  then have "wf_tree w3" using T3(6) by simp
  then show ?thesis
    using b t3 h3 T1(1) only_fsD(1) [OF T1(4)] by (auto simp: listen_unix_def)
qed

text \<open>
  C37. Where nothing is refused, the cluster answers or not, and the metrics listener gets its
  address, a start ends with a server: the store is a directory, the socket is there even where
  a killed driver left its own behind, and the pod that holds a handle is the one the disk and
  the mount table name.
\<close>

theorem start_succeeds:
  assumes "endpoint cfg = endpointScheme @ socket" "healthy w" "wf_tree w" "socket_free socket w"
    and "cfg_store cfg \<noteq> ''''" "clear_way w (locate (cfg_store cfg))"
    and "\<not> prefix (locate socket) (locate (cfg_store cfg))" "\<not> prefix (locate (cfg_store cfg)) (locate socket)"
    and "\<forall>v. \<exists>at v'. metrics_listen listen_tcp (cfg_metrics cfg) v = (Inr at, v') \<and> fs v' = fs v"
    and "proc_table row" "readable_table row (mtab w)" "plain_holds (newStore (cfg_store cfg)) w"
  shows "\<exists>srv w' m. newServer calls row statfs load new_client listen_tcp cfg w = (Inr srv, w') \<and>
    fs w' (locate socket) = Some (Special m) \<and> dir_at w' (locate (cfg_store cfg)) \<and>
    (\<forall>h. holder (srv_node srv) h = standing (newStore (cfg_store cfg)) w h)"
proof -
  let ?s = "newStore (cfg_store cfg)" and ?p = "locate socket" and ?d = "locate (cfg_store cfg)"
  obtain w1 where mk: "os_MkdirAll (cfg_store cfg) 0x1ED w = (None, w1)" and h1: "healthy w1"
    using os_MkdirAll_healthy [OF assms(2,3,5,6)] by blast
  note M = os_MkdirAll_facts [OF mk]
  have o1: "only_fs w w1" using M(1) by (simp add: grows_to_def)
  have m1: "mtab w1 = mtab w" using only_fsD(1) [OF o1] .
  have g: "fs w1 q = fs w q \<or> (fs w q = None \<and> dir_at w1 q \<and> prefix q ?d)" for q
    using M(1) [unfolded grows_to_def, THEN conjunct2, THEN spec, of q] by (auto simp: dir_at_def)
  have gp: "fs w1 ?p = fs w ?p" using g [of ?p] assms(7) by auto
  have "dir_at w1 (butlast ?p)"
    using g [of "butlast ?p"] assms(4) by (auto simp: socket_free_def dir_at_iff)
  then have sf1: "socket_free socket w1"
    using assms(4) gp only_fsD(6) [OF o1] by (simp add: socket_free_def dir_at_def)
  obtain e w2 where rm: "remove_socket socket w1 = (e, w2)" "\<forall>err. e = Some err \<longrightarrow> errors_is err ENOENT"
    and w2: "healthy w2" "wf_tree w2" "mtab w2 = mtab w1" "fs w2 = (fs w1)(?p := None)"
    using remove_socket_healthy [OF h1 M(2) [OF assms(3)] sf1] by blast
  have "?p \<noteq> []" using sf1 by (simp add: socket_free_def)
  then have "butlast ?p \<noteq> ?p" by (metis append_butlast_last_id append_self_conv not_Cons_self2)
  then have sf2: "socket_free socket w2"
    using sf1 w2(3,4) by (simp add: socket_free_def dir_at_def mounted_at_def)
  obtain m w3 where ls: "listen_unix socket w2 = (Inr (), w3)"
    and w3: "healthy w3" "wf_tree w3" "mtab w3 = mtab w2" "fs w3 = (fs w2)(?p \<mapsto> Special m)"
    using listen_unix_healthy [OF w2(1,2) sf2] w2(4) by auto
  obtain posting w3' where ev: "eventsFrom (cfg_nodeID cfg) load new_client w3 = (posting, w3')" by fastforce
  have e3: "mtab w3' = mtab w3" "tree w3' = tree w3" "faults w3' = faults w3"
    using ev by (auto simp: eventsFrom_def Let_def split: sum.splits option.splits)
  let ?f = "newNode calls row statfs (cfg_nodeID cfg) (cfg_store cfg) posting"
  have fs: "node_store ?f = ?s" "holds ?f = []" by (simp_all add: newNode_def)
  obtain n w4 where rs: "resume ?f w3' = (n, w4)" by fastforce
  have os: "only_socket socket w1 w3"
    using only_socket_trans [OF remove_socket_only [OF rm(1)] listen_unix_only [OF ls]] .
  have ph3: "plain_holds ?s w3" using plain_holds_socket [OF plain_holds_store [OF assms(12) mk] os] .
  then have ph: "plain_holds (node_store ?f) w3'" using child_names_cong [OF e3(2)] by (simp add: plain_holds_def fs)
  have hw: "healthy w3'" "wf_tree w3'" using w3(1,2) e3 wf_tree_cong [OF e3(2)] by (auto simp: healthy_def)
  have mt: "mtab w3' = mtab w" using e3(1) w3(3) w2(3) m1 by simp
  have "readable_table row (mtab w3')" using assms(11) mt by simp
  note R = resume_healthy [OF hw ph newNode_asks_kernel [OF assms(10) this] fs(2) rs, unfolded fs(1)]
  have hp: "fs w3' (hold_place ?s h) = fs w (hold_place ?s h)" for h
  proof -
    have a: "?d = locate (root ?s)" by (simp add: newStore_def)
    have "hold_place ?s h \<noteq> ?p"
    proof
      assume "hold_place ?s h = ?p"
      then have "prefix ?d ?p" using a by (metis hold_place_def holds_place_def append.assoc prefixI)
      then show False using assms(8) by simp
    qed
    moreover have "\<not> prefix (hold_place ?s h) ?d" using a by (auto simp: hold_place_def holds_place_def prefix_def)
    ultimately show ?thesis
      using g [of "hold_place ?s h"] w3(4) w2(4) fs_cong [OF e3(2)] by auto
  qed
  have st: "holder n h = standing ?s w h" for h
  proof (cases "fs w (hold_place ?s h)")
    case None
    then have "standing ?s w3' h = None" "standing ?s w h = None" using hp [of h] by (simp_all add: standing_def)
    then show ?thesis using R(1) [of h] by simp
  next
    case (Some i)
    then have "dir_at w3' (holds_place ?s)"
      using wf_tree_parent [OF hw(2), of "holds_place ?s" h] hp [of h] by (simp add: hold_place_def)
    then show ?thesis using R(1) [of h] standing_cong [OF hp mt] by simp
  qed
  obtain f w5 where fo: "follow_start (client posting) (sweepEvery cfg) w4 = (f, w5)" by fastforce
  have f5: "fs w5 = fs w4" using fo by (auto simp: follow_start_def Let_def split: if_splits)
  obtain at w6 where ml: "metrics_listen listen_tcp (cfg_metrics cfg) w5 = (Inr at, w6)" "fs w6 = fs w5"
    using assms(9) by blast
  have keep: "fs w6 q = fs w3 q" if "\<And>h. q \<noteq> hold_place ?s h" for q
    using R(5) [of q] that ml(2) f5 fs_cong [OF e3(2)] by simp
  have "fs w6 ?p = Some (Special m)"
  proof -
    have "prefix ?d (hold_place ?s h)" for h by (simp add: hold_place_def holds_place_def newStore_def)
    then have "?p \<noteq> hold_place ?s h" for h using assms(8) by metis
    then show ?thesis using keep [of ?p] w3(4) by simp
  qed
  moreover have "dir_at w6 ?d"
  proof -
    have "?d \<noteq> hold_place ?s h" for h by (auto simp: hold_place_def holds_place_def newStore_def)
    then have "fs w6 ?d = fs w3 ?d" by (rule keep)
    also have "\<dots> = fs w1 ?d" using w3(4) w2(4) assms(8) by auto
    finally show ?thesis using M(3) by (simp add: dir_at_def)
  qed
  moreover have "newServer calls row statfs load new_client listen_tcp cfg w =
      (Inr \<lparr>srv_node = n, srv_identity = \<lparr>identity_store = cfg_store cfg\<rparr>, srv_socket = socket,
         srv_metrics = at, srv_sweep = f\<rparr>, w6)"
    using assms(1) mk rm ls ev rs fo ml(1)
    by (auto simp: newServer_def cut_prefix_def start_node_def split: option.split)
  ultimately show ?thesis using st by auto
qed

subsection \<open>Witnesses\<close>

definition sample_config :: config where
  "sample_config = \<lparr>endpoint = ''unix:///csi.sock'', cfg_nodeID = ''worker-1'', cfg_store = ''/store'',
     cfg_metrics = '''', sweepEvery = defaultSweepEvery\<rparr>"

definition no_port :: listen_call where
  "no_port address w = (Inl (SysError EADDRINUSE), w)"

definition no_cluster :: "string + unit" where
  "no_cluster = Inl ''unable to load in-cluster configuration''"

lemma sample_start:
  "endpoint sample_config = endpointScheme @ ''/csi.sock''" "socket_free ''/csi.sock'' started_world"
  "clear_way started_world (locate ''/store'')" "plain_holds (newStore ''/store'') started_world"
  "\<not> prefix (locate ''/csi.sock'') (locate ''/store'')" "\<not> prefix (locate ''/store'') (locate ''/csi.sock'')"
  "healthy started_world" "wf_tree started_world"
  by code_simp+

lemma sample_config_fields [simp]:
  "cfg_store sample_config = ''/store''" "cfg_metrics sample_config = ''''"
  by (simp_all add: sample_config_def)

lemma start_succeeds_witness:
  "\<exists>srv w'. newServer linux_calls linux_row sample_statfs no_cluster (\<lambda>u. None) no_port sample_config
      started_world = (Inr srv, w') \<and> fs w' [''csi.sock''] \<noteq> None \<and>
    holder (srv_node srv) ''data'' = standing \<lparr>root = ''/store''\<rparr> started_world ''data''"
proof -
  have mt: "mtab started_world =
      [\<lparr>mnt_point = [''t1''], mnt_source = [''store'', ''copies'', ''data''], mnt_ro = False\<rparr>]"
    by code_simp
  have table: "readable_table linux_row (mtab started_world)" using sample_table by (simp only: mt)
  have "locate ''/csi.sock'' = [''csi.sock'']" by code_simp
  with start_succeeds [OF sample_start(1) sample_start(7,8,2), of no_port linux_row linux_calls sample_statfs
      no_cluster "\<lambda>u. None"] sample_start table lr.proc_table_axioms
  show ?thesis by (fastforce simp: metrics_listen_def newStore_def)
qed

lemma start_touches_little_witness:
  "\<exists>r w'. newServer linux_calls linux_row sample_statfs no_cluster (\<lambda>u. None) no_port
      (sample_config\<lparr>cfg_metrics := '':9200''\<rparr>) started_world = (r, w') \<and> mtab w' = mtab started_world"
proof -
  let ?c = "sample_config\<lparr>cfg_metrics := '':9200''\<rparr>"
  obtain r w' where n: "newServer linux_calls linux_row sample_statfs no_cluster (\<lambda>u. None) no_port ?c started_world
      = (r, w')" by fastforce
  have "reading_call no_port" by (simp add: reading_call_def no_port_def)
  from start_touches_little [OF n _ this] sample_start n show ?thesis by simp
qed

end
