(* ===== verification/Run.thy ===== *)
theory Run
  imports Start
begin

section \<open>cli.go and main.go: the run of the driver\<close>

text \<open>
  \<open>runWith\<close> composes the command line, the construction of the server and its service into an
  exit code and what is printed. The server's construction is a parameter, as in the code;
  \<open>running\<close> is the service itself: what \<open>Serve\<close> returned, and whether the run's end came first.
\<close>

type_synonym builder = "config \<Rightarrow> world \<Rightarrow> (start_error + server) \<times> world"
type_synonym service = "server \<Rightarrow> world \<Rightarrow> serve_end \<times> world"

definition runWith ::
  "string \<Rightarrow> string list \<Rightarrow> builder \<Rightarrow> service \<Rightarrow> world \<Rightarrow> int \<times> out_item list \<times> world"
where
  "runWith version args build running w =
     (case parse version args of
        (Inl err, out) \<Rightarrow> (1, out, w)
      | (Inr None, out) \<Rightarrow> (0, out, w)
      | (Inr (Some cfg), out) \<Rightarrow>
          (case build cfg w of
             (Inl err, w) \<Rightarrow> (1, out @ [Line (start_text err)], w)
           | (Inr srv, w) \<Rightarrow>
               (case running srv w of
                  (ended, w) \<Rightarrow>
                    (case serve ended of
                       Some err \<Rightarrow> (1, out @ [Line [Lit (serve_text err)]], w)
                     | None \<Rightarrow> (0, out, w)))))"

definition run ::
  "world mountSyscalls \<Rightarrow> (mount_entry \<Rightarrow> string) \<Rightarrow> statfs_call \<Rightarrow> (string + 'config) \<Rightarrow>
   ('config \<Rightarrow> string option) \<Rightarrow> listen_call \<Rightarrow> string \<Rightarrow> string list \<Rightarrow> service \<Rightarrow> world \<Rightarrow>
   int \<times> out_item list \<times> world"
where
  "run calls row statfs load new_client listen_tcp version args running w =
     runWith version args (newServer calls row statfs load new_client listen_tcp) running w"

text \<open>\<open>main\<close>: the exit code of the process, from all of its arguments.\<close>

definition main_exit ::
  "world mountSyscalls \<Rightarrow> (mount_entry \<Rightarrow> string) \<Rightarrow> statfs_call \<Rightarrow> (string + 'config) \<Rightarrow>
   ('config \<Rightarrow> string option) \<Rightarrow> listen_call \<Rightarrow> string \<Rightarrow> string list \<Rightarrow> service \<Rightarrow> world \<Rightarrow> int"
where
  "main_exit calls row statfs load new_client listen_tcp version argv running w =
     fst (run calls row statfs load new_client listen_tcp version (tl argv) running w)"

subsection \<open>Properties\<close>

text \<open>
  C38. The exit code tells what was printed: a run ends with 0 or 1, and with 0 exactly where it
  printed nothing or printed the version because it was asked to. Every failure, of the command
  line, of the start, or of the service, is printed and ends with 1, and a service that ends
  because the run was stopped is no failure.
\<close>

theorem exit_code_tells:
  "case runWith version args build running w of
     (exit_code, out, w') \<Rightarrow>
       (exit_code = 0 \<longleftrightarrow> out = [] \<or> parse version args = (Inr None, out)) \<and> exit_code \<in> {0, 1} \<and>
       (exit_code = 0 \<longleftrightarrow>
         (case parse version args of
            (Inl err, out) \<Rightarrow> False
          | (Inr None, out) \<Rightarrow> True
          | (Inr (Some cfg), out) \<Rightarrow>
              (case build cfg w of
                 (Inl err, v) \<Rightarrow> False
               | (Inr srv, v) \<Rightarrow>
                   fst (running srv v) \<in> {ServeReturned None, ContextEnded None} \<or>
                   (\<exists>e. fst (running srv v) = ContextEnded (Some e) \<and> is_stopped e))))"
proof -
  obtain r out where p: "parse version args = (r, out)" by fastforce
  show ?thesis
  proof (cases r)
    case (Inl err)
    then show ?thesis using p parse_output(1) by (fastforce simp: runWith_def)
  next
    case (Inr c)
    show ?thesis
    proof (cases c)
      case None
      then show ?thesis using p Inr by (simp add: runWith_def)
    next
      case (Some cfg)
      then have out: "out = []" using parse_output(3) p Inr by blast
      obtain b v where b: "build cfg w = (b, v)" by fastforce
      show ?thesis
      proof (cases b)
        case (Inl err)
        then show ?thesis using p Inr Some out b by (simp add: runWith_def)
      next
        case srv: (Inr srv)
        obtain ended v' where u: "running srv v = (ended, v')" by fastforce
        show ?thesis
          using p Inr Some out b srv u
          by (cases ended) (auto simp: runWith_def split: option.splits)
      qed
    qed
  qed
qed

text \<open>The reflector's part up to the sync, for a first list.\<close>

definition first_list :: "(string \<times> object) list \<Rightarrow> follow_event list" where
  "first_list objs = Listed objs # map (\<lambda>x. Put (fst x) (snd x)) objs"

lemma first_list_run:
  assumes "unread f = None"
  shows "\<exists>g. follow_run n (first_list objs @ es) f w = follow_run n es g w \<and>
    unread g = Some [] \<and> phase g = phase f \<and> every g = every f"
proof -
  have "\<exists>g. follow_run n (map (\<lambda>x. Put (fst x) (snd x)) objs @ es) f w = follow_run n es g w \<and>
      unread g = Some [] \<and> phase g = phase f \<and> every g = every f" if "unread f = Some objs" for f
    using that
  proof (induction objs arbitrary: f)
    case (Cons x objs)
    let ?g = "f\<lparr>unread := Some objs, cache := AList.update (fst x) (dropManagedFields (snd x)) (cache f),
        taken_over := displaced (map_of (cache f) (fst x)) (snd x) @ taken_over f\<rparr>"
    show ?case using Cons.IH [of ?g] Cons.prems by simp
  qed auto
  from this [of "f\<lparr>unread := Some objs\<rparr>"] show ?thesis using assms by (simp add: first_list_def)
qed

text \<open>
  C39. The interval between two sweeps is not checked: \<open>parse\<close> accepts zero and every negative
  one, and in a cluster the loop of the sweep panics with it after the first list, whatever is on
  it, where \<open>time.NewTicker\<close> refuses it.
\<close>

theorem sweep_interval_not_checked:
  assumes "host \<noteq> ''''" "- (2 ^ 63) \<le> d" "d \<le> 0"
  shows "\<exists>c f w'. parse version [flag_arg ''node-id'' host, flag_arg ''sweep-every'' (duration_text d)] =
      (Inr (Some c), []) \<and>
    follow_run n (first_list objs @ [Sync, Begin]) (fst (follow_start True (sweepEvery c) w)) w = Some (f, w') \<and>
    phase f = Panicked"
proof -
  have d: "ParseDuration (duration_text d) = Some d"
    using assms(2,3) by (intro ParseDuration_text) (simp_all add: two63_def)
  have n: "flag_name ''node-id''" "flag_name ''sweep-every''" by simp_all
  let ?f = "[(''endpoint'', StringValue ''unix:///csi/csi.sock''), (''node-id'', StringValue host),
      (''store'', StringValue defaultStore), (''metrics'', StringValue '':9200''),
      (''sweep-every'', DurationValue d), (''version'', BoolValue False)]"
  let ?c = "\<lparr>endpoint = ''unix:///csi/csi.sock'', cfg_nodeID = host, cfg_store = defaultStore,
      cfg_metrics = '':9200'', sweepEvery = d\<rparr>"
  have "flag_Parse driver_flags [flag_arg ''node-id'' host, flag_arg ''sweep-every'' (duration_text d)] = (Inr ?f, [])"
    unfolding driver_flags_def
    by (simp add: flag_Parse_arg [OF n(1)] flag_Parse_arg [OF n(2)] set_flag_def d)
  then have p: "parse version [flag_arg ''node-id'' host, flag_arg ''sweep-every'' (duration_text d)] =
      (Inr (Some ?c), [])"
    using assms(1) by (simp add: parse_def bool_flag_def string_flag_def duration_flag_def)
  have "\<exists>f w'. follow_run n (first_list objs @ [Sync, Begin]) (fst (follow_start True d w)) w = Some (f, w') \<and>
      phase f = Panicked"
    using first_list_run [of "fst (follow_start True d w)" n objs "[Sync, Begin]" w] assms(3)
    by (auto simp: follow_start_def Let_def)
  then obtain f w' where "follow_run n (first_list objs @ [Sync, Begin]) (fst (follow_start True (sweepEvery ?c) w)) w = Some (f, w')"
    "phase f = Panicked"
    by auto
  with p show ?thesis by blast
qed

lemma sweep_interval_not_checked_witness:
  "\<exists>c f w'. parse ''dev'' [''--node-id=worker-1'', ''--sweep-every=0ns''] = (Inr (Some c), []) \<and>
    follow_run sample_node [Listed [(''a'', sample_volume)], Put ''a'' sample_volume, Sync, Begin] (fst (follow_start True (sweepEvery c) sample_world)) sample_world =
      Some (f, w') \<and>
    phase f = Panicked"
proof -
  have "duration_text 0 = ''0ns''" by code_simp
  then show ?thesis
    using sweep_interval_not_checked [of "''worker-1''" 0 "''dev''" sample_node "[(''a'', sample_volume)]" sample_world]
    by (simp add: flag_arg_def first_list_def)
qed

end
