(* ===== verification/Registry.thy ===== *)
theory Registry
  imports Metrics
begin

section \<open>metrics.go: the registry and its listener\<close>

text \<open>
  What \<open>newMetrics\<close> registers, under which names and labels, and the handler that serves it. A
  collector is the list of the descriptors it registers; the collectors of the Go runtime and of
  the process are the client library's, so their descriptors are arguments. \<open>MustRegister\<close>
  panics on a descriptor whose name is taken, \<open>WithLabelValues\<close> on a wrong number of values;
  both panics are \<open>None\<close> here, and the property says that the driver meets neither.
\<close>

record desc =
  fqName :: string
  help_text :: string
  variableLabels :: "string list"

type_synonym collector = "desc list"
type_synonym registry = "desc list"

definition component :: string where "component = ''per-node-csi-driver''"
definition copyLabels :: "string list" where "copyLabels = [''volume'']"
definition kindLabel :: "string list" where "kindLabel = [''kind'']"

text \<open>A vector of metrics with labels, or a single metric without.\<close>

definition vec :: "string \<Rightarrow> string \<Rightarrow> string list \<Rightarrow> desc" where
  "vec n h ls = \<lparr>fqName = n, help_text = h, variableLabels = ls\<rparr>"

definition buildInfo :: desc where
  "buildInfo = vec ''liken_build_info'' ''The release the process was built from, value 1.''
     [''component'', ''version'']"

record metrics =
  registered :: registry
  copyBytes :: desc
  reconcileDuration :: desc
  reconcileErrors :: desc
  watchRestarts :: desc
  volumes :: desc
  mountFailures :: desc

fun register :: "collector \<Rightarrow> registry \<Rightarrow> registry option" where
  "register [] reg = Some reg"
| "register (d # ds) reg =
     (if fqName d \<in> fqName ` set reg then None else register ds (reg @ [d]))"

fun MustRegister :: "collector list \<Rightarrow> registry \<Rightarrow> registry option" where
  "MustRegister [] reg = Some reg"
| "MustRegister (c # cs) reg =
     (case register c reg of None \<Rightarrow> None | Some reg \<Rightarrow> MustRegister cs reg)"

definition newMetrics :: "collector \<Rightarrow> collector \<Rightarrow> metrics option" where
  "newMetrics goCollector processCollector =
     (let readings = \<lparr>registered = [],
        copyBytes = vec ''per_node_csi_copy_bytes'' ''Bytes in this node's copy of the volume.'' copyLabels,
        reconcileDuration = vec ''per_node_csi_reconcile_duration_seconds''
          ''Time until a CSI operation returns a response.'' kindLabel,
        reconcileErrors = vec ''per_node_csi_reconcile_errors_total''
          ''CSI operations that returned an error.'' kindLabel,
        watchRestarts = vec ''per_node_csi_watch_restarts_total''
          ''Watches the driver opened again after one ended.'' kindLabel,
        volumes = vec ''per_node_csi_volumes''
          ''Volumes this node holds a copy of for a pod that has published them.'' [],
        mountFailures = vec ''per_node_csi_mount_failures_total'' ''Mounts that failed.'' []\<rparr>
      in case MustRegister
          [goCollector, processCollector, [buildInfo], [copyBytes readings], [reconcileDuration readings],
           [reconcileErrors readings], [watchRestarts readings], [volumes readings],
           [mountFailures readings]] [] of
        None \<Rightarrow> None
      | Some reg \<Rightarrow> Some (readings\<lparr>registered := reg\<rparr>))"

text \<open>The metric that each update of the driver goes to, and the label values it gives.\<close>

fun update_of :: "metrics \<Rightarrow> metric_call \<Rightarrow> desc \<times> string list" where
  "update_of m (CopyBytesSet handle bytes) = (copyBytes m, [handle])"
| "update_of m (CopyBytesDelete handle) = (copyBytes m, [handle])"
| "update_of m (ReconcileObserve kind duration) = (reconcileDuration m, [kind])"
| "update_of m (ReconcileErrorsInc kind) = (reconcileErrors m, [kind])"
| "update_of m (WatchRestartsInc kind) = (watchRestarts m, [kind])"
| "update_of m (VolumesSet count) = (volumes m, [])"
| "update_of m MountFailuresInc = (mountFailures m, [])"

definition WithLabelValues :: "desc \<Rightarrow> string list \<Rightarrow> (string \<times> string) list option" where
  "WithLabelValues d vs =
     (if length vs \<noteq> length (variableLabels d) then None else Some (zip (variableLabels d) vs))"

subsection \<open>The handler\<close>

datatype http_answer = Exposition registry | Redirect string | PageNotFound

text \<open>\<open>cleanPath\<close> of a ServeMux: rooted, clean, the slash at its end kept.\<close>

definition cleanPath :: "string \<Rightarrow> string" where
  "cleanPath p =
     (let p = (if rooted p then p else slash # p);
          np = filepath_Clean p
      in if last p = slash \<and> np \<noteq> [slash] then np @ [slash] else np)"

definition metrics_handler :: "metrics \<Rightarrow> string \<Rightarrow> http_answer" where
  "metrics_handler m p =
     (if cleanPath p \<noteq> p then Redirect (cleanPath p)
      else if p = ''/metrics'' then Exposition (registered m)
      else PageNotFound)"

text \<open>\<open>Serve\<close> ends with an error, after a \<open>Close\<close> as well; \<open>ended\<close>: the run is over.\<close>

definition serveMetrics :: "string option \<Rightarrow> bool \<Rightarrow> world \<Rightarrow> world" where
  "serveMetrics served ended w =
     (case served of
        None \<Rightarrow> w
      | Some err \<Rightarrow>
          if \<not> ended then
            emit (Logged LogWarn ''the metrics listener stopped'' [(''error'', Err (TextError err))]) w
          else w)"

subsection \<open>Properties\<close>

lemma register_ok:
  "distinct (map fqName ds) \<Longrightarrow> fqName ` set ds \<inter> fqName ` set reg = {} \<Longrightarrow>
     register ds reg = Some (reg @ ds)"
  by (induction ds arbitrary: reg) auto

lemma register_append:
  "register (c @ ds) reg = (case register c reg of None \<Rightarrow> None | Some reg \<Rightarrow> register ds reg)"
  by (induction c arbitrary: reg) auto

lemma MustRegister_concat: "MustRegister cs reg = register (concat cs) reg"
  by (induction cs arbitrary: reg) (auto simp: register_append split: option.split)

lemma names_disjoint:
  "(\<And>d e. d \<in> set c \<Longrightarrow> e \<in> set c' \<Longrightarrow> fqName d \<noteq> fqName e) \<Longrightarrow> fqName ` set c \<inter> fqName ` set c' = {}"
  by blast

definition named_under :: "string \<Rightarrow> collector \<Rightarrow> bool" where
  "named_under p c \<longleftrightarrow> distinct (map fqName c) \<and> list_all (\<lambda>d. prefix p (fqName d)) c"

text \<open>
  C40. The readings never panic: with the client library's own collectors under \<open>go_\<close> and
  \<open>process_\<close>, every metric of the driver registers, and every update the driver makes goes to a
  registered metric with as many label values as the metric has labels. The handler serves that
  registry, the client library's collectors and the build's version in it, at \<open>/metrics\<close>, and it
  serves a registry nowhere else.
\<close>

theorem readings_never_panic:
  assumes "named_under ''go_'' goCollector" "named_under ''process_'' processCollector"
  shows "\<exists>m. newMetrics goCollector processCollector = Some m \<and>
    (\<forall>update. case update_of m update of
      (d, vs) \<Rightarrow> d \<in> set (registered m) \<and> WithLabelValues d vs \<noteq> None) \<and>
    (\<forall>d \<in> set goCollector \<union> set processCollector \<union> {buildInfo}. d \<in> set (registered m)) \<and>
    metrics_handler m ''/metrics'' = Exposition (registered m) \<and>
    (\<forall>p reg. p \<noteq> ''/metrics'' \<longrightarrow> metrics_handler m p \<noteq> Exposition reg)"
proof -
  let ?own = "[buildInfo,
      vec ''per_node_csi_copy_bytes'' ''Bytes in this node's copy of the volume.'' copyLabels,
      vec ''per_node_csi_reconcile_duration_seconds'' ''Time until a CSI operation returns a response.'' kindLabel,
      vec ''per_node_csi_reconcile_errors_total'' ''CSI operations that returned an error.'' kindLabel,
      vec ''per_node_csi_watch_restarts_total'' ''Watches the driver opened again after one ended.'' kindLabel,
      vec ''per_node_csi_volumes'' ''Volumes this node holds a copy of for a pod that has published them.'' [],
      vec ''per_node_csi_mount_failures_total'' ''Mounts that failed.'' []]"
  let ?all = "goCollector @ processCollector @ ?own"
  have p: "prefix ''go_'' (fqName d)" if "d \<in> set goCollector" for d
    using assms(1) that by (simp add: named_under_def list_all_iff)
  have q: "prefix ''process_'' (fqName d)" if "d \<in> set processCollector" for d
    using assms(2) that by (simp add: named_under_def list_all_iff)
  have own: "distinct (map fqName ?own)" "\<forall>d \<in> set ?own. hd (fqName d) \<noteq> CHR ''g''"
    "\<forall>d \<in> set ?own. \<not> prefix ''process_'' (fqName d)"
    by code_simp+
  have gp: "fqName d \<noteq> fqName e" if "d \<in> set goCollector" "e \<in> set processCollector" for d e
    using p [OF that(1)] q [OF that(2)] by (auto simp: prefix_def)
  have go: "fqName d \<noteq> fqName e" if "d \<in> set goCollector" "e \<in> set ?own" for d e
    using p [OF that(1)] own(2) that(2) by (fastforce simp: prefix_def)
  have po: "fqName d \<noteq> fqName e" if "d \<in> set processCollector" "e \<in> set ?own" for d e
    using q [OF that(1)] own(3) that(2) by metis
  have "distinct (map fqName goCollector)" "distinct (map fqName processCollector)"
    using assms by (simp_all add: named_under_def)
  moreover have "fqName ` set goCollector \<inter> fqName ` set (processCollector @ ?own) = {}"
    by (rule names_disjoint) (metis Un_iff gp go set_append)
  moreover have "fqName ` set processCollector \<inter> fqName ` set ?own = {}"
    by (rule names_disjoint) (rule po)
  ultimately have d: "distinct (map fqName ?all)"
    unfolding map_append distinct_append set_map set_append using own(1) by blast
  have r: "register ?all [] = Some ?all" using register_ok [OF d, of "[]"] by simp
  obtain m where m: "newMetrics goCollector processCollector = Some m" "registered m = ?all"
    "m = \<lparr>registered = ?all, copyBytes = ?own ! 1, reconcileDuration = ?own ! 2,
       reconcileErrors = ?own ! 3, watchRestarts = ?own ! 4, volumes = ?own ! 5, mountFailures = ?own ! 6\<rparr>"
    using r by (simp add: newMetrics_def Let_def MustRegister_concat)
  have u: "case update_of m update of (d, vs) \<Rightarrow> d \<in> set (registered m) \<and> WithLabelValues d vs \<noteq> None" for update
    unfolding m(3) by (cases update) (auto simp: WithLabelValues_def vec_def copyLabels_def kindLabel_def)
  have "cleanPath ''/metrics'' = ''/metrics''" by code_simp
  then have "metrics_handler m ''/metrics'' = Exposition (registered m)"
    and "p \<noteq> ''/metrics'' \<longrightarrow> metrics_handler m p \<noteq> Exposition reg" for p reg
    by (auto simp: metrics_handler_def)
  moreover have "\<forall>d \<in> set goCollector \<union> set processCollector \<union> {buildInfo}. d \<in> set (registered m)"
    unfolding m(2) by (simp add: ball_Un)
  ultimately show ?thesis using m(1) u by blast
qed

lemma readings_never_panic_witness:
  "\<exists>m. newMetrics [vec ''go_goroutines'' ''Number of goroutines that currently exist.'' []]
      [vec ''process_open_fds'' ''Number of open file descriptors.'' []] = Some m \<and>
    copyBytes m \<in> set (registered m)"
proof -
  have "named_under ''go_'' [vec ''go_goroutines'' ''Number of goroutines that currently exist.'' []]"
    "named_under ''process_'' [vec ''process_open_fds'' ''Number of open file descriptors.'' []]"
    by (simp_all add: named_under_def vec_def)
  from readings_never_panic [OF this] obtain m where
    m: "newMetrics [vec ''go_goroutines'' ''Number of goroutines that currently exist.'' []]
      [vec ''process_open_fds'' ''Number of open file descriptors.'' []] = Some m"
    and u: "\<And>update. case update_of m update of
      (d, vs) \<Rightarrow> d \<in> set (registered m) \<and> WithLabelValues d vs \<noteq> None" by blast
  have "copyBytes m \<in> set (registered m)" using u [of "CopyBytesDelete ''data''"] by simp
  with m show ?thesis by blast
qed

end
