(* ===== verification/Interleave.thy ===== *)
theory Interleave
  imports System
begin

section \<open>Calls and passes that run beside each other\<close>

text \<open>
  gRPC runs every call in a goroutine of its own and the sweep runs in another. The mutex of the
  node guards each access to the holds, not the calls, so a publish is three steps to the others:
  it reads the holds, it mounts, it takes the hold; an unpublish takes the mount and the target
  away, reads the holds, and drops the hold; the stats walk the copy, ask for the room, and set
  the gauge; a probe creates its file and removes it; and a pass of the sweep reads the holds,
  lists the copies, and removes them one at a time. A schedule says whose step comes next. What
  a schedule may not do is cut the mount or the write of a hold in two; it can do less than the
  Go scheduler, so what it can break, the driver can break.
\<close>

datatype publish_phase =
    PublishStart
  | PublishChecked
  | PublishMounted
  | PublishDone "status + unit"

datatype unpublish_phase =
    UnpublishStart
  | UnpublishUnmounted
  | UnpublishReleasing
  | UnpublishDone "status + unit"

datatype stats_phase =
    StatsStart
  | StatsWalked int64
  | StatsMeasured int64 int64 int64
  | StatsDone "status + VolumeUsage"

datatype probe_phase =
    ProbeStart
  | ProbeCreated string
  | ProbeDone "status + bool"

datatype sweep_phase =
    SweepStart
  | SweepHeld "string list"
  | SweepAt "string list" "string list"
  | SweepDone

datatype process =
    Publishing NodePublishVolumeRequest publish_phase
  | Unpublishing NodeUnpublishVolumeRequest unpublish_phase
  | Measuring NodeGetVolumeStatsRequest stats_phase
  | Probing "nat \<Rightarrow> string" identity probe_phase
  | Sweeping "string list" sweep_phase

fun advance_publish ::
  "NodePublishVolumeRequest \<Rightarrow> publish_phase \<Rightarrow> node \<Rightarrow> world \<Rightarrow> publish_phase \<times> node \<times> world"
where
  "advance_publish request PublishStart n w =
     (let handle = publish_VolumeId request;
          target = publish_TargetPath request;
          pod = podOf (publish_VolumeContext request);
          refuse = (\<lambda>rsn err. (PublishDone (Inl err), n,
            post (node_events n) pod EventTypeWarning rsn (message err) w))
      in case checkHandle handle of
        Some err \<Rightarrow> refuse reasonRefused err
      | None \<Rightarrow>
          if target = '''' then (PublishDone (Inl no_target), n, w)
          else case holder n handle of
            None \<Rightarrow> (PublishChecked, n, w)
          | Some k \<Rightarrow>
              if PodUID k \<noteq> uid pod then refuse reasonHeld (held_by n handle k)
              else if Target k = target then (PublishDone (Inr ()), n, w)
              else (PublishChecked, n, w))"
| "advance_publish request PublishChecked n w =
     (case node_mount n request (publish_VolumeId request) (publish_TargetPath request) w of
        (Some err, w) \<Rightarrow>
          (PublishDone (Inl err), n,
           post (node_events n) (podOf (publish_VolumeContext request)) EventTypeWarning
             reasonMountFailed (message err) (mountFailed w))
      | (None, w) \<Rightarrow> (PublishMounted, n, w))"
| "advance_publish request PublishMounted n w =
     (case keepHold n (publish_VolumeId request)
          (hold_for (podOf (publish_VolumeContext request)) (publish_TargetPath request)) w of
        (n, w) \<Rightarrow>
          (PublishDone (Inr ()), n, emit (Logged LogInfo ''published''
             [(''volume'', Str (publish_VolumeId request)),
              (''target'', Str (publish_TargetPath request))]) w))"
| "advance_publish request (PublishDone a) n w = (PublishDone a, n, w)"

fun advance_unpublish ::
  "NodeUnpublishVolumeRequest \<Rightarrow> unpublish_phase \<Rightarrow> node \<Rightarrow> world \<Rightarrow> unpublish_phase \<times> node \<times> world"
where
  "advance_unpublish request UnpublishStart n w =
     (let handle = unpublish_VolumeId request;
          target = unpublish_TargetPath request
      in if handle = '''' then (UnpublishDone (Inl no_volume), n, w)
        else if target = '''' then (UnpublishDone (Inl no_target), n, w)
        else case unbind (mounts n) target w of
          (Some err, w) \<Rightarrow> (UnpublishDone (Inl (internal err)), n, w)
        | (None, w) \<Rightarrow>
            (case os_Remove target w of
               (removed, w) \<Rightarrow>
                 if (case removed of Some err \<Rightarrow> \<not> os_IsNotExist err | None \<Rightarrow> False)
                 then (UnpublishDone (Inl (internal (the removed))), n, w)
                 else (UnpublishUnmounted, n, w)))"
| "advance_unpublish request UnpublishUnmounted n w =
     (case holder n (unpublish_VolumeId request) of
        None \<Rightarrow> (UnpublishReleasing, n, w)
      | Some k \<Rightarrow>
          if Target k \<noteq> unpublish_TargetPath request then
            (UnpublishDone (Inr ()), n,
             emit (Logged LogInfo ''unpublished a target the hold does not name''
               [(''volume'', Str (unpublish_VolumeId request)),
                (''target'', Str (unpublish_TargetPath request)), (''held'', Str (Target k))]) w)
          else (UnpublishReleasing, n, w))"
| "advance_unpublish request UnpublishReleasing n w =
     (case dropHold n (unpublish_VolumeId request) w of
        (n, w) \<Rightarrow>
          (UnpublishDone (Inr ()), n,
           emit (Logged LogInfo ''unpublished'' [(''volume'', Str (unpublish_VolumeId request))])
             (forget (unpublish_VolumeId request) w)))"
| "advance_unpublish request (UnpublishDone a) n w = (UnpublishDone a, n, w)"

fun advance_stats ::
  "NodeGetVolumeStatsRequest \<Rightarrow> stats_phase \<Rightarrow> node \<Rightarrow> world \<Rightarrow> stats_phase \<times> world"
where
  "advance_stats request StatsStart n w =
     (let handle = stats_VolumeId request
      in if handle = '''' then (StatsDone (Inl no_volume), w)
        else if stats_VolumePath request = '''' then
          (StatsDone (Inl (status_Error InvalidArgument [Lit ''volume_path: the call names no path''])), w)
        else case copySize (copyPath (node_store n) handle) w of
          ((used, Some err), w) \<Rightarrow>
            (StatsDone (Inl (status_Error NotFound
               [Lit (''volume_id: '' @ handle @ '' has no copy on '' @ nodeID n @ '': '' @ error_text err)])), w)
        | ((used, None), w) \<Rightarrow> (StatsWalked used, w))"
| "advance_stats request (StatsWalked used) n w =
     (case space n (root (node_store n)) w of
        (Inl err, w) \<Rightarrow> (StatsDone (Inl (internal err)), w)
      | (Inr (available, all), w) \<Rightarrow> (StatsMeasured used available all, w))"
| "advance_stats request (StatsMeasured used available all) n w =
     (StatsDone (Inr \<lparr>Used = used, Available = available, Total = all\<rparr>),
      record_bytes (stats_VolumeId request) (sint used) w)"
| "advance_stats request (StatsDone a) n w = (StatsDone a, w)"

fun advance_probe :: "(nat \<Rightarrow> string) \<Rightarrow> identity \<Rightarrow> probe_phase \<Rightarrow> world \<Rightarrow> probe_phase \<times> world" where
  "advance_probe random i ProbeStart w =
     (case os_CreateTemp random (identity_store i) ''.probe-'' w of
        (Inl err, w) \<Rightarrow> (ProbeDone (Inr False), w)
      | (Inr tmp, w) \<Rightarrow> (ProbeCreated tmp, w))"
| "advance_probe random i (ProbeCreated tmp) w =
     (case take_fault w of
        (closed, w) \<Rightarrow> (case os_Remove tmp w of (removed, w) \<Rightarrow> (ProbeDone (Inr True), w)))"
| "advance_probe random i (ProbeDone a) w = (ProbeDone a, w)"

fun advance_sweep :: "string list \<Rightarrow> sweep_phase \<Rightarrow> node \<Rightarrow> world \<Rightarrow> sweep_phase \<times> world" where
  "advance_sweep named SweepStart n w = (SweepHeld (heldHandles n), w)"
| "advance_sweep named (SweepHeld held) n w =
     (case handles (node_store n) w of (hs, w) \<Rightarrow> (SweepAt held hs, w))"
| "advance_sweep named (SweepAt held []) n w = (SweepDone, w)"
| "advance_sweep named (SweepAt held (handle # hs)) n w =
     (SweepAt held hs, sweep_handles n named held [handle] w)"
| "advance_sweep named SweepDone n w = (SweepDone, w)"

fun advance :: "process \<Rightarrow> node \<Rightarrow> world \<Rightarrow> process \<times> node \<times> world" where
  "advance (Publishing request phase) n w =
     (case advance_publish request phase n w of (phase, n, w) \<Rightarrow> (Publishing request phase, n, w))"
| "advance (Unpublishing request phase) n w =
     (case advance_unpublish request phase n w of (phase, n, w) \<Rightarrow> (Unpublishing request phase, n, w))"
| "advance (Measuring request phase) n w =
     (case advance_stats request phase n w of (phase, w) \<Rightarrow> (Measuring request phase, n, w))"
| "advance (Probing random i phase) n w =
     (case advance_probe random i phase w of (phase, w) \<Rightarrow> (Probing random i phase, n, w))"
| "advance (Sweeping named phase) n w =
     (case advance_sweep named phase n w of (phase, w) \<Rightarrow> (Sweeping named phase, n, w))"

type_synonym crowd = "process list \<times> node \<times> world"

fun schedule :: "nat list \<Rightarrow> crowd \<Rightarrow> crowd" where
  "schedule [] s = s"
| "schedule (i # later) (ps, n, w) =
     (if i < length ps then
        (case advance (ps ! i) n w of (p, n, w) \<Rightarrow> schedule later (ps[i := p], n, w))
      else schedule later (ps, n, w))"

lemma schedule_append: "schedule (xs @ ys) s = schedule ys (schedule xs s)"
  by (induction xs s rule: schedule.induct) (auto split: prod.split)

text \<open>What each step keeps, every schedule keeps.\<close>

lemma schedule_invariant:
  assumes "schedule order (ps, n, w) = (ps', n', w')" "I n w" "list_all P ps"
    and "\<And>p n w p' n' w'. advance p n w = (p', n', w') \<Longrightarrow> I n w \<Longrightarrow> P p \<Longrightarrow> I n' w' \<and> P p'"
  shows "I n' w' \<and> list_all P ps'"
  using assms(1-3)
proof (induction order arbitrary: ps n w)
  case (Cons i later)
  show ?case
  proof (cases "i < length ps")
    case True
    obtain p n1 w1 where a: "advance (ps ! i) n w = (p, n1, w1)" by (metis prod.collapse)
    have st: "I n1 w1 \<and> P p"
      using assms(4) [OF a Cons.prems(2)] Cons.prems(3) True by (simp add: list_all_length)
    then have "list_all P (ps[i := p])"
      using Cons.prems(3) set_update_subset_insert [of ps i p] by (auto simp: list_all_iff)
    then show ?thesis
      using Cons.IH [of "ps[i := p]" n1 w1] Cons.prems(1) True a st by simp
  qed (use Cons in simp)
qed simp

subsection \<open>One after the other\<close>

lemma publish_alone:
  assumes "NodePublishVolume n r w = (a, n', w')" "i < length ps" "ps ! i = Publishing r PublishStart"
  shows "schedule [i, i, i] (ps, n, w) = (ps[i := Publishing r (PublishDone a)], n', w')"
proof (cases rule: publish_cases [where r = r and n = n and w = w])
  case (failed err w1)
  then show ?thesis
    using assms publish_mount_failed [OF failed]
    by (auto simp: may_mount_def split: option.splits)
next
  case (mounted w1 n2 w2)
  then show ?thesis
    using assms publish_mounted [OF mounted]
    by (auto simp: may_mount_def split: option.splits)
qed (use assms in \<open>auto simp: publish_branches Let_def\<close>)

lemma unpublish_alone:
  assumes "NodeUnpublishVolume n r w = (a, n', w')" "i < length ps" "ps ! i = Unpublishing r UnpublishStart"
  shows "schedule [i, i, i] (ps, n, w) = (ps[i := Unpublishing r (UnpublishDone a)], n', w')"
  using assms
  by (auto simp: NodeUnpublishVolume_def Let_def split: prod.splits option.splits if_splits)

lemma stats_alone:
  assumes "NodeGetVolumeStats n r w = (a, w')" "i < length ps" "ps ! i = Measuring r StatsStart"
  shows "schedule [i, i, i] (ps, n, w) = (ps[i := Measuring r (StatsDone a)], n, w')"
  using assms
  by (auto simp: NodeGetVolumeStats_def Let_def split: prod.splits option.splits sum.splits if_splits)

lemma probe_alone:
  assumes "Probe random x w = (a, w')" "i < length ps" "ps ! i = Probing random x ProbeStart"
  shows "schedule [i, i] (ps, n, w) = (ps[i := Probing random x (ProbeDone a)], n, w')"
  using assms
  by (auto simp: Probe_def storeIsWriteable_def split: prod.splits sum.splits)

lemma sweep_handles_Cons:
  "sweep_handles n named held (h # hs) w =
     sweep_handles n named held hs (sweep_handles n named held [h] w)"
  by (simp split: prod.split option.split)

lemma sweep_loop_alone:
  assumes "i < length ps" "ps ! i = Sweeping named (SweepAt held hs)"
  shows "schedule (replicate (Suc (length hs)) i) (ps, n, w) =
    (ps[i := Sweeping named SweepDone], n, sweep_handles n named held hs w)"
  using assms
proof (induction hs arbitrary: ps w)
  case (Cons h hs)
  show ?case
    unfolding sweep_handles_Cons [of n named held h hs]
    using Cons.IH [of "ps[i := Sweeping named (SweepAt held hs)]" "sweep_handles n named held [h] w"] Cons.prems
    by (simp del: sweep_handles.simps)
qed simp

lemma sweep_from_held:
  assumes "i < length ps" "ps ! i = Sweeping named (SweepHeld held)" "handles (node_store n) w = (hs, w1)"
  shows "schedule (replicate (Suc (Suc (length hs))) i) (ps, n, w) =
    (ps[i := Sweeping named SweepDone], n, sweep_handles n named held hs w1)"
  using assms sweep_loop_alone [of i "ps[i := Sweeping named (SweepAt held hs)]" named held hs n w1]
  by (simp del: replicate_Suc add: replicate_Suc [of "Suc (length hs)"])

text \<open>
  The steps that the others can see between are the steps of the calls: a call whose steps run
  without another's in between is the handler's whole run, and a pass whose steps do is \<open>sweep\<close>.
\<close>

theorem alone_is_the_call:
  "(\<exists>a n' w'. NodePublishVolume n r w = (a, n', w') \<and>
     schedule [0, 0, 0] ([Publishing r PublishStart], n, w) = ([Publishing r (PublishDone a)], n', w')) \<and>
   (\<exists>a n' w'. NodeUnpublishVolume n u w = (a, n', w') \<and>
     schedule [0, 0, 0] ([Unpublishing u UnpublishStart], n, w) = ([Unpublishing u (UnpublishDone a)], n', w')) \<and>
   (\<exists>a w'. NodeGetVolumeStats n v w = (a, w') \<and>
     schedule [0, 0, 0] ([Measuring v StatsStart], n, w) = ([Measuring v (StatsDone a)], n, w')) \<and>
   (\<exists>a w'. Probe random i w = (a, w') \<and>
     schedule [0, 0] ([Probing random i ProbeStart], n, w) = ([Probing random i (ProbeDone a)], n, w')) \<and>
   (\<exists>order. schedule order ([Sweeping named SweepStart], n, w) = ([Sweeping named SweepDone], n, sweep n named w))"
proof (intro conjI)
  obtain a n' w' where "NodePublishVolume n r w = (a, n', w')" by (metis prod.collapse)
  with publish_alone [OF this, of 0 "[Publishing r PublishStart]"]
  show "\<exists>a n' w'. NodePublishVolume n r w = (a, n', w') \<and>
     schedule [0, 0, 0] ([Publishing r PublishStart], n, w) = ([Publishing r (PublishDone a)], n', w')"
    by auto
  obtain a n' w' where "NodeUnpublishVolume n u w = (a, n', w')" by (metis prod.collapse)
  with unpublish_alone [OF this, of 0 "[Unpublishing u UnpublishStart]"]
  show "\<exists>a n' w'. NodeUnpublishVolume n u w = (a, n', w') \<and>
     schedule [0, 0, 0] ([Unpublishing u UnpublishStart], n, w) = ([Unpublishing u (UnpublishDone a)], n', w')"
    by auto
  obtain a w' where "NodeGetVolumeStats n v w = (a, w')" by (metis prod.collapse)
  with stats_alone [OF this, of 0 "[Measuring v StatsStart]"]
  show "\<exists>a w'. NodeGetVolumeStats n v w = (a, w') \<and>
     schedule [0, 0, 0] ([Measuring v StatsStart], n, w) = ([Measuring v (StatsDone a)], n, w')"
    by auto
  obtain a w' where "Probe random i w = (a, w')" by (metis prod.collapse)
  with probe_alone [OF this, of 0 "[Probing random i ProbeStart]"]
  show "\<exists>a w'. Probe random i w = (a, w') \<and>
     schedule [0, 0] ([Probing random i ProbeStart], n, w) = ([Probing random i (ProbeDone a)], n, w')"
    by auto
  obtain hs w1 where h: "handles (node_store n) w = (hs, w1)" by fastforce
  have "schedule (0 # replicate (Suc (Suc (length hs))) 0) ([Sweeping named SweepStart], n, w) =
      ([Sweeping named SweepDone], n, sweep n named w)"
    using h sweep_from_held [of 0 "[Sweeping named (SweepHeld (heldHandles n))]" named "heldHandles n" n w hs w1]
    by (simp add: sweep_def Let_def del: replicate_Suc)
  then show "\<exists>order. schedule order ([Sweeping named SweepStart], n, w) =
      ([Sweeping named SweepDone], n, sweep n named w)" by blast
qed

end
