(* ===== verification/Schedules.thy ===== *)
theory Schedules
  imports Interleave
begin

section \<open>What no schedule breaks\<close>

text \<open>
  Properties of every schedule of calls and passes: a copy that every pass finds named stays, and
  a pod that holds a handle keeps every pod out that had not read the holds before.
\<close>

subsection \<open>The copies\<close>

text \<open>
  A step of a publish makes directories, sets the mode of its handle's copy and writes its
  handle's hold; a step of an unpublish removes its target and its hold; a probe touches its own
  file; and a step of a pass removes at most a copy that it has listed and that no
  PersistentVolume of its list names. So a copy that every pass names stays, whatever the order.
\<close>

fun in_flight :: "publish_phase \<Rightarrow> bool" where
  "in_flight PublishChecked = True"
| "in_flight PublishMounted = True"
| "in_flight phase = False"

text \<open>The runtime's random part of a file name holds no slash.\<close>

definition probe_names :: "(nat \<Rightarrow> string) \<Rightarrow> bool" where
  "probe_names random \<longleftrightarrow> (\<forall>k. slash \<notin> set (random k))"

fun quiet_process :: "store \<Rightarrow> string \<Rightarrow> process \<Rightarrow> bool" where
  "quiet_process s h (Publishing r phase) =
     (\<not> prefix (copies_place s) (locate (publish_TargetPath r)) \<and>
      (in_flight phase \<longrightarrow> plain_name (publish_VolumeId r)))"
| "quiet_process s h (Unpublishing r phase) =
     (\<not> prefix (copies_place s) (locate (unpublish_TargetPath r)) \<and> plain_name (unpublish_VolumeId r))"
| "quiet_process s h (Measuring r phase) = True"
| "quiet_process s h (Probing random i phase) =
     (identity_store i = root s \<and> root s \<noteq> '''' \<and> probe_names random \<and>
      (case phase of ProbeCreated tmp \<Rightarrow> \<not> prefix (copies_place s) (locate tmp) | _ \<Rightarrow> True))"
| "quiet_process s h (Sweeping named phase) =
     (h \<in> set named \<and>
      (case phase of SweepAt held hs \<Rightarrow> list_all plain_name hs | _ \<Rightarrow> True))"

definition copy_spared :: "store \<Rightarrow> string \<Rightarrow> world \<Rightarrow> world \<Rightarrow> bool" where
  "copy_spared s h w w' \<longleftrightarrow>
     (\<forall>q i. prefix (copy_place s h) q \<longrightarrow> fs w q = Some i \<longrightarrow>
        fs w' q = Some i \<or> (q = copy_place s h \<and> dir_at w q \<and> dir_at w' q))"

lemma copy_spared_trans: "copy_spared s h w w1 \<Longrightarrow> copy_spared s h w1 w2 \<Longrightarrow> copy_spared s h w w2"
  unfolding copy_spared_def
proof (intro allI impI)
  fix q i
  assume keep1: "\<forall>q i. prefix (copy_place s h) q \<longrightarrow> fs w q = Some i \<longrightarrow>
      fs w1 q = Some i \<or> (q = copy_place s h \<and> dir_at w q \<and> dir_at w1 q)"
    and keep2: "\<forall>q i. prefix (copy_place s h) q \<longrightarrow> fs w1 q = Some i \<longrightarrow>
      fs w2 q = Some i \<or> (q = copy_place s h \<and> dir_at w1 q \<and> dir_at w2 q)"
    and q: "prefix (copy_place s h) q" "fs w q = Some i"
  consider "fs w1 q = Some i" | j where "q = copy_place s h" "dir_at w q" "fs w1 q = Some j" "dir_at w1 q"
    using keep1 [rule_format, OF q] by (auto simp: dir_at_iff)
  then show "fs w2 q = Some i \<or> (q = copy_place s h \<and> dir_at w q \<and> dir_at w2 q)"
  proof cases
    case 1
    then show ?thesis using keep2 q by (fastforce simp: dir_at_iff)
  next
    case (2 j)
    with keep2 q show ?thesis by (fastforce simp: dir_at_iff)
  qed
qed

lemma copy_spared_same: "fs w' = fs w \<Longrightarrow> copy_spared s h w w'"
  by (simp add: copy_spared_def)

lemma plain_copies_iff: "plain_copies s w \<longleftrightarrow> (\<forall>c. fs w (copies_place s @ [c]) \<noteq> None \<longrightarrow> plain_name c)"
  by (auto simp: plain_copies_def list_all_iff child_names_iff)

definition peaceful :: "store \<Rightarrow> string \<Rightarrow> node \<Rightarrow> world \<Rightarrow> bool" where
  "peaceful s h n w \<longleftrightarrow>
     bind_kernel (mounts n) \<and> reading_call (space n) \<and> node_store n = s \<and> plain_copies s w"

lemma node_mount_quiet:
  assumes "node_mount n r h' t w = (a, w')" "plain_name h'"
    and b: "bind_kernel (mounts n)" "node_store n = s" "plain_copies s w"
    and t: "\<not> prefix (copies_place s) (locate t)"
  shows "copy_spared s h w w'" "plain_copies s w'"
proof -
  note M = node_mount_facts [OF assms(1,2) b(1), unfolded b(2)]
  show "copy_spared s h w w'"
    unfolding copy_spared_def
  proof (intro allI impI)
    fix q i assume q: "prefix (copy_place s h) q" "fs w q = Some i"
    have "q = copy_place s h" if "q = copy_place s h'"
      using q(1) that by (auto simp: copy_place_def prefix_def append_eq_Cons_conv)
    then show "fs w' q = Some i \<or> (q = copy_place s h \<and> dir_at w q \<and> dir_at w' q)"
      using M(4) [unfolded only_makes_dirs_def, THEN spec, of q] q(2) by auto
  qed
  have "fs w' (copies_place s @ [c]) = fs w (copies_place s @ [c])" if "c \<noteq> h'" for c
  proof (rule M(5))
    show "\<not> prefix (copies_place s @ [c]) (copy_place s h')" using that by (simp add: copy_place_def)
    show "\<not> prefix (copies_place s @ [c]) (locate t)" using t append_prefixD by blast
  qed
  then show "plain_copies s w'"
    using b(3) assms(2) unfolding plain_copies_iff by metis
qed

lemma copies_not_up_hold: "\<not> prefix (copies_place s @ q) (hold_place s h)"
  by (simp add: hold_place_def copies_place_def holds_place_def copiesDirectory_def holdsDirectory_def)

lemma keepHold_quiet:
  assumes "keepHold n h' k w = (n', w')" "plain_name h'" "node_store n = s"
  shows "copy_spared s h w w'" "plain_copies s w \<Longrightarrow> plain_copies s w'" "node_store n' = s" "mounts n' = mounts n" "space n' = space n"
proof -
  note K = keepHold_facts [OF assms(1,2), unfolded assms(3)]
  have "fs w' (copies_place s @ q) = fs w (copies_place s @ q)" for q
    using K(5) copies_not_up_hold by blast
  moreover have "\<exists>c. q = copies_place s @ c" if "prefix (copy_place s h) q" for q
    using that by (auto simp: copy_place_def prefix_def)
  ultimately show "copy_spared s h w w'" "plain_copies s w \<Longrightarrow> plain_copies s w'"
    unfolding copy_spared_def plain_copies_iff by metis+
  show "node_store n' = s" "mounts n' = mounts n" "space n' = space n" using K(1) assms(3) by simp_all
qed

lemma advance_publish_quiet:
  assumes "advance_publish r phase n w = (phase', n', w')" "peaceful s h n w"
    and "quiet_process s h (Publishing r phase)"
  shows "copy_spared s h w w' \<and> peaceful s h n' w' \<and> quiet_process s h (Publishing r phase')"
proof (cases phase)
  case PublishStart
  have "fs w' = fs w" "n' = n" "phase' = PublishChecked \<longrightarrow> plain_name (publish_VolumeId r)"
    "phase' \<noteq> PublishMounted"
    using assms(1) PublishStart
    by (auto simp: Let_def checked_plain split: option.splits if_splits)
  then show ?thesis
    using assms(2,3) by (cases phase') (auto simp: copy_spared_same peaceful_def plain_copies_iff)
next
  case PublishChecked
  obtain e w1 where m: "node_mount n r (publish_VolumeId r) (publish_TargetPath r) w = (e, w1)" by fastforce
  have p: "plain_name (publish_VolumeId r)" "\<not> prefix (copies_place s) (locate (publish_TargetPath r))"
    using assms(3) PublishChecked by simp_all
  have b: "bind_kernel (mounts n)" "node_store n = s" "plain_copies s w"
    using assms(2) by (simp_all add: peaceful_def)
  have "fs w' = fs w1" "n' = n" "phase' = PublishMounted \<or> \<not> in_flight phase'"
    using assms(1) PublishChecked m by (auto simp: mountFailed_def split: option.splits)
  then show ?thesis
    using node_mount_quiet [OF m p(1) b p(2)] assms(2) p
    by (auto simp: copy_spared_def peaceful_def plain_copies_iff dir_at_def)
next
  case PublishMounted
  obtain n1 w1 where k: "keepHold n (publish_VolumeId r)
      (hold_for (podOf (publish_VolumeContext r)) (publish_TargetPath r)) w = (n1, w1)" by fastforce
  have p: "plain_name (publish_VolumeId r)" "node_store n = s" "plain_copies s w"
    using assms(2,3) PublishMounted by (simp_all add: peaceful_def)
  have "fs w' = fs w1" "n' = n1" "\<not> in_flight phase'"
    using assms(1) PublishMounted k by auto
  then show ?thesis
    using keepHold_quiet [OF k p(1,2)] assms(2,3) p
    by (auto simp: copy_spared_def peaceful_def plain_copies_iff dir_at_def)
qed (use assms in \<open>auto simp: copy_spared_same\<close>)

lemma copies_same_quiet:
  assumes "\<And>q. prefix (copies_place s) q \<Longrightarrow> fs w' q = fs w q"
  shows "copy_spared s h w w'" "plain_copies s w \<Longrightarrow> plain_copies s w'"
proof -
  have "prefix (copies_place s) q" if "prefix (copy_place s h) q" for q
    using that by (auto simp: copy_place_def prefix_def)
  then show "copy_spared s h w w'" using assms by (auto simp: copy_spared_def)
  show "plain_copies s w \<Longrightarrow> plain_copies s w'" using assms by (simp add: plain_copies_iff)
qed

lemma advance_unpublish_quiet:
  assumes "advance_unpublish r phase n w = (phase', n', w')" "peaceful s h n w"
    and "quiet_process s h (Unpublishing r phase)"
  shows "copy_spared s h w w' \<and> peaceful s h n' w' \<and> quiet_process s h (Unpublishing r phase')"
proof -
  let ?t = "locate (unpublish_TargetPath r)"
  have b: "bind_kernel (mounts n)" "node_store n = s" "plain_copies s w"
    using assms(2) by (simp_all add: peaceful_def)
  have p: "\<not> prefix (copies_place s) ?t" "plain_name (unpublish_VolumeId r)" using assms(3) by simp_all
  have "fs w' q = fs w q \<and> node_store n' = s \<and> mounts n' = mounts n \<and> space n' = space n" if q: "prefix (copies_place s) q" for q
  proof (cases phase)
    case UnpublishStart
    obtain e1 w1 where u: "unbind (mounts n) (unpublish_TargetPath r) w = (e1, w1)" by fastforce
    obtain e2 w2 where o: "os_Remove (unpublish_TargetPath r) w1 = (e2, w2)" by fastforce
    have "q \<noteq> ?t" using p(1) q by auto
    moreover have "fs w1 = fs w" using only_mtabD(2) [OF bind_kernel.unbind_frame [OF b(1) u]] .
    ultimately have "fs w1 q = fs w q" "fs w2 q = fs w q"
      using o by (cases e2; auto dest!: os_Remove_None os_Remove_Some dest: fs_cong)+
    moreover have "n' = n" "w' = w \<or> w' = w1 \<or> w' = w2"
      using assms(1) UnpublishStart u o by (auto simp: Let_def split: option.splits if_splits)
    ultimately show ?thesis using b(2) by auto
  next
    case UnpublishUnmounted
    then show ?thesis using assms(1) b(2) by (auto split: option.splits if_splits)
  next
    case UnpublishReleasing
    obtain n1 w1 where d: "dropHold n (unpublish_VolumeId r) w = (n1, w1)" by fastforce
    have "q \<noteq> hold_place s (unpublish_VolumeId r)"
      using q copies_not_up_hold [of s "[]"] by auto
    then have "fs w1 q = fs w q"
      using dropHold_facts(5) [OF d] locate_holdPath [OF p(2)] b(2) by simp
    then show ?thesis
      using assms(1) UnpublishReleasing d dropHold_facts(1) [OF d] b(2) by (auto simp: forget_def)
  qed (use assms(1) b(2) in auto)
  moreover have "prefix (copies_place s) (copies_place s)" by simp
  ultimately have "node_store n' = s" "mounts n' = mounts n" "space n' = space n" "\<And>q. prefix (copies_place s) q \<Longrightarrow> fs w' q = fs w q"
    by blast+
  then show ?thesis
    using copies_same_quiet(1) [of s w' w h] copies_same_quiet(2) [of s w' w] assms(2) p by (simp add: peaceful_def)
qed

lemma advance_sweep_quiet:
  assumes "advance_sweep named phase n w = (phase', w')" "peaceful s h n w"
    and "quiet_process s h (Sweeping named phase)"
  shows "copy_spared s h w w' \<and> peaceful s h n w' \<and> quiet_process s h (Sweeping named phase')"
proof -
  have s: "node_store n = s" "plain_copies s w" using assms(2) by (simp_all add: peaceful_def)
  consider (list) held where "phase = SweepHeld held"
    | (one) held x hs where "phase = SweepAt held (x # hs)"
    | (none) "w' = w" "\<nexists>held hs. phase' = SweepAt held hs"
    using assms(1) by (cases "(named, phase, n, w)" rule: advance_sweep.cases) auto
  then show ?thesis
  proof cases
    case list
    obtain hs w1 where l: "handles s w = (hs, w1)" by fastforce
    have "list_all plain_name hs" using handles_plain [OF l s(2)] by (simp add: list_all_iff)
    moreover have "fs w1 = fs w" using readsD(1) [OF handles_reads [OF l]] .
    moreover have "phase' = SweepAt held hs" "w' = w1" using assms(1) list l s(1) by auto
    ultimately show ?thesis
      using assms(2,3) by (auto simp: copy_spared_same peaceful_def plain_copies_iff)
  next
    case one
    have p: "plain_name x" "list_all plain_name hs" "h \<in> set named" using assms(3) one by simp_all
    have w': "w' = sweep_handles n named held [x] w" "phase' = SweepAt held hs"
      using assms(1) one by (auto simp del: sweep_handles.simps)
    have "\<forall>y \<in> set [x]. plain_name y" using p(1) by simp
    note F = sweep_handles_facts [OF this, where n = n and named = named and held = held and w = w, folded w'(1), unfolded s(1)]
    have "fs w' q = fs w q" if "prefix (copy_place s h) q" for q
    proof (rule F(4))
      fix y assume "y \<notin> set named"
      then have "y \<noteq> h" using p(3) by auto
      then show "\<not> prefix (copy_place s y) q"
        using that by (auto simp: copy_place_def prefix_def)
    qed
    moreover have "plain_copies s w'" using F(5) s(2) unfolding plain_copies_iff by metis
    ultimately show ?thesis
      using assms(2) p w'(2) by (auto simp: copy_spared_def peaceful_def)
  next
    case none
    then show ?thesis
      using assms(2,3) by (cases phase') (auto simp: copy_spared_same)
  qed
qed

lemma advance_stats_quiet:
  assumes "advance_stats r phase n w = (phase', w')" "peaceful s h n w"
  shows "copy_spared s h w w' \<and> peaceful s h n w'"
proof -
  have same: "fs w' = fs w"
  proof (cases phase)
    case StatsStart
    obtain x w1 where c: "copySize (copyPath (node_store n) (stats_VolumeId r)) w = (x, w1)" by fastforce
    have "w' = w \<or> w' = w1"
      using assms(1) StatsStart c by (auto simp: Let_def split: if_splits prod.splits option.splits)
    then show ?thesis using readsD(1) [OF copySize_reads [OF c]] by auto
  next
    case (StatsWalked used)
    obtain x w1 where s: "space n (root (node_store n)) w = (x, w1)" by fastforce
    have "reads w w1" using assms(2) s by (auto simp: peaceful_def intro: reading_call.reads_only)
    then have "fs w1 = fs w" by (rule readsD(1))
    then show ?thesis using assms(1) StatsWalked s by (auto split: sum.splits prod.splits)
  qed (use assms(1) in \<open>auto simp: record_bytes_def\<close>)
  then show ?thesis using assms(2) by (simp add: copy_spared_same peaceful_def plain_copies_iff)
qed

lemma probe_place:
  assumes "root s \<noteq> ''''" "probe_names random"
  shows "\<not> prefix (copies_place s) (locate (join_path (root s) ''.probe-'' @ random k))"
proof -
  have "plain_name (''.probe-'' @ random k)" using assms(2) by (auto simp: probe_names_def plain_name_def)
  then have "locate (join_path (root s) ''.probe-'' @ random k) = locate (root s) @ [''.probe-'' @ random k]"
    using locate_join_path [OF assms(1)] by (simp add: join_path_append)
  then show ?thesis by (simp add: copies_place_def copiesDirectory_def)
qed

lemma advance_probe_quiet:
  assumes "advance_probe random i phase w = (phase', w')" "peaceful s h n w"
    and "quiet_process s h (Probing random i phase)"
  shows "copy_spared s h w w' \<and> peaceful s h n w' \<and> quiet_process s h (Probing random i phase')"
proof -
  have i: "identity_store i = root s" "root s \<noteq> ''''" "probe_names random" using assms(3) by simp_all
  have "(\<forall>q. prefix (copies_place s) q \<longrightarrow> fs w' q = fs w q) \<and> quiet_process s h (Probing random i phase')"
  proof (cases phase)
    case ProbeStart
    obtain r w1 where c: "os_CreateTemp random (root s) ''.probe-'' w = (r, w1)" by fastforce
    then have ct: "create_temp 10000 random (join_path (root s) ''.probe-'') w = (r, w1)"
      using i(2) by (simp add: os_CreateTemp_def)
    show ?thesis
    proof (cases r)
      case (Inl err)
      then show ?thesis using assms(1) ProbeStart c i create_temp_facts [OF ct] by auto
    next
      case (Inr tmp)
      then obtain d j where t: "fs w1 = (fs w)(locate tmp \<mapsto> Reg d '''')" "tmp = join_path (root s) ''.probe-'' @ random j"
        using create_temp_facts [OF ct] by auto
      then have out: "\<not> prefix (copies_place s) (locate tmp)" using probe_place [OF i(2,3)] by simp
      then have "fs w1 q = fs w q" if "prefix (copies_place s) q" for q
        using t(1) that by (auto simp: fun_upd_def)
      then show ?thesis using assms(1) ProbeStart c i Inr out by auto
    qed
  next
    case (ProbeCreated tmp)
    obtain f w1 where f: "take_fault w = (f, w1)" by fastforce
    obtain e w2 where o: "os_Remove tmp w1 = (e, w2)" by fastforce
    have out: "\<not> prefix (copies_place s) (locate tmp)" using assms(3) ProbeCreated by simp
    have "fs w2 q = fs w q" if "prefix (copies_place s) q" for q
    proof -
      have "q \<noteq> locate tmp" using out that by auto
      then show ?thesis
        using o readsD(1) [OF take_fault_reads [OF f]]
        by (cases e) (auto dest!: os_Remove_None os_Remove_Some dest: fs_cong)
    qed
    then show ?thesis using assms(1) ProbeCreated f o i by auto
  qed (use assms in auto)
  then show ?thesis
    using copies_same_quiet(1) [of s w' w h] copies_same_quiet(2) [of s w' w] assms(2) by (simp add: peaceful_def)
qed

lemma advance_quiet:
  assumes "advance p n w = (p', n', w')" "peaceful s h n w" "quiet_process s h p"
  shows "copy_spared s h w w' \<and> peaceful s h n' w' \<and> quiet_process s h p'"
proof (cases p)
  case (Publishing r phase)
  then obtain phase' where "advance_publish r phase n w = (phase', n', w')" "p' = Publishing r phase'"
    using assms(1) by (auto split: prod.splits)
  then show ?thesis using advance_publish_quiet assms(2,3) Publishing by metis
next
  case (Unpublishing r phase)
  then obtain phase' where "advance_unpublish r phase n w = (phase', n', w')" "p' = Unpublishing r phase'"
    using assms(1) by (auto split: prod.splits)
  then show ?thesis using advance_unpublish_quiet assms(2,3) Unpublishing by metis
next
  case (Measuring r phase)
  then obtain phase' where "advance_stats r phase n w = (phase', w')" "p' = Measuring r phase'" "n' = n"
    using assms(1) by (auto split: prod.splits)
  then show ?thesis using advance_stats_quiet assms(2) by simp
next
  case (Probing random i phase)
  then obtain phase' where "advance_probe random i phase w = (phase', w')" "p' = Probing random i phase'" "n' = n"
    using assms(1) by (auto split: prod.splits)
  then show ?thesis using advance_probe_quiet assms(2,3) Probing by metis
next
  case (Sweeping named phase)
  then obtain phase' where "advance_sweep named phase n w = (phase', w')" "p' = Sweeping named phase'" "n' = n"
    using assms(1) by (auto split: prod.splits)
  then show ?thesis using advance_sweep_quiet assms(2,3) Sweeping by metis
qed

lemma schedule_quiet:
  assumes "schedule order (ps, n, w) = (ps', n', w')" "peaceful s h n w" "list_all (quiet_process s h) ps"
  shows "copy_spared s h w w'"
proof -
  have "(copy_spared s h w w' \<and> peaceful s h n' w') \<and> list_all (quiet_process s h) ps'"
    using assms(1) _ assms(3)
  proof (rule schedule_invariant)
    show "copy_spared s h w w \<and> peaceful s h n w" using assms(2) by (simp add: copy_spared_same)
    show "(copy_spared s h w w2 \<and> peaceful s h n2 w2) \<and> quiet_process s h p2"
      if "advance p1 n1 w1 = (p2, n2, w2)" "copy_spared s h w w1 \<and> peaceful s h n1 w1" "quiet_process s h p1"
      for p1 n1 w1 p2 n2 w2
      using advance_quiet [OF that(1) _ that(3)] that(2) copy_spared_trans by blast
  qed
  then show ?thesis by blast
qed


definition sample_stats :: NodeGetVolumeStatsRequest where
  "sample_stats = \<lparr>stats_VolumeId = ''old'', stats_VolumePath = ''/t1''\<rparr>"


subsection \<open>The holder\<close>

text \<open>
  The processes beside a hold of the pod \<open>u\<close> on the handle \<open>h\<close> at the target \<open>t\<close>: none that
  publishes the handle is past its check, and none that unpublishes it does so at that target.
\<close>

fun kept_out :: "string \<Rightarrow> string \<Rightarrow> string \<Rightarrow> process \<Rightarrow> bool" where
  "kept_out u t h (Publishing r phase) =
     (if publish_VolumeId r = h then
        \<not> in_flight phase \<and> (uid (podOf (publish_VolumeContext r)) = u \<longrightarrow> publish_TargetPath r = t) \<and>
        (uid (podOf (publish_VolumeContext r)) \<noteq> u \<longrightarrow>
           (case phase of
              PublishDone (Inl err) \<Rightarrow> code err \<in> {InvalidArgument, FailedPrecondition}
            | PublishDone (Inr done) \<Rightarrow> False
            | _ \<Rightarrow> True))
      else in_flight phase \<longrightarrow> plain_name (publish_VolumeId r))"
| "kept_out u t h (Unpublishing r phase) =
     (unpublish_VolumeId r = h \<longrightarrow> unpublish_TargetPath r \<noteq> t \<and> phase \<noteq> UnpublishReleasing)"
| "kept_out u t h p = True"

definition held_at :: "string \<Rightarrow> string \<Rightarrow> string \<Rightarrow> node \<Rightarrow> bool" where
  "held_at u t h n \<longleftrightarrow> (\<exists>k. holder n h = Some k \<and> PodUID k = u \<and> Target k = t)"

text \<open>\<open>old\<close> is the mount table at the start.\<close>

definition kept_alone ::
  "store \<Rightarrow> mount_entry list \<Rightarrow> string \<Rightarrow> string \<Rightarrow> string \<Rightarrow> node \<Rightarrow> world \<Rightarrow> bool"
where
  "kept_alone s old u t h n w \<longleftrightarrow>
     bind_kernel (mounts n) \<and> reading_call (space n) \<and> node_store n = s \<and> held_at u t h n \<and>
     (\<forall>m \<in> set (mtab w). mnt_source m = copy_place s h \<longrightarrow> m \<in> set old)"

lemma kept_alone_less:
  "kept_alone s old u t h n w \<Longrightarrow> set (mtab w') \<subseteq> set (mtab w) \<Longrightarrow> kept_alone s old u t h n w'"
  by (auto simp: kept_alone_def)

lemma node_mount_mtab:
  assumes "node_mount n r h' t' w = (e, w')" "plain_name h'" "bind_kernel (mounts n)" "m \<in> set (mtab w')"
  shows "m \<in> set (mtab w) \<or> mnt_source m = copy_place (node_store n) h'"
proof -
  let ?c = "if mounted_at w (locate t') then detach (locate t') (mtab w) else mtab w"
  have c: "set ?c \<subseteq> set (mtab w)" using detach_subset by simp
  show ?thesis
  proof (cases e)
    case None
    then show ?thesis using node_mount_done(1) [of n r h' t' w w'] assms c by auto
  next
    case (Some err)
    then consider "mtab w' = mtab w" | "mtab w' = ?c"
      | "mtab w' = push_mount (locate t') (copy_place (node_store n) h') ?c"
      using node_mount_failed [of n r h' t' w err w'] assms(1-3) by blast
    then show ?thesis using assms(4) c by cases (auto simp: push_mount_def)
  qed
qed

lemma advance_publish_kept:
  assumes "advance_publish r phase n w = (phase', n', w')" "kept_alone s old u t h n w"
    and "kept_out u t h (Publishing r phase)"
  shows "kept_alone s old u t h n' w' \<and> kept_out u t h (Publishing r phase')"
proof (cases phase)
  case PublishStart
  obtain k where k: "holder n h = Some k" "PodUID k = u" "Target k = t"
    using assms(2) by (auto simp: kept_alone_def held_at_def)
  have "n' = n" "mtab w' = mtab w" "kept_out u t h (Publishing r phase')"
    using assms(1,3) PublishStart k
    by (auto simp: Let_def post_frame held_by_def no_target_def checked_plain dest: checkHandle_code
        split: option.splits if_splits)
  then show ?thesis using assms(2) kept_alone_less by auto
next
  case PublishChecked
  obtain e w1 where m: "node_mount n r (publish_VolumeId r) (publish_TargetPath r) w = (e, w1)" by fastforce
  have p: "publish_VolumeId r \<noteq> h" "plain_name (publish_VolumeId r)"
    using assms(3) PublishChecked by (simp_all split: if_splits)
  have "n' = n" "mtab w' = mtab w1" "kept_out u t h (Publishing r phase')"
    using assms(1,3) PublishChecked m p by (auto simp: mountFailed_def post_frame split: option.splits)
  moreover have "kept_alone s old u t h n w1"
    using assms(2) node_mount_mtab [OF m p(2)] p(1) unfolding kept_alone_def by (metis copy_place_inject)
  ultimately show ?thesis using kept_alone_less [of s old u t h n w1 w'] by simp
next
  case PublishMounted
  obtain n1 w1 where k: "keepHold n (publish_VolumeId r)
      (hold_for (podOf (publish_VolumeContext r)) (publish_TargetPath r)) w = (n1, w1)" by fastforce
  have p: "publish_VolumeId r \<noteq> h" "plain_name (publish_VolumeId r)"
    using assms(3) PublishMounted by (simp_all split: if_splits)
  note K = keepHold_facts(1,3) [OF k p(2)]
  have "n' = n1" "mtab w' = mtab w1" "kept_out u t h (Publishing r phase')"
    using assms(1,3) PublishMounted k p by auto
  then show ?thesis using assms(2) K p(1) by (simp add: kept_alone_def held_at_def holder_def update_conv')
qed (use assms in auto)

lemma advance_unpublish_kept:
  assumes "advance_unpublish r phase n w = (phase', n', w')" "kept_alone s old u t h n w"
    and "kept_out u t h (Unpublishing r phase)"
  shows "kept_alone s old u t h n' w' \<and> kept_out u t h (Unpublishing r phase')"
proof (cases phase)
  case UnpublishStart
  obtain e1 w1 where u: "unbind (mounts n) (unpublish_TargetPath r) w = (e1, w1)" by fastforce
  obtain e2 w2 where o: "os_Remove (unpublish_TargetPath r) w1 = (e2, w2)" by fastforce
  have b: "bind_kernel (mounts n)" using assms(2) by (simp add: kept_alone_def)
  have "set (mtab w1) \<subseteq> set (mtab w)"
  proof (cases e1)
    case None
    then show ?thesis
      using bind_kernel.unbind_done [OF b u [unfolded None]] detach_subset by auto
  next
    case (Some err)
    then show ?thesis using bind_kernel.unbind_refused [OF b u [unfolded Some]] by simp
  qed
  moreover have "mtab w2 = mtab w1" using only_fsD(1) [OF os_Remove_only_fs [OF o]] .
  moreover have "n' = n" "w' = w \<or> w' = w1 \<or> w' = w2" "phase' \<noteq> UnpublishReleasing"
    using assms(1) UnpublishStart u o by (auto simp: Let_def split: option.splits if_splits)
  ultimately show ?thesis
    using kept_alone_less [OF assms(2), of w'] assms(3) by auto
next
  case UnpublishUnmounted
  have "n' = n" "mtab w' = mtab w" "unpublish_VolumeId r = h \<Longrightarrow> phase' \<noteq> UnpublishReleasing"
    using assms UnpublishUnmounted
    by (auto simp: kept_alone_def held_at_def split: option.splits if_splits)
  then show ?thesis using kept_alone_less [OF assms(2), of w'] assms(3) by auto
next
  case UnpublishReleasing
  obtain n1 w1 where d: "dropHold n (unpublish_VolumeId r) w = (n1, w1)" by fastforce
  have "unpublish_VolumeId r \<noteq> h" using assms(3) UnpublishReleasing by auto
  then show ?thesis
    using assms UnpublishReleasing d dropHold_facts(1,3) [OF d]
    by (auto simp: kept_alone_def held_at_def holder_def forget_def delete_conv')
qed (use assms in auto)

lemma advance_stats_mtab:
  assumes "advance_stats r phase n w = (phase', w')" "reading_call (space n)"
  shows "mtab w' = mtab w"
proof (cases phase)
  case StatsStart
  obtain x w1 where c: "copySize (copyPath (node_store n) (stats_VolumeId r)) w = (x, w1)" by fastforce
  have "w' = w \<or> w' = w1"
    using assms(1) StatsStart c by (auto simp: Let_def split: if_splits prod.splits option.splits)
  then show ?thesis using only_fsD(1) [OF readsD(4) [OF copySize_reads [OF c]]] by auto
next
  case (StatsWalked used)
  obtain x w1 where s: "space n (root (node_store n)) w = (x, w1)" by fastforce
  have "mtab w1 = mtab w" using reading_call.mtab_kept [OF assms(2) s] .
  then show ?thesis using assms(1) StatsWalked s by (auto split: sum.splits prod.splits)
qed (use assms(1) in \<open>auto simp: record_bytes_def\<close>)

lemma advance_probe_mtab: "advance_probe random i phase w = (phase', w') \<Longrightarrow> mtab w' = mtab w"
  using create_temp_facts
  by (cases phase) (auto simp: os_CreateTemp_def split: prod.splits sum.splits
      dest!: create_temp_facts os_Remove_only_fs take_fault_reads readsD(4) only_fsD(1))

lemma sweep_one_mtab: "mtab (sweep_handles n named held [x] w) = mtab w"
  by (auto simp: removeCopy_def forget_def removes_below_def
      dest!: os_RemoveAll_facts(1) only_fsD(1) split: prod.splits option.splits)

lemma advance_sweep_mtab: "advance_sweep named phase n w = (phase', w') \<Longrightarrow> mtab w' = mtab w"
  using only_fsD(1) [OF readsD(4) [OF handles_reads]] sweep_one_mtab
  by (cases "(named, phase, n, w)" rule: advance_sweep.cases)
    (auto simp del: sweep_handles.simps split: prod.splits)

lemma advance_kept:
  assumes "advance p n w = (p', n', w')" "kept_alone s old u t h n w" "kept_out u t h p"
  shows "kept_alone s old u t h n' w' \<and> kept_out u t h p'"
proof (cases p)
  case (Publishing r phase)
  then show ?thesis using assms advance_publish_kept by (auto split: prod.splits simp del: kept_out.simps)
next
  case (Unpublishing r phase)
  then show ?thesis using assms advance_unpublish_kept by (auto split: prod.splits simp del: kept_out.simps)
next
  case (Measuring r phase)
  then show ?thesis
    using assms advance_stats_mtab [of r phase n w] kept_alone_less [OF assms(2), of w']
    by (auto simp: kept_alone_def split: prod.splits)
next
  case (Probing random i phase)
  then show ?thesis
    using assms advance_probe_mtab [of random i phase w] kept_alone_less [OF assms(2), of w']
    by (auto split: prod.splits)
next
  case (Sweeping named phase)
  then show ?thesis
    using assms advance_sweep_mtab [of named phase n w] kept_alone_less [OF assms(2), of w']
    by (auto split: prod.splits)
qed



end
