(* ===== verification/Races.thy ===== *)
theory Races
  imports Schedules
begin

section \<open>What a schedule can break\<close>

text \<open>
  The window between the check of the holds and the taking of the hold, and the one between a
  pass's reading of the holds and its removals, as schedules that go through them. At the end
  two runs, evaluated: a pod with two targets, whose hold goes with the second of them, and a
  measurement that a pass overtakes, which leaves a removed copy on the gauge.
\<close>

subsection \<open>Two publishes\<close>

lemma checked_may_mount:
  "may_mount n r \<Longrightarrow> advance_publish r PublishStart n w = (PublishChecked, n, w)"
  by (auto simp: may_mount_def Let_def split: option.splits)

lemma two_mounts:
  assumes "may_mount n r" "may_mount n r'" "publish_VolumeId r' = publish_VolumeId r"
    and "locate (publish_TargetPath r') \<noteq> locate (publish_TargetPath r)"
    and "\<not> mounted_at w (locate (publish_TargetPath r))" "\<not> mounted_at w (locate (publish_TargetPath r'))"
    and "answering_kernel (mounts n)" "healthy w" "wf_tree w"
    and "clear_way w (copy_place (node_store n) (publish_VolumeId r))"
    and "clear_way w (locate (publish_TargetPath r))" "clear_way w (locate (publish_TargetPath r'))"
  shows "\<exists>w1 w2.
    node_mount n r (publish_VolumeId r) (publish_TargetPath r) w = (None, w1) \<and>
    node_mount n r' (publish_VolumeId r') (publish_TargetPath r') w1 = (None, w2) \<and>
    mtab w2 =
      [\<lparr>mnt_point = locate (publish_TargetPath r'), mnt_source = copy_place (node_store n) (publish_VolumeId r),
         mnt_ro = publish_Readonly r'\<rparr>,
       \<lparr>mnt_point = locate (publish_TargetPath r), mnt_source = copy_place (node_store n) (publish_VolumeId r),
         mnt_ro = publish_Readonly r\<rparr>] @ mtab w"
proof -
  let ?h = "publish_VolumeId r" and ?t = "publish_TargetPath r" and ?t' = "publish_TargetPath r'"
  have p: "plain_name ?h" "?t \<noteq> ''''" "?t' \<noteq> ''''"
    using assms(1,2) by (auto simp: may_mount_def checked_plain)
  have b: "bind_kernel (mounts n)" using assms(7) by (simp add: answering_kernel_def)
  obtain w1 where m1: "node_mount n r ?h ?t w = (None, w1)" and h1: "healthy w1"
    using node_mount_healthy [OF assms(7-9) p(1,2) assms(10,11)] by blast
  note M1 = node_mount_facts [OF m1 p(1) b] and D1 = node_mount_done(1) [OF m1 p(1) b]
  note way = clear_way_only_makes_dirs [OF M1(4)]
  obtain w2 where m2: "node_mount n r' ?h ?t' w1 = (None, w2)"
    using node_mount_healthy [OF assms(7) h1 M1(2) [OF assms(9)] p(1,3) way [OF assms(10)] way [OF assms(12)]]
    by blast
  have "\<not> mounted_at w1 (locate ?t')"
    using assms(4,5,6) by (simp add: mounted_at_def D1)
  then show ?thesis
    using m1 m2 D1 node_mount_done(1) [OF m2 p(1) b] assms(3,5) by auto
qed

text \<open>
  C28. Two pods that publish a free handle at the same time can both be answered with success:
  when both read the holds before either takes the hold, the copy is mounted at both targets, and
  only the later pod holds it.
\<close>

theorem racing_publishes_both_succeed:
  assumes "may_mount n r" "may_mount n r'" "publish_VolumeId r' = publish_VolumeId r"
    and "locate (publish_TargetPath r') \<noteq> locate (publish_TargetPath r)"
    and "\<not> mounted_at w (locate (publish_TargetPath r))" "\<not> mounted_at w (locate (publish_TargetPath r'))"
    and "answering_kernel (mounts n)" "healthy w" "wf_tree w"
    and "clear_way w (copy_place (node_store n) (publish_VolumeId r))"
    and "clear_way w (locate (publish_TargetPath r))" "clear_way w (locate (publish_TargetPath r'))"
  shows "\<exists>n' w'.
    schedule [0, 1, 0, 1, 0, 1] ([Publishing r PublishStart, Publishing r' PublishStart], n, w) =
      ([Publishing r (PublishDone (Inr ())), Publishing r' (PublishDone (Inr ()))], n', w') \<and>
    (\<exists>m m'. mtab w' = m' # m # mtab w \<and> mnt_point m = locate (publish_TargetPath r) \<and>
       mnt_point m' = locate (publish_TargetPath r') \<and>
       mnt_source m = copy_place (node_store n) (publish_VolumeId r) \<and> mnt_source m' = mnt_source m) \<and>
    holder n' (publish_VolumeId r) =
      Some (hold_for (podOf (publish_VolumeContext r')) (publish_TargetPath r'))"
proof -
  let ?h = "publish_VolumeId r"
  have p: "plain_name ?h" using assms(1) by (rule may_mount_plain)
  obtain w1 w2 where m: "node_mount n r ?h (publish_TargetPath r) w = (None, w1)"
      "node_mount n r' ?h (publish_TargetPath r') w1 = (None, w2)"
    and t: "mtab w2 =
      [\<lparr>mnt_point = locate (publish_TargetPath r'), mnt_source = copy_place (node_store n) ?h,
         mnt_ro = publish_Readonly r'\<rparr>,
       \<lparr>mnt_point = locate (publish_TargetPath r), mnt_source = copy_place (node_store n) ?h,
         mnt_ro = publish_Readonly r\<rparr>] @ mtab w"
    using two_mounts [OF assms] assms(3) by auto
  let ?k = "\<lambda>r. hold_for (podOf (publish_VolumeContext r)) (publish_TargetPath r)"
  obtain n1 w3 where k1: "keepHold n ?h (?k r) w2 = (n1, w3)" by fastforce
  let ?w3 = "emit (Logged LogInfo ''published''
      [(''volume'', Str ?h), (''target'', Str (publish_TargetPath r))]) w3"
  obtain n2 w4 where k2: "keepHold n1 ?h (?k r') ?w3 = (n2, w4)" by fastforce
  note K1 = keepHold_facts(1,3) [OF k1 p] and K2 = keepHold_facts(1,3) [OF k2 p]
  let ?w4 = "emit (Logged LogInfo ''published''
      [(''volume'', Str ?h), (''target'', Str (publish_TargetPath r'))]) w4"
  have "schedule [0, 1, 0, 1, 0, 1] ([Publishing r PublishStart, Publishing r' PublishStart], n, w) =
      ([Publishing r (PublishDone (Inr ())), Publishing r' (PublishDone (Inr ()))], n2, ?w4)"
    using checked_may_mount [OF assms(1)] checked_may_mount [OF assms(2)] m k1 k2 assms(3) by simp
  moreover have "mtab ?w4 = mtab w2" using K1(2) K2(2) by simp
  moreover have "holder n2 ?h = Some (?k r')" using K2(1) by (simp add: holder_def update_conv')
  ultimately show ?thesis using t by (intro exI [of _ n2] exI [of _ ?w4]) simp
qed

lemma racing_publishes_both_succeed_witness:
  "\<exists>n' w'. schedule [0, 1, 0, 1, 0, 1]
     ([Publishing (sample_publish ''u1'' ''/t1'') PublishStart,
       Publishing (sample_publish ''u2'' ''/t2'') PublishStart], sample_node, sample_world) =
     ([Publishing (sample_publish ''u1'' ''/t1'') (PublishDone (Inr ())),
       Publishing (sample_publish ''u2'' ''/t2'') (PublishDone (Inr ()))], n', w') \<and> length (mtab w') = 2"
proof -
  have p: "locate ''/t2'' \<noteq> locate ''/t1''" "\<not> mounted_at sample_world (locate ''/t1'')"
    "\<not> mounted_at sample_world (locate ''/t2'')" "mtab sample_world = []"
    "clear_way sample_world (copy_place (node_store sample_node) ''data'')"
    "clear_way sample_world (locate ''/t1'')" "clear_way sample_world (locate ''/t2'')"
    by code_simp+
  have c: "copy_place (node_store sample_node) ''data'' = copy_place \<lparr>root = ''/store''\<rparr> ''data''" by simp
  have m: "may_mount sample_node (sample_publish ''u1'' ''/t1'')" "may_mount sample_node (sample_publish ''u2'' ''/t2'')"
    by simp_all
  from racing_publishes_both_succeed [OF m, of sample_world] p c la.answering_kernel_axioms
  show ?thesis by fastforce
qed

subsection \<open>A publish and a pass\<close>

text \<open>
  C29. A pass that read the holds before a publish took its hold removes the copy that the publish
  has just mounted: the publish is answered with success, the pod holds the handle and its target
  is mounted, and the copy under the mount is gone. The handle is one that no PersistentVolume
  of the pass names.
\<close>

theorem racing_sweep_removes_a_mounted_copy:
  assumes "may_mount n r" "holder n (publish_VolumeId r) = None" "publish_VolumeId r \<notin> set named"
    and "answering_kernel (mounts n)" "healthy w" "wf_tree w"
    and "store_ready n (publish_VolumeId r) w" "clear_way w (locate (publish_TargetPath r))"
    and "\<not> prefix (hold_place (node_store n) (publish_VolumeId r)) (locate (publish_TargetPath r))"
    and "plain_copies (node_store n) w" "no_mount_below w (copies_place (node_store n))"
    and "\<not> prefix (copies_place (node_store n)) (locate (publish_TargetPath r))"
  shows "\<exists>order n' w'.
    schedule order ([Publishing r PublishStart, Sweeping named SweepStart], n, w) =
      ([Publishing r (PublishDone (Inr ())), Sweeping named SweepDone], n', w') \<and>
    holder n' (publish_VolumeId r) = Some (hold_for (podOf (publish_VolumeContext r)) (publish_TargetPath r)) \<and>
    (\<exists>m \<in> set (mtab w'). mnt_point m = locate (publish_TargetPath r) \<and>
      mnt_source m = copy_place (node_store n) (publish_VolumeId r)) \<and>
    fs w' (copy_place (node_store n) (publish_VolumeId r)) = None"
proof -
  let ?h = "publish_VolumeId r" and ?t = "publish_TargetPath r" and ?s = "node_store n"
  let ?k = "hold_for (podOf (publish_VolumeContext r)) ?t"
  let ?ps = "[Publishing r PublishStart, Sweeping named (SweepHeld (heldHandles n))]"
  obtain w1 n2 w2 where m: "node_mount n r ?h ?t w = (None, w1)"
    and k: "keepHold n ?h ?k w1 = (n2, w2)" and h2: "healthy w2" "wf_tree w2"
    using publish_stages_healthy [OF assms(1,4-9)] by blast
  define w3 where "w3 = emit (Logged LogInfo ''published'' [(''volume'', Str ?h), (''target'', Str ?t)]) w2"
  have pub: "NodePublishVolume n r w = (Inr (), n2, w3)"
    using publish_mounted [OF assms(1) m k] by (simp add: w3_def)
  have p: "plain_name ?h" using assms(1) by (rule may_mount_plain)
  have b: "bind_kernel (mounts n)" using assms(4) by (simp add: answering_kernel_def)
  note D = node_mount_done [OF m p b] and K = keepHold_facts [OF k p]
  have pl: "plain_copies ?s w3"
    using keepHold_quiet(2) [OF k p refl node_mount_quiet(2) [OF m p b refl assms(10,12)]]
    by (simp add: plain_copies_iff w3_def)
  have mt: "mtab w3 = mtab w1" using K(3) by (simp add: w3_def)
  have free: "no_mount_below w3 (copies_place ?s)"
    using assms(11,12) detach_subset [of "locate ?t" "mtab w"]
    by (auto simp: no_mount_below_def list_all_iff mt D(1))
  have copy: "fs w3 (copy_place ?s ?h) \<noteq> None"
    using K(6) [of "copy_place ?s ?h"] D(3) hold_place_not_copy [of ?s ?h ?h] by (metis fs_emit option.distinct(1) w3_def)
  then have dir: "dir_at w3 (copies_place ?s)"
    using wf_tree_parent [of w3 "copies_place ?s" ?h] h2(2) by (simp add: copy_place_def w3_def)
  obtain hs w4 where l: "handles (node_store n2) w3 = (hs, w4)" by fastforce
  have n2: "node_store n2 = ?s" "holder n2 ?h = Some ?k" using K(1) by (simp_all add: holder_def update_conv')
  note R = readsD [OF handles_reads [OF l]]
  have w3: "healthy w3" "wf_tree w3" using h2 by (simp_all add: w3_def)
  have w4: "healthy w4" "wf_tree w4" "no_mount_below w4 (copies_place (node_store n2))"
    using w3 free n2(1) only_fsD(1,7) [OF R(4)] R(6) by (simp_all add: no_mount_below_def)
  have hs: "\<forall>x \<in> set hs. plain_name x" "?h \<in> set hs"
    using handles_plain [OF l] handles_healthy [OF w3(1) _ l] pl dir copy n2(1) by auto
  let ?w = "sweep_handles n2 named (heldHandles n) hs w4"
  have "?h \<notin> set (heldHandles n)" using assms(2) by (simp add: holder_heldHandles)
  then have "fs ?w (copy_place ?s ?h) = None"
    using sweep_handles_healthy [OF hs(1) w4 hs(2) assms(3)] n2(1) by simp
  moreover have "mtab ?w = mtab w1" using sweep_handles_facts(2) [OF hs(1)] only_fsD(1) [OF R(4)] mt by simp
  moreover have "schedule ([1] @ [0, 0, 0] @ replicate (Suc (Suc (length hs))) 1)
      ([Publishing r PublishStart, Sweeping named SweepStart], n, w) =
      ([Publishing r (PublishDone (Inr ())), Sweeping named SweepDone], n2, ?w)"
  proof -
    let ?qs = "[Publishing r (PublishDone (Inr ())), Sweeping named (SweepHeld (heldHandles n))]"
    have "schedule [1] ([Publishing r PublishStart, Sweeping named SweepStart], n, w) = (?ps, n, w)" by simp
    moreover have "schedule [0, 0, 0] (?ps, n, w) = (?qs, n2, w3)"
      using publish_alone [OF pub, of 0 ?ps] by (simp del: schedule.simps)
    moreover have "schedule (replicate (Suc (Suc (length hs))) 1) (?qs, n2, w3) =
        ([Publishing r (PublishDone (Inr ())), Sweeping named SweepDone], n2, ?w)"
      using sweep_from_held [of 1 ?qs named "heldHandles n" n2 w3 hs w4] l
      by (simp del: schedule.simps replicate_Suc)
    ultimately show ?thesis unfolding schedule_append by (simp only:)
  qed
  ultimately show ?thesis using D(1) n2(2) by (metis (no_types, lifting) list.set_intros(1) mount_entry.select_convs(1,2))
qed

lemma racing_sweep_removes_a_mounted_copy_witness:
  "\<exists>order n' w'. schedule order
     ([Publishing (sample_publish ''u1'' ''/t1'') PublishStart, Sweeping [] SweepStart], sample_node, sample_world) =
     ([Publishing (sample_publish ''u1'' ''/t1'') (PublishDone (Inr ())), Sweeping [] SweepDone], n', w') \<and>
   holder n' ''data'' \<noteq> None \<and> fs w' (copy_place (node_store sample_node) ''data'') = None"
proof -
  have p: "holder sample_node ''data'' = None" "plain_copies (node_store sample_node) sample_world"
    "no_mount_below sample_world (copies_place (node_store sample_node))"
    "\<not> prefix (copies_place (node_store sample_node)) (locate ''/t1'')"
    by code_simp+
  have m: "may_mount sample_node (sample_publish ''u1'' ''/t1'')" by simp
  from racing_sweep_removes_a_mounted_copy [OF m, of "[]" sample_world] p sample_ready la.answering_kernel_axioms
  show ?thesis by auto
qed

subsection \<open>Two runs\<close>

text \<open>
  A pod publishes its handle at a second target and unpublishes that one. The hold names the second
  target by then, so it goes, while the copy is still mounted at the first; the next pod is let in,
  and the copy is mounted for both.
\<close>

lemma second_target_run:
  "let r = sample_publish ''u1'' ''/t1''; s = sample_publish ''u1'' ''/t2''; t = sample_publish ''u2'' ''/t3'';
       u = \<lparr>unpublish_VolumeId = ''data'', unpublish_TargetPath = ''/t2''\<rparr>;
       (a, n, w) = NodePublishVolume sample_node r sample_world;
       (b, n, w) = NodePublishVolume n s w;
       (c, n, w) = NodeUnpublishVolume n u w;
       (d, n, w) = NodePublishVolume n t w
   in a = Inr () \<and> b = Inr () \<and> c = Inr () \<and> d = Inr () \<and>
      map mnt_point (mtab w) = [[''t3''], [''t1'']] \<and>
      (\<forall>m \<in> set (mtab w). mnt_source m = copy_place (node_store sample_node) ''data'') \<and>
      map_option PodUID (holder n ''data'') = Some ''u2''"
  by code_simp

fun ended :: "process \<Rightarrow> bool" where
  "ended (Publishing r phase) = (case phase of PublishDone a \<Rightarrow> True | _ \<Rightarrow> False)"
| "ended (Unpublishing r phase) = (case phase of UnpublishDone a \<Rightarrow> True | _ \<Rightarrow> False)"
| "ended (Measuring r phase) = (case phase of StatsDone a \<Rightarrow> True | _ \<Rightarrow> False)"
| "ended (Probing random i phase) = (case phase of ProbeDone a \<Rightarrow> True | _ \<Rightarrow> False)"
| "ended (Sweeping named phase) = (phase = SweepDone)"

text \<open>
  The stats walk a copy, a whole pass removes it and takes it off the gauge, and then the stats put
  what they measured on the gauge: a copy that is gone is reported from then on.
\<close>

lemma swept_copy_stays_on_the_gauge:
  "let (ps, n, w) = schedule [0, 0, 1, 1, 1, 1, 1, 0]
         ([Measuring \<lparr>stats_VolumeId = ''old'', stats_VolumePath = ''/t1''\<rparr> StatsStart, Sweeping [] SweepStart],
          sample_held, orphan_world)
   in ended (ps ! 0) \<and> ended (ps ! 1) \<and> fs w (copy_place (node_store n) ''old'') = None \<and>
      copy_gauge ''old'' (effects w) None \<noteq> None"
  by code_simp

end
