(* ===== verification/Locks.thy ===== *)
theory Locks
  imports Interleave "HOL-Library.Multiset"
begin

section \<open>The mutex of the node\<close>

text \<open>
  Here the calls are cut finer than in \<open>Interleave\<close>: every \<open>n.mu.Lock()\<close> and \<open>n.mu.Unlock()\<close>
  of the node is a step, and so is what the code does between two of them. A goroutine is the code
  it still has to run: it returns, locks, unlocks, or does something to the node and the world and
  goes on with what that says. A goroutine that wants the mutex while another has it cannot step,
  and neither can one that wants it again while it has it itself: \<open>sync.Mutex\<close> is not reentrant.
  The lemmas show that the calls never block each other for good, and that a call run alone is the
  handler.
\<close>

type_synonym answer = "status + unit"

datatype code =
    Return answer
  | Lock code
  | Unlock code
  | Do "node \<Rightarrow> world \<Rightarrow> code \<times> node \<times> world"

subsection \<open>holds.go: the operations on the holds\<close>

definition holder_code :: "string \<Rightarrow> (hold option \<Rightarrow> code) \<Rightarrow> code" where
  "holder_code handle k = Lock (Do (\<lambda>n w. (Unlock (k (holder n handle)), n, w)))"

definition heldHandles_code :: "(string list \<Rightarrow> code) \<Rightarrow> code" where
  "heldHandles_code k = Lock (Do (\<lambda>n w. (Unlock (k (heldHandles n)), n, w)))"

text \<open>The count is read under the mutex, and the gauge is set after it.\<close>

definition reportVolumes_code :: "code \<Rightarrow> code" where
  "reportVolumes_code k =
     Lock (Do (\<lambda>n w.
       (let count = length (holds n) in (Unlock (Do (\<lambda>n w. (k, n, setVolumes count w))), n, w))))"

definition keepHold_code :: "string \<Rightarrow> hold \<Rightarrow> code \<Rightarrow> code" where
  "keepHold_code handle taken k =
     Lock (Do (\<lambda>n w.
       (Unlock (reportVolumes_code (Do (\<lambda>n w.
          (k, n,
           case mkdir_and_write (holdPath (node_store n) handle) (json_Marshal taken) w of
             (Some err, w) \<Rightarrow>
               emit (Logged LogWarn ''the hold was not written'' [(''volume'', Str handle), (''error'', Err err)]) w
           | (None, w) \<Rightarrow> w)))),
        n\<lparr>holds := AList.update handle taken (holds n)\<rparr>, w)))"

definition dropHold_code :: "string \<Rightarrow> code \<Rightarrow> code" where
  "dropHold_code handle k =
     Lock (Do (\<lambda>n w.
       (Unlock (reportVolumes_code (Do (\<lambda>n w.
          (k, n,
           case os_Remove (holdPath (node_store n) handle) w of
             (Some err, w) \<Rightarrow>
               if os_IsNotExist err then w
               else emit (Logged LogWarn ''the hold was not removed'' [(''volume'', Str handle), (''error'', Err err)]) w
           | (None, w) \<Rightarrow> w)))),
        n\<lparr>holds := AList.delete handle (holds n)\<rparr>, w)))"

fun resume_entries_code :: "string list \<Rightarrow> code \<Rightarrow> code" where
  "resume_entries_code [] k = reportVolumes_code k"
| "resume_entries_code (handle # entries) k =
     Do (\<lambda>n w.
       case readHold (holdPath (node_store n) handle) w of
         (Inl err, w) \<Rightarrow>
           (dropHold_code handle (resume_entries_code entries k), n,
            emit (Logged LogWarn ''the hold was not read'' [(''volume'', Str handle), (''error'', Err err)]) w)
       | (Inr taken, w) \<Rightarrow>
           (case mounted n (Target taken) w of
              (False, w) \<Rightarrow>
                (dropHold_code handle (resume_entries_code entries k), n,
                 emit (Logged LogInfo ''the hold was given up while the plugin was down''
                   [(''volume'', Str handle), (''target'', Str (Target taken))]) w)
            | (True, w) \<Rightarrow>
                (Lock (Do (\<lambda>n w.
                   (Unlock (resume_entries_code entries k),
                    n\<lparr>holds := AList.update handle taken (holds n)\<rparr>, w))), n, w)))"

definition resume_code :: "code \<Rightarrow> code" where
  "resume_code k =
     Do (\<lambda>n w.
       case os_ReadDir (filepath_Join [root (node_store n), holdsDirectory]) w of
         (Inl err, w) \<Rightarrow> (k, n, w)
       | (Inr entries, w) \<Rightarrow> (resume_entries_code entries k, n, w))"

subsection \<open>node.go and sweep.go: the calls\<close>

definition publish_code :: "NodePublishVolumeRequest \<Rightarrow> code" where
  "publish_code request =
     (let handle = publish_VolumeId request;
          target = publish_TargetPath request;
          pod = podOf (publish_VolumeContext request);
          refuse = (\<lambda>rsn err n w. (Return (Inl err), n, post (node_events n) pod EventTypeWarning rsn (message err) w));
          mount_and_hold = Do (\<lambda>n w.
            case node_mount n request handle target w of
              (Some err, w) \<Rightarrow> refuse reasonMountFailed err n (mountFailed w)
            | (None, w) \<Rightarrow>
                (keepHold_code handle (hold_for pod target) (Do (\<lambda>n w.
                   (Return (Inr ()), n,
                    emit (Logged LogInfo ''published'' [(''volume'', Str handle), (''target'', Str target)]) w))),
                 n, w))
      in Do (\<lambda>n w.
        case checkHandle handle of
          Some err \<Rightarrow> refuse reasonRefused err n w
        | None \<Rightarrow>
            if target = '''' then (Return (Inl no_target), n, w)
            else
              (holder_code handle (\<lambda>found.
                 case found of
                   None \<Rightarrow> mount_and_hold
                 | Some k \<Rightarrow>
                     if PodUID k \<noteq> uid pod then
                       Do (\<lambda>n w. refuse reasonHeld (held_by n handle k) n w)
                     else if Target k = target then Return (Inr ())
                     else mount_and_hold), n, w)))"

definition unpublish_code :: "NodeUnpublishVolumeRequest \<Rightarrow> code" where
  "unpublish_code request =
     (let handle = unpublish_VolumeId request;
          target = unpublish_TargetPath request;
          release = dropHold_code handle (Do (\<lambda>n w.
            (Return (Inr ()), n,
             emit (Logged LogInfo ''unpublished'' [(''volume'', Str handle)]) (forget handle w))))
      in Do (\<lambda>n w.
        if handle = '''' then (Return (Inl no_volume), n, w)
        else if target = '''' then (Return (Inl no_target), n, w)
        else case unbind (mounts n) target w of
          (Some err, w) \<Rightarrow> (Return (Inl (internal err)), n, w)
        | (None, w) \<Rightarrow>
            (case os_Remove target w of
               (removed, w) \<Rightarrow>
                 if (case removed of Some err \<Rightarrow> \<not> os_IsNotExist err | None \<Rightarrow> False)
                 then (Return (Inl (internal (the removed))), n, w)
                 else
                   (holder_code handle (\<lambda>found.
                      case found of
                        None \<Rightarrow> release
                      | Some k \<Rightarrow>
                          if Target k \<noteq> target then
                            Do (\<lambda>n w. (Return (Inr ()), n,
                              emit (Logged LogInfo ''unpublished a target the hold does not name''
                                [(''volume'', Str handle), (''target'', Str target),
                                 (''held'', Str (Target k))]) w))
                          else release), n, w))))"

fun sweep_handles_code :: "string list \<Rightarrow> string list \<Rightarrow> string list \<Rightarrow> code" where
  "sweep_handles_code named held [] = Return (Inr ())"
| "sweep_handles_code named held (handle # hs) =
     Do (\<lambda>n w. (sweep_handles_code named held hs, n, sweep_handles n named held [handle] w))"

definition sweep_code :: "string list \<Rightarrow> code" where
  "sweep_code named =
     heldHandles_code (\<lambda>held. Do (\<lambda>n w.
       case handles (node_store n) w of (hs, w) \<Rightarrow> (sweep_handles_code named held hs, n, w)))"

text \<open>The goroutines that use the mutex.\<close>

datatype node_call =
    PublishCall NodePublishVolumeRequest
  | UnpublishCall NodeUnpublishVolumeRequest
  | SweepPass "string list"
  | Resume

fun code_of :: "node_call \<Rightarrow> code" where
  "code_of (PublishCall request) = publish_code request"
| "code_of (UnpublishCall request) = unpublish_code request"
| "code_of (SweepPass named) = sweep_code named"
| "code_of Resume = resume_code (Return (Inr ()))"

subsection \<open>The machine\<close>

type_synonym goroutines = "code list \<times> nat option \<times> node \<times> world"

definition mutex_step :: "nat \<Rightarrow> goroutines \<Rightarrow> goroutines option" where
  "mutex_step i s =
     (case s of (ps, owner, n, w) \<Rightarrow>
        if i < length ps then
          (case ps ! i of
             Return a \<Rightarrow> None
           | Lock c \<Rightarrow> if owner = None then Some (ps[i := c], Some i, n, w) else None
           | Unlock c \<Rightarrow> if owner = Some i then Some (ps[i := c], None, n, w) else None
           | Do f \<Rightarrow> (case f n w of (c, n, w) \<Rightarrow> Some (ps[i := c], owner, n, w)))
        else None)"

fun mutex_run :: "nat list \<Rightarrow> goroutines \<Rightarrow> goroutines option" where
  "mutex_run [] s = Some s"
| "mutex_run (i # later) s = (case mutex_step i s of None \<Rightarrow> None | Some s \<Rightarrow> mutex_run later s)"

lemma mutex_run_append:
  "mutex_run (xs @ ys) s = (case mutex_run xs s of None \<Rightarrow> None | Some s \<Rightarrow> mutex_run ys s)"
  by (induction xs arbitrary: s) (auto split: option.split)

subsection \<open>Every lock is followed by its unlock\<close>

text \<open>Code that starts with the mutex taken, or not, and never takes it twice or leaves with it.\<close>

inductive balanced :: "bool \<Rightarrow> code \<Rightarrow> bool" where
  returns: "balanced False (Return a)"
| locks: "balanced True c \<Longrightarrow> balanced False (Lock c)"
| unlocks: "balanced False c \<Longrightarrow> balanced True (Unlock c)"
| does: "(\<And>n w. balanced b (fst (f n w))) \<Longrightarrow> balanced b (Do f)"

inductive_simps balanced_simps [simp]:
  "balanced b (Return a)" "balanced b (Lock c)" "balanced b (Unlock c)" "balanced b (Do f)"

lemma holder_balanced [simp]: "balanced False (holder_code h k) \<longleftrightarrow> (\<forall>n. balanced False (k (holder n h)))"
  by (simp add: holder_code_def)

lemma heldHandles_balanced [simp]:
  "balanced False (heldHandles_code k) \<longleftrightarrow> (\<forall>n. balanced False (k (heldHandles n)))"
  by (simp add: heldHandles_code_def)

lemma reportVolumes_balanced [simp]: "balanced False (reportVolumes_code k) \<longleftrightarrow> balanced False k"
  by (simp add: reportVolumes_code_def)

lemma keepHold_balanced [simp]: "balanced False (keepHold_code h t k) \<longleftrightarrow> balanced False k"
  by (simp add: keepHold_code_def)

lemma dropHold_balanced [simp]: "balanced False (dropHold_code h k) \<longleftrightarrow> balanced False k"
  by (simp add: dropHold_code_def)

lemma resume_entries_balanced: "balanced False k \<Longrightarrow> balanced False (resume_entries_code hs k)"
  by (induction hs) (auto split: prod.split sum.split bool.split)

lemma resume_balanced: "balanced False k \<Longrightarrow> balanced False (resume_code k)"
  using resume_entries_balanced by (auto simp: resume_code_def split: prod.split sum.split)

lemma publish_balanced: "balanced False (publish_code r)"
  by (auto simp: publish_code_def Let_def split: option.split prod.split)

lemma unpublish_balanced: "balanced False (unpublish_code r)"
  by (auto simp: unpublish_code_def Let_def split: option.split prod.split)

lemma sweep_handles_balanced: "balanced False (sweep_handles_code named held hs)"
  by (induction hs) simp_all

lemma sweep_balanced: "balanced False (sweep_code named)"
  by (auto simp: sweep_code_def sweep_handles_balanced split: prod.split)

lemma code_of_balanced: "balanced False (code_of c)"
  by (cases c) (simp_all add: publish_balanced unpublish_balanced sweep_balanced resume_balanced)

subsection \<open>Somebody can always go on\<close>

definition lock_inv :: "goroutines \<Rightarrow> bool" where
  "lock_inv s \<longleftrightarrow>
     (case s of (ps, owner, n, w) \<Rightarrow>
        (\<forall>i < length ps. balanced (owner = Some i) (ps ! i)) \<and> (\<forall>i. owner = Some i \<longrightarrow> i < length ps))"

lemma lock_inv_start: "list_all (balanced False) ps \<Longrightarrow> lock_inv (ps, None, n, w)"
  by (simp add: lock_inv_def list_all_length)

lemma lock_inv_update:
  assumes "lock_inv (ps, owner, n, w)" "i < length ps" "balanced (owner' = Some i) c"
    and "\<And>j. j \<noteq> i \<Longrightarrow> (owner' = Some j) = (owner = Some j)"
  shows "lock_inv (ps[i := c], owner', n', w')"
proof -
  have "\<forall>j. owner' = Some j \<longrightarrow> j < length ps"
    using assms(1,2,4) unfolding lock_inv_def prod.case by metis
  then show ?thesis using assms by (auto simp: lock_inv_def nth_list_update)
qed

lemma mutex_step_inv:
  assumes "lock_inv s" "mutex_step i s = Some s'"
  shows "lock_inv s'"
proof -
  obtain ps owner n w where s: "s = (ps, owner, n, w)" by (metis prod.collapse)
  have i: "i < length ps" and b: "balanced (owner = Some i) (ps ! i)"
    using assms by (auto simp: s mutex_step_def lock_inv_def split: if_splits)
  note up = lock_inv_update [OF assms(1) [unfolded s] i]
  show ?thesis
  proof (cases "ps ! i")
    case (Lock c)
    then have "owner = None" "s' = (ps[i := c], Some i, n, w)" "balanced True c"
      using assms(2) i b by (auto simp: s mutex_step_def split: if_splits)
    then show ?thesis using up [of "Some i" c] by simp
  next
    case (Unlock c)
    then have "owner = Some i" "s' = (ps[i := c], None, n, w)" "balanced False c"
      using assms(2) i b by (auto simp: s mutex_step_def split: if_splits)
    then show ?thesis using up [of None c] by simp
  next
    case (Do f)
    obtain c n1 w1 where f: "f n w = (c, n1, w1)" by (metis prod.collapse)
    have "s' = (ps[i := c], owner, n1, w1)" using assms(2) i Do f by (simp add: s mutex_step_def)
    moreover have "balanced (owner = Some i) c" using b Do f by (metis balanced_simps(4) fst_conv)
    ultimately show ?thesis using up [of owner c n1 w1] by simp
  qed (use assms(2) i in \<open>simp add: s mutex_step_def\<close>)
qed

lemma mutex_run_inv: "mutex_run order s = Some s' \<Longrightarrow> lock_inv s \<Longrightarrow> lock_inv s'"
  by (induction order arbitrary: s) (auto split: option.splits dest: mutex_step_inv)

fun returned :: "code \<Rightarrow> bool" where
  "returned (Return a) = True"
| "returned c = False"

lemma mutex_progress:
  assumes "lock_inv (ps, owner, n, w)" "owner \<noteq> None \<or> \<not> list_all returned ps"
  shows "\<exists>i s'. mutex_step i (ps, owner, n, w) = Some s'"
proof -
  obtain i where i: "i < length ps" "owner = Some i \<or> owner = None \<and> \<not> returned (ps ! i)"
    using assms by (cases owner) (auto simp: lock_inv_def list_all_length)
  then have b: "balanced (owner = Some i) (ps ! i)" using assms(1) by (simp add: lock_inv_def)
  have "mutex_step i (ps, owner, n, w) \<noteq> None"
    using i b by (cases "ps ! i") (auto simp: mutex_step_def split: prod.split)
  then show ?thesis by blast
qed

subsection \<open>And only so often\<close>

definition next_code :: "(code \<times> code) set" where
  "next_code = {(c', c). c = Lock c' \<or> c = Unlock c' \<or> (\<exists>f n w. c = Do f \<and> c' = fst (f n w))}"

lemma wf_next_code: "wf next_code"
proof (rule acc_wfI, rule allI)
  fix c show "c \<in> Wellfounded.acc next_code"
  proof (induction c)
    case (Do f)
    have below: "fst (f n w) \<in> Wellfounded.acc next_code" for n w
    proof (rule Do)
      show "f n \<in> range f" "f n w \<in> range (f n)" by simp_all
      show "fst (f n w) \<in> Basic_BNFs.fsts (f n w)" by (cases "f n w") simp
    qed
    show ?case
    proof (rule accI)
      fix c' assume "(c', Do f) \<in> next_code"
      then obtain n w where "c' = fst (f n w)" unfolding next_code_def by blast
      then show "c' \<in> Wellfounded.acc next_code" using below by simp
    qed
  qed (rule accI, auto simp: next_code_def)+
qed

lemma mutex_step_smaller:
  assumes "mutex_step i s = Some s'"
  shows "(mset (fst s'), mset (fst s)) \<in> mult1 next_code"
proof -
  obtain ps owner n w where s: "s = (ps, owner, n, w)" by (metis prod.collapse)
  have i: "i < length ps" using assms by (auto simp: s mutex_step_def split: if_splits)
  obtain c where c: "fst s' = ps[i := c]" "(c, ps ! i) \<in> next_code"
  proof (cases "ps ! i")
    case (Do f)
    obtain c n1 w1 where f: "f n w = (c, n1, w1)" by (metis prod.collapse)
    then have "c = fst (f n w)" by simp
    then have "(c, ps ! i) \<in> next_code" unfolding next_code_def Do by blast
    then show thesis using that [of c] assms i Do f by (auto simp: s mutex_step_def)
  qed (use that assms i in \<open>auto simp: s mutex_step_def next_code_def split: if_splits\<close>)
  have "mset ps = add_mset (ps ! i) (mset ps - {#ps ! i#})" using i by simp
  moreover have "mset (fst s') = (mset ps - {#ps ! i#}) + {#c#}" using c(1) i by (simp add: mset_update)
  ultimately show ?thesis
    unfolding s fst_conv by (rule mult1I) (use c(2) in simp)
qed

lemma wf_mutex_step: "wf {(s', s). \<exists>i. mutex_step i s = Some s'}"
proof (rule wf_subset)
  show "wf (inv_image (mult1 next_code) (\<lambda>s. mset (fst s)))"
    by (rule wf_inv_image [OF wf_mult1 [OF wf_next_code]])
  show "{(s', s). \<exists>i. mutex_step i s = Some s'} \<subseteq> inv_image (mult1 next_code) (\<lambda>s. mset (fst s))"
    using mutex_step_smaller by auto
qed

lemma mutex_step_length: "mutex_step i s = Some s' \<Longrightarrow> length (fst s') = length (fst s)"
  by (auto simp: mutex_step_def split: prod.splits if_splits code.splits)

lemma mutex_run_length: "mutex_run order s = Some s' \<Longrightarrow> length (fst s') = length (fst s)"
  by (induction order arbitrary: s) (auto split: option.splits dest: mutex_step_length)

lemma mutex_ends:
  "lock_inv s \<Longrightarrow> \<exists>later as n' w'. mutex_run later s = Some (map Return as, None, n', w')"
proof (induction s rule: wf_induct_rule [OF wf_mutex_step])
  case (1 s)
  obtain ps owner n w where s: "s = (ps, owner, n, w)" by (metis prod.collapse)
  show ?case
  proof (cases "owner = None \<and> list_all returned ps")
    case True
    have "\<exists>as. ps = map Return as" if "list_all returned ps" for ps
      using that
    proof (induction ps)
      case (Cons p ps)
      then obtain a as where "p = Return a" "ps = map Return as" by (cases p) auto
      then show ?case by (intro exI [of _ "a # as"]) simp
    qed simp
    then obtain as where "ps = map Return as" using True by blast
    then have "mutex_run [] s = Some (map Return as, None, n, w)" using True s by simp
    then show ?thesis by blast
  next
    case False
    then obtain i s' where st: "mutex_step i s = Some s'" using mutex_progress 1(2) s by blast
    then obtain later as n' w' where "mutex_run later s' = Some (map Return as, None, n', w')"
      using 1(1) [of s'] mutex_step_inv [OF 1(2) st] by blast
    then have "mutex_run (i # later) s = Some (map Return as, None, n', w')" using st by simp
    then show ?thesis by blast
  qed
qed

text \<open>
  C13. The calls never block each other for good: wherever any number of publishes, unpublishes,
  passes of the sweep and resumes have got to under the node's mutex, from a state in which nobody
  has it, they can all go on until each has returned its answer and the mutex is free, and no order
  of their steps goes on for ever.
\<close>

theorem calls_end_under_the_mutex:
  assumes "mutex_run order (map code_of calls, None, n, w) = Some s"
  shows "(\<exists>later as n' w'. mutex_run later s = Some (map Return as, None, n', w') \<and> length as = length calls) \<and>
    (\<nexists>f. f 0 = s \<and> (\<forall>k. \<exists>i. mutex_step i (f k) = Some (f (Suc k))))"
proof
  have "lock_inv (map code_of calls, None, n, w)"
    by (rule lock_inv_start) (simp add: list_all_iff code_of_balanced)
  then obtain later as n' w' where r: "mutex_run later s = Some (map Return as, None, n', w')"
    using mutex_ends mutex_run_inv [OF assms] by blast
  moreover have "length as = length calls"
    using mutex_run_length [OF r] mutex_run_length [OF assms] by simp
  ultimately show "\<exists>later as n' w'. mutex_run later s = Some (map Return as, None, n', w') \<and> length as = length calls"
    by blast
  show "\<nexists>f. f 0 = s \<and> (\<forall>k. \<exists>i. mutex_step i (f k) = Some (f (Suc k)))"
    using wf_mutex_step unfolding wf_iff_no_infinite_down_chain by blast
qed

lemma calls_end_under_the_mutex_witness:
  "\<exists>s later as n' w'. mutex_run [0, 1, 0, 0, 1]
     (map code_of [PublishCall (sample_publish ''u1'' ''/t1''), SweepPass []], None, sample_node, sample_world) = None \<and>
   mutex_run [0, 0, 0] (map code_of [PublishCall (sample_publish ''u1'' ''/t1''), SweepPass []], None, sample_node, sample_world) =
     Some s \<and> mutex_run later s = Some (map Return as, None, n', w') \<and> length as = 2"
proof -
  let ?s = "(map code_of [PublishCall (sample_publish ''u1'' ''/t1''), SweepPass []], None, sample_node, sample_world)"
  have "mutex_run [0, 0, 0] ?s \<noteq> None" "mutex_run [0, 1, 0, 0, 1] ?s = None" by code_simp+
  then obtain s where s: "mutex_run [0, 0, 0] ?s = Some s" "mutex_run [0, 1, 0, 0, 1] ?s = None" by blast
  from calls_end_under_the_mutex [OF s(1)] s show ?thesis by fastforce
qed

subsection \<open>A call alone\<close>

text \<open>The run of one goroutine when nobody else wants the mutex.\<close>

inductive alone :: "code \<Rightarrow> node \<Rightarrow> world \<Rightarrow> answer \<Rightarrow> node \<Rightarrow> world \<Rightarrow> bool" where
  "alone (Return a) n w a n w"
| "alone c n w a n' w' \<Longrightarrow> alone (Lock c) n w a n' w'"
| "alone c n w a n' w' \<Longrightarrow> alone (Unlock c) n w a n' w'"
| "f n w = (c, n1, w1) \<Longrightarrow> alone c n1 w1 a n' w' \<Longrightarrow> alone (Do f) n w a n' w'"

inductive_simps alone_simps [simp]:
  "alone (Return b) n w a n' w'" "alone (Lock c) n w a n' w'" "alone (Unlock c) n w a n' w'"
  "alone (Do f) n w a n' w'"

lemma holder_alone [simp]: "alone (holder_code h k) n w a n' w' \<longleftrightarrow> alone (k (holder n h)) n w a n' w'"
  by (simp add: holder_code_def)

lemma reportVolumes_alone [simp]:
  "alone (reportVolumes_code k) n w a n' w' \<longleftrightarrow> alone k n (reportVolumes n w) a n' w'"
  by (simp add: reportVolumes_code_def reportVolumes_def)

lemma keepHold_alone [simp]:
  "alone (keepHold_code h t k) n w a n' w' \<longleftrightarrow> alone k (fst (keepHold n h t w)) (snd (keepHold n h t w)) a n' w'"
  by (auto simp: keepHold_code_def keepHold_def Let_def split: prod.splits option.splits)

lemma dropHold_alone [simp]:
  "alone (dropHold_code h k) n w a n' w' \<longleftrightarrow> alone k (fst (dropHold n h w)) (snd (dropHold n h w)) a n' w'"
  by (auto simp: dropHold_code_def dropHold_def Let_def split: prod.splits option.splits)

lemma resume_entries_alone:
  "alone (resume_entries_code hs k) n w a n' w' \<longleftrightarrow>
     alone k (fst (resume_entries hs n w)) (reportVolumes (fst (resume_entries hs n w)) (snd (resume_entries hs n w))) a n' w'"
proof (induction hs arbitrary: n w)
  case (Cons h hs)
  show ?case
    by (auto simp: resume_entry_def Cons.IH split: prod.splits sum.splits bool.splits)
qed simp

lemma sweep_handles_alone:
  "alone (sweep_handles_code named held hs) n w a n' w' \<longleftrightarrow>
     a = Inr () \<and> n' = n \<and> w' = sweep_handles n named held hs w"
proof (induction hs arbitrary: w)
  case (Cons h hs)
  show ?case
    unfolding sweep_handles_Cons [of n named held h hs] by (simp add: Cons.IH del: sweep_handles.simps)
qed auto

text \<open>A call alone is the handler, a pass alone is \<open>sweep\<close>, a resume alone is \<open>resume\<close>.\<close>

theorem alone_is_the_handler:
  "(alone (publish_code r) n w a n' w' \<longleftrightarrow> NodePublishVolume n r w = (a, n', w')) \<and>
   (alone (unpublish_code u) n w a n' w' \<longleftrightarrow> NodeUnpublishVolume n u w = (a, n', w')) \<and>
   (alone (sweep_code named) n w a n' w' \<longleftrightarrow> a = Inr () \<and> n' = n \<and> w' = sweep n named w) \<and>
   (alone (resume_code (Return (Inr ()))) n w a n' w' \<longleftrightarrow> a = Inr () \<and> resume n w = (n', w'))"
proof (intro conjI)
  show "alone (publish_code r) n w a n' w' \<longleftrightarrow> NodePublishVolume n r w = (a, n', w')"
    by (auto simp: publish_code_def NodePublishVolume_def Let_def split: option.splits prod.splits)
  show "alone (unpublish_code u) n w a n' w' \<longleftrightarrow> NodeUnpublishVolume n u w = (a, n', w')"
    by (auto simp: unpublish_code_def NodeUnpublishVolume_def Let_def split: option.splits prod.splits if_splits)
  show "alone (sweep_code named) n w a n' w' \<longleftrightarrow> a = Inr () \<and> n' = n \<and> w' = sweep n named w"
    by (auto simp: sweep_code_def heldHandles_code_def sweep_def sweep_handles_alone split: prod.splits)
  show "alone (resume_code (Return (Inr ()))) n w a n' w' \<longleftrightarrow> a = Inr () \<and> resume n w = (n', w')"
    by (auto simp: resume_code_def resume_def resume_entries_alone split: prod.splits sum.splits)
qed

subsection \<open>The gauge of the volumes\<close>

text \<open>
  \<open>reportVolumes\<close> reads the count under the mutex and sets the gauge after it, so two changes of
  the holds can set it in the wrong order: here two pods take two handles, and the gauge says one
  at the end.
\<close>

lemma gauge_of_an_older_count:
  "case mutex_run (replicate 6 0 @ replicate 8 1 @ [0, 0])
      ([keepHold_code ''a'' (hold_for (podOf (sample_context ''u1'')) ''/t1'') (Return (Inr ())),
        keepHold_code ''b'' (hold_for (podOf (sample_context ''u2'')) ''/t2'') (Return (Inr ()))],
       None, sample_node, sample_world) of
     None \<Rightarrow> False
   | Some (ps, owner, n, w) \<Rightarrow>
       list_all returned ps \<and> owner = None \<and> length (holds n) = 2 \<and> volumes_gauge (effects w) 0 = 1"
  by code_simp

end
