(* ===== verification/Recorded.thy ===== *)
theory Recorded
  imports System
begin

section \<open>The disk follows the memory\<close>

text \<open>
  A restart of the driver takes its holds from the disk. Here: where the kernel refuses nothing,
  every call leaves on the disk what it leaves in memory, so the premise \<open>recorded\<close> under which
  a restart was shown to keep the rule is one that the driver's own calls establish. And where
  the write of one hold is refused, and logged and nothing more, the rule goes with the next
  restart.
\<close>

fun on_disk :: "store \<Rightarrow> world \<Rightarrow> string \<Rightarrow> hold option \<Rightarrow> bool" where
  "on_disk s w h None = (fs w (hold_place s h) = None)"
| "on_disk s w h (Some k) =
     (utf8_hold k \<and> (\<exists>m. fs w (hold_place s h) = Some (Reg m (json_Marshal k))))"

lemma recorded_iff: "recorded n w \<longleftrightarrow> (\<forall>h. on_disk (node_store n) w h (holder n h))"
proof -
  have "on_disk (node_store n) w h (holder n h) \<longleftrightarrow> recorded_at n w h" for h
    by (cases "holder n h") (simp_all add: recorded_at_def)
  then show ?thesis by (simp add: recorded_def)
qed

lemma on_disk_cong:
  "fs w' (hold_place s h) = fs w (hold_place s h) \<Longrightarrow> on_disk s w' h ko = on_disk s w h ko"
  by (cases ko) simp_all

lemma recorded_cong:
  assumes "node_store n' = node_store n" "holds n' = holds n"
    and "\<And>h. fs w' (hold_place (node_store n) h) = fs w (hold_place (node_store n) h)"
  shows "recorded n' w' = recorded n w"
  using assms on_disk_cong [of w' "node_store n" _ w] by (simp add: recorded_iff holder_def)

lemma recorded_free:
  assumes "recorded n w"
  shows "\<not> dir_at w (hold_place (node_store n) h)" "fs w (hold_place (node_store n) h) \<noteq> Some (Special m)"
proof -
  have "on_disk (node_store n) w h (holder n h)" using assms by (simp add: recorded_iff)
  then show "\<not> dir_at w (hold_place (node_store n) h)" "fs w (hold_place (node_store n) h) \<noteq> Some (Special m)"
    by (cases "holder n h"; auto simp: dir_at_iff)+
qed

lemma holds_not_up: "\<not> prefix (holds_place s) t \<Longrightarrow> \<not> prefix (hold_place s h) t"
  by (auto simp: hold_place_def dest: append_prefixD)

lemma prefix_hold_place [simp]: "prefix (hold_place s h) (hold_place s h') \<longleftrightarrow> h = h'"
  by (auto simp: hold_place_def)

lemma recorded_keeps:
  assumes "recorded n w" "node_store n' = node_store n"
    and "\<And>h'. h' \<noteq> h \<Longrightarrow> holder n' h' = holder n h'"
    and "\<And>h'. h' \<noteq> h \<Longrightarrow> fs w' (hold_place (node_store n) h') = fs w (hold_place (node_store n) h')"
    and "on_disk (node_store n) w' h (holder n' h)"
  shows "recorded n' w'"
  unfolding recorded_iff
proof
  fix h'
  show "on_disk (node_store n') w' h' (holder n' h')"
    using assms on_disk_cong [of w' "node_store n" h' w] by (cases "h' = h") (auto simp: recorded_iff)
qed

lemma publish_recorded:
  assumes "recorded n w" "healthy w" "wf_tree w" "bind_kernel (mounts n)"
    and call: "NodePublishVolume n r w = (a, n', w')"
    and utf8: "utf8_hold (hold_for (podOf (publish_VolumeContext r)) (publish_TargetPath r))"
    and way: "clear_way w (holds_place (node_store n))"
    and out: "\<not> prefix (holds_place (node_store n)) (locate (publish_TargetPath r))"
  shows "recorded n' w'"
proof -
  let ?h = "publish_VolumeId r" and ?s = "node_store n"
  have mount: "\<forall>h. fs w1 (hold_place ?s h) = fs w (hold_place ?s h)"
    if "node_mount n r ?h (publish_TargetPath r) w = (e, w1)" "may_mount n r" for e w1
    using node_mount_facts(5) [OF that(1) may_mount_plain [OF that(2)] assms(4)] holds_not_up [OF out]
      hold_not_below_copy [of ?s _ ?h "[]"] by simp
  show ?thesis
  proof (cases rule: publish_cases [where r = r and n = n and w = w])
    case (failed err w1)
    then show ?thesis
      using assms(1) call mount [OF failed(2,1)] recorded_cong [of n' n w' w]
      by (auto simp: publish_mount_failed [OF failed] mountFailed_def)
  next
    case (mounted w1 n2 w2)
    note p = may_mount_plain [OF mounted(1)]
    note M = node_mount_facts [OF mounted(2) p assms(4)] and K = keepHold_facts [OF mounted(3) p]
    have e: "n' = n2" "fs w' = fs w2" using call by (auto simp: publish_mounted [OF mounted])
    have len: "length ?h \<le> 255" using mounted(1) checked_length [of ?h] by (auto simp: may_mount_def)
    have disk: "\<exists>d. fs w2 (hold_place ?s ?h) =
        Some (Reg d (json_Marshal (hold_for (podOf (publish_VolumeContext r)) (publish_TargetPath r))))"
      using keepHold_healthy [OF onwardD(1) [OF M(1) assms(2)] M(2) [OF assms(3)] p
          clear_way_only_makes_dirs [OF M(4) way] len _ _ mounted(3)]
        recorded_free [OF assms(1), of ?h] mount [OF mounted(2,1)] by (simp add: dir_at_def)
    have same: "fs w' (hold_place ?s h') = fs w (hold_place ?s h')" if "h' \<noteq> ?h" for h'
      using K(5) [of "hold_place ?s h'"] mount [OF mounted(2,1)] that e(2) by simp
    show ?thesis
      using K(1) disk utf8 e same
      by (intro recorded_keeps [OF assms(1), of n' ?h w']) (simp_all add: holder_def update_conv')
  qed (use assms(1) call in \<open>auto simp: publish_branches intro: recorded_cong [THEN iffD2]\<close>)
qed

lemma unpublish_recorded:
  assumes "recorded n w" "healthy w" "bind_kernel (mounts n)" "checkHandle (unpublish_VolumeId r) = None"
    and call: "NodeUnpublishVolume n r w = (a, n', w')"
    and free: "no_mount_below w (holds_place (node_store n))"
    and out: "\<not> prefix (holds_place (node_store n)) (locate (unpublish_TargetPath r))"
  shows "recorded n' w'"
proof -
  let ?h = "unpublish_VolumeId r" and ?s = "node_store n" and ?t = "locate (unpublish_TargetPath r)"
  have h: "locate (holdPath ?s ?h) = hold_place ?s ?h"
    using checked_plain [OF assms(4)] by (rule locate_holdPath)
  have not_t: "hold_place ?s x \<noteq> ?t" for x using out by (metis hold_place_def prefixI)
  have hold_below: "prefix (holds_place ?s) (hold_place ?s ?h)" by (simp add: hold_place_def)
  have rm: "fs w2 (hold_place ?s x) = fs w (hold_place ?s x)" "healthy w2" "mtab w2 = mtab w1" "mounted_at w2 = mounted_at w1"
    if "unbind (mounts n) (unpublish_TargetPath r) w = (None, w1)"
      "os_Remove (unpublish_TargetPath r) w1 = (removed, w2)" for removed w1 w2 x
    using only_mtabD(2,10) [OF bind_kernel.unbind_frame [OF assms(3) that(1)]] assms(2)
      only_fsD(1,6,7) [OF os_Remove_only_fs [OF that(2)]] not_t [of x] that(2)
    by (cases removed; auto dest!: os_Remove_None os_Remove_Some dest: fs_cong)+
  show ?thesis
    using call
  proof (cases rule: unpublish_cases)
    case (still_mounted err)
    then show ?thesis
      using assms(1) only_mtabD(2) [OF bind_kernel.unbind_frame [OF assms(3) still_mounted(3)]]
        recorded_cong [of n' n w' w] by simp
  next
    case (not_removed err w1)
    then show ?thesis using assms(1) rm(1) [OF not_removed(3,4)] recorded_cong [of n' n w' w] by simp
  next
    case (hold_kept w1 w2 removed)
    then show ?thesis
      using assms(1) rm(1) [OF hold_kept(3,4)] recorded_cong [of n' n w' w] only_effectsD(1) [OF hold_kept(9)]
      by (auto dest: fs_cong)
  next
    case (hold_dropped w1 w2 w3 removed)
    note D = dropHold_facts [OF hold_dropped(7)]
    have fw: "fs w' = fs w3" using only_effectsD(1) [OF hold_dropped(9)] by (auto dest: fs_cong)
    have "fs w3 (hold_place ?s ?h) = None"
    proof (cases "fs w (hold_place ?s ?h)")
      case None
      then show ?thesis using D(6) [of "hold_place ?s ?h"] rm(1) [OF hold_dropped(3,4)] by auto
    next
      case (Some i)
      let ?n = "n\<lparr>holds := AList.delete ?h (holds n)\<rparr>"
      obtain e w4 where o: "os_Remove (holdPath ?s ?h) (reportVolumes ?n w2) = (e, w4)" by fastforce
      have table: "mtab w1 = mtab w \<or> mtab w1 = cleared ?t w"
        using bind_kernel.unbind_done [OF assms(3) hold_dropped(3)] by (simp add: cleared_def)
      have "\<not> mounted_at w2 (hold_place ?s ?h)"
      proof -
        have "set (mtab w2) \<subseteq> set (mtab w)"
          using table cleared_subset [of ?t w] rm(3) [OF hold_dropped(3,4)] by auto
        then show ?thesis
          using free hold_below by (auto simp: mounted_at_def no_mount_below_def list_all_iff)
      qed
      moreover have "fs w2 (hold_place ?s ?h) = Some i" "\<not> dir_at w2 (hold_place ?s ?h)"
        using rm(1) [OF hold_dropped(3,4), of ?h] Some recorded_free(1) [OF assms(1), of ?h] by (simp_all add: dir_at_def)
      ultimately have "e = None"
        using os_Remove_healthy [of "reportVolumes ?n w2" "holdPath ?s ?h"] rm(2) [OF hold_dropped(3,4)] o
        by (auto simp: h)
      with o have "fs w4 (hold_place ?s ?h) = None" using os_Remove_None [of "holdPath ?s ?h"] h by auto
      moreover have "w3 = w4" using hold_dropped(7) o \<open>e = None\<close> by (simp add: dropHold_def Let_def)
      ultimately show ?thesis by simp
    qed
    moreover have "fs w' (hold_place ?s x) = fs w (hold_place ?s x)" if "x \<noteq> ?h" for x
      using D(5) [of "hold_place ?s x"] rm(1) [OF hold_dropped(3,4)] that h fw by simp
    ultimately show ?thesis
      using D(1) fw by (intro recorded_keeps [OF assms(1), of n' ?h w']) (simp_all add: holder_def delete_conv')
  qed (use assms(1) in simp)
qed

lemma sweep_recorded:
  assumes "recorded n w" "plain_copies (node_store n) w"
  shows "recorded n (sweep n named w)"
proof -
  obtain hs w1 where l: "handles (node_store n) w = (hs, w1)" by fastforce
  have "fs (sweep_handles n named (heldHandles n) hs w1) (hold_place (node_store n) h) =
      fs w1 (hold_place (node_store n) h)" for h
    using sweep_handles_facts(4) [OF handles_plain [OF l assms(2)]] copy_not_below_hold by blast
  then show ?thesis
    using assms(1) l readsD(1) [OF handles_reads [OF l]] recorded_cong [of n n "sweep n named w" w]
    by (simp add: sweep_def Let_def)
qed



section \<open>Where the write of a hold is refused\<close>

text \<open>
  C18. The rule of one pod per handle does not outlive a write of the hold that the kernel refused
  and the driver only logged. A publish of a free handle answered with success and left no file
  of the hold; from then on the kernel refuses nothing. A driver that starts then, in front of a
  mount table that shows the pod's mount, does not know the hold, and a publish of the same
  handle at another target, whichever pod it is for, is answered with success: the copy is mounted
  at both targets.
\<close>

theorem unwritten_hold_lets_a_second_pod_in:
  assumes "NodePublishVolume n r w = (Inr (), n1, w1)" "holder n (publish_VolumeId r) = None"
    and "answering_kernel (mounts n)"
    and "fs w1 (hold_place (node_store n) (publish_VolumeId r)) = None"
    and "healthy w1" "wf_tree w1" "proc_table row" "readable_table row (mtab w1)" "plain_holds (node_store n) w1"
    and "resume (newNode (mounts n) row statfs (nodeID n) (root (node_store n)) posting) w1 = (n2, w2)"
    and "publish_VolumeId r' = publish_VolumeId r" "publish_TargetPath r' \<noteq> ''''"
    and "locate (publish_TargetPath r') \<noteq> locate (publish_TargetPath r)"
    and "\<not> mounted_at w1 (locate (publish_TargetPath r'))" "clear_way w1 (locate (publish_TargetPath r'))"
    and "clear_way w1 (copy_place (node_store n) (publish_VolumeId r))"
  shows "\<exists>n3 w3. NodePublishVolume n2 r' w2 = (Inr (), n3, w3) \<and>
    holder n3 (publish_VolumeId r) = Some (hold_for (podOf (publish_VolumeContext r')) (publish_TargetPath r')) \<and>
    (\<exists>m m'. {m, m'} \<subseteq> set (mtab w3) \<and> mnt_point m = locate (publish_TargetPath r) \<and>
       mnt_point m' = locate (publish_TargetPath r') \<and>
       mnt_source m = copy_place (node_store n) (publish_VolumeId r) \<and> mnt_source m' = mnt_source m)"
proof -
  let ?h = "publish_VolumeId r" and ?t' = "publish_TargetPath r'" and ?s = "node_store n"
  let ?f = "newNode (mounts n) row statfs (nodeID n) (root ?s) posting"
  let ?m = "\<lparr>mnt_point = locate (publish_TargetPath r), mnt_source = copy_place ?s ?h, mnt_ro = publish_Readonly r\<rparr>"
  have b: "bind_kernel (mounts n)" using assms(3) by (simp add: answering_kernel_def)
  have first: "may_mount n r" "?m \<in> set (mtab w1)"
    using b assms(1) by (cases rule: granted_cases; use assms(2) in simp)+
  note F = restart_frame [OF assms(10)]
  have s: "node_store ?f = ?s" "holds ?f = []" by (simp_all add: newNode_def newStore_def)
  note R = resume_healthy [OF assms(5,6) _ newNode_asks_kernel [OF assms(7,8)] s(2) assms(10), unfolded s(1), OF assms(9)]
  have n2: "holder n2 ?h = None" using R(1) [of ?h] assms(4) by (simp add: standing_def)
  have p: "plain_name ?h" using first(1) by (rule may_mount_plain)
  have may: "may_mount n2 r'" using first(1) assms(11,12) n2 by (simp add: may_mount_def)
  have w2: "wf_tree w2" "fs w2 q = fs w1 q \<or> fs w2 q = None" for q
    using F(5) assms(6) by (auto simp: only_removes_def)
  note way = clear_way_fewer [OF w2(2)]
  obtain w3 where m: "node_mount n2 r' ?h ?t' w2 = (None, w3)"
    using node_mount_healthy [of n2 w2 ?h ?t' r'] assms(3,12) R(4) w2(1) p way [OF assms(15)] way [OF assms(16)] F(2,3)
    by auto
  let ?k = "hold_for (podOf (publish_VolumeContext r')) ?t'"
  obtain n3 w4 where k: "keepHold n2 ?h ?k w3 = (n3, w4)" by fastforce
  have b2: "bind_kernel (mounts n2)" using b F(3) by simp
  have "\<not> mounted_at w2 (locate ?t')" using assms(14) F(1) by (simp add: mounted_at_def)
  then have t3: "mtab w3 = \<lparr>mnt_point = locate ?t', mnt_source = copy_place ?s ?h, mnt_ro = publish_Readonly r'\<rparr> # mtab w1"
    using node_mount_done(1) [OF m p b2] F(1,2) by simp
  note K = keepHold_facts(1,3) [OF k p]
  let ?w = "emit (Logged LogInfo ''published'' [(''volume'', Str ?h), (''target'', Str ?t')]) w4"
  have "NodePublishVolume n2 r' w2 = (Inr (), n3, ?w)"
    using publish_mounted [OF may, of w2 w3 n3 w4] m k assms(11) by simp
  moreover have "holder n3 ?h = Some ?k" using K(1) by (simp add: holder_def update_conv')
  moreover have "mtab ?w = mtab w3" using K(2) by simp
  moreover have "\<exists>m m'. {m, m'} \<subseteq> set (mtab w3) \<and> mnt_point m = locate (publish_TargetPath r) \<and>
      mnt_point m' = locate ?t' \<and> mnt_source m = copy_place ?s ?h \<and> mnt_source m' = mnt_source m"
    using t3 first(2)
    by (intro exI [of _ ?m] exI [of _ "\<lparr>mnt_point = locate ?t', mnt_source = copy_place ?s ?h,
        mnt_ro = publish_Readonly r'\<rparr>"]) simp
  ultimately show ?thesis by metis
qed

lemma unwritten_hold_lets_a_second_pod_in_witness:
  "let (a, n1, w1) = NodePublishVolume sample_node (sample_publish ''u1'' ''/t1'')
         (sample_world\<lparr>faults := replicate 15 None @ [Some (EIO, 0)]\<rparr>);
       (n2, w2) = resume (newNode linux_calls linux_row sample_statfs ''worker-1'' ''/store'' (node_events sample_node)) w1;
       (b, n3, w3) = NodePublishVolume n2 (sample_publish ''u2'' ''/t2'') w2
   in a = Inr () \<and> b = Inr () \<and> (\<exists>m m'. {m, m'} \<subseteq> set (mtab w3) \<and> mnt_point m = [''t1''] \<and>
     mnt_point m' = [''t2''] \<and> mnt_source m' = mnt_source m)"
proof -
  let ?w = "sample_world\<lparr>faults := replicate 15 None @ [Some (EIO, 0)]\<rparr>"
  let ?f = "newNode linux_calls linux_row sample_statfs ''worker-1'' ''/store'' (node_events sample_node)"
  have e: "case NodePublishVolume sample_node (sample_publish ''u1'' ''/t1'') ?w of (a, n1, w1) \<Rightarrow>
      a = Inr () \<and> fs w1 [''store'', ''holds'', ''data''] = None \<and> healthy w1 \<and> wf_tree w1 \<and>
      mtab w1 = [\<lparr>mnt_point = [''t1''], mnt_source = [''store'', ''copies'', ''data''], mnt_ro = False\<rparr>] \<and>
      plain_holds \<lparr>root = ''/store''\<rparr> w1 \<and> clear_way w1 [''t2''] \<and> clear_way w1 [''store'', ''copies'', ''data'']"
    by code_simp
  then obtain n1 w1 where p: "NodePublishVolume sample_node (sample_publish ''u1'' ''/t1'') ?w = (Inr (), n1, w1)"
    and f: "fs w1 [''store'', ''holds'', ''data''] = None" "healthy w1" "wf_tree w1"
      "mtab w1 = [\<lparr>mnt_point = [''t1''], mnt_source = [''store'', ''copies'', ''data''], mnt_ro = False\<rparr>]"
      "plain_holds \<lparr>root = ''/store''\<rparr> w1" "clear_way w1 [''t2'']" "clear_way w1 [''store'', ''copies'', ''data'']"
    by (auto split: prod.splits)
  obtain n2 w2 where r: "resume ?f w1 = (n2, w2)" by fastforce
  have l: "locate ''/t1'' = [''t1'']" "locate ''/t2'' = [''t2'']" "holder sample_node ''data'' = None"
    "hold_place \<lparr>root = ''/store''\<rparr> ''data'' = [''store'', ''holds'', ''data'']"
    "copy_place \<lparr>root = ''/store''\<rparr> ''data'' = [''store'', ''copies'', ''data'']"
    "nodeID sample_node = ''worker-1''"
    by code_simp+
  have table: "readable_table linux_row (mtab w1)" using sample_table by (simp only: f(4))
  let ?r' = "sample_publish ''u2'' ''/t2''"
  have k: "answering_kernel (mounts sample_node)" "holder sample_node (publish_VolumeId (sample_publish ''u1'' ''/t1'')) = None"
    "fs w1 (hold_place (node_store sample_node) (publish_VolumeId (sample_publish ''u1'' ''/t1''))) = None"
    "plain_holds (node_store sample_node) w1"
    "resume (newNode (mounts sample_node) linux_row sample_statfs (nodeID sample_node)
      (root (node_store sample_node)) (node_events sample_node)) w1 = (n2, w2)"
    using l(3,4,6) f(1,5) r by (simp_all add: la.answering_kernel_axioms)
  have t: "publish_VolumeId ?r' = publish_VolumeId (sample_publish ''u1'' ''/t1'')" "publish_TargetPath ?r' \<noteq> ''''"
    "locate (publish_TargetPath ?r') \<noteq> locate (publish_TargetPath (sample_publish ''u1'' ''/t1''))"
    "\<not> mounted_at w1 (locate (publish_TargetPath ?r'))" "clear_way w1 (locate (publish_TargetPath ?r'))"
    "clear_way w1 (copy_place (node_store sample_node) (publish_VolumeId (sample_publish ''u1'' ''/t1'')))"
    using l f(4,6,7) by (simp_all add: mounted_at_def)
  from unwritten_hold_lets_a_second_pod_in [OF p k(2,1,3) f(2,3) lr.proc_table_axioms table k(4,5) t]
  obtain n3 w3 m m' where q: "NodePublishVolume n2 ?r' w2 = (Inr (), n3, w3)" "{m, m'} \<subseteq> set (mtab w3)"
    "mnt_point m = [''t1'']" "mnt_point m' = [''t2'']" "mnt_source m' = mnt_source m"
    using l(1,2) by auto
  show ?thesis unfolding Let_def p r q(1) prod.case using q(2-5) by blast
qed

end
