(* ===== verification/Spec2Isabelle.thy ===== *)
theory Spec2Isabelle
  imports Run Registry Races Locks Recorded
begin

text \<open>
  A verification library for the per-node CSI driver: the program of the Go files at the root of
  the repository, which binds a node's own copy of a volume to one pod at a time.

  \<^bold>\<open>The program.\<close> The kubelet calls the driver over a Unix socket. A publish
  (\<open>NodePublishVolume\<close>) makes the copy of a volume handle on this node, binds it onto the pod's
  target and records a hold, in memory and as a JSON file; an unpublish takes the mount, the
  target and the hold away and never a copy. A driver that starts rebuilds the holds from the
  files and the kernel's mount table (\<open>resume\<close>). A loop follows the PersistentVolumes of the
  cluster and removes the copies that none of them names and no pod holds (\<open>sweep\<close>). Refusals
  are posted as Events, and every call, volume, copy and failure is read off a metrics registry.

  \<^bold>\<open>The world.\<close> Whatever is outside the process is one record, \<open>World.world\<close>: the file
  tree, the mount table, the queue of refusals the kernel will answer system calls with, the API
  server's answers, the umask, the clock, and the effects (log lines, Events, metric updates) in
  order. A function of the model takes a world and returns one. A theorem about every world is
  therefore about every pattern of failing system calls; \<open>healthy\<close> is the world in which none
  is refused. \<open>wf_tree\<close> is a tree as a kernel keeps it.

  \<^bold>\<open>Theories.\<close>
  \<^item> \<open>Prelude\<close>, \<open>Go_Errors\<close>, \<open>Go_Regexp\<close>, \<open>Go_Filepath\<close>, \<open>Go_Os\<close>,
    \<open>Go_Flag\<close>: what the code uses of Go's standard library. \<open>Os_Facts\<close> and
    \<open>Os_Remove\<close> hold the frames and results of the file operations.
  \<^item> \<open>Handle\<close> (\<open>handle.go\<close>): \<open>checkHandle\<close> is equal to the reference definition of a
    DNS-1123 subdomain name.
  \<^item> \<open>Store\<close> (\<open>store.go\<close>): the paths of copies and holds, \<open>makeCopy\<close>, \<open>handles\<close>,
    \<open>removeCopy\<close>, \<open>copySize\<close> with its \<open>int64\<close> sum, \<open>spaceOf\<close>.
  \<^item> \<open>Bind_Mount\<close> (\<open>mount.go\<close>): the binds over any \<open>mountSyscalls\<close>. The locales
    \<open>bind_kernel\<close>, \<open>detaching_kernel\<close> and \<open>answering_kernel\<close> state what the driver relies
    on mount(2) and umount2(2) for, and are interpreted on a kernel over the world's table.
  \<^item> \<open>Mountinfo\<close>, \<open>Hold_Json\<close> (\<open>holds.go\<close>): reading \<open>/proc/self/mountinfo\<close> (locale
    \<open>proc_table\<close>), and the hold's JSON in both directions.
  \<^item> \<open>Metrics\<close>, \<open>Registry\<close> (\<open>metrics.go\<close>): the updates and what a registry reads after
    them; the metrics with their names and labels, and the handler.
  \<^item> \<open>Events\<close> (\<open>events.go\<close>): the Event made of a refusal and its posting.
  \<^item> \<open>Node\<close> (\<open>node.go\<close>, \<open>holds.go\<close>): the record \<open>node\<close> and every handler and operation
    on the holds. \<open>Node_Facts\<close> holds the facts of the operations; \<open>Node_Service\<close> the
    properties of a publish, \<open>Node_Release\<close> of an unpublish and of the stats with the bounds of
    their 64-bit numbers,
    \<open>Node_Restart\<close> of \<open>resume\<close>.
  \<^item> \<open>Sweep\<close>, \<open>Follow\<close> (\<open>sweep.go\<close>): one pass; the loop with its informer, ticker and
    one-slot channels as a machine of enabled steps with its invariant. The informer hands over
    the first list object by object, and an object under a name that it knows as an update,
    whatever handle it has, so a volume deleted and created again while no watch was open is
    among its runs.
  \<^item> \<open>Identity\<close> (\<open>identity.go\<close>): the three calls and the probe of the store.
  \<^item> \<open>System\<close>: the composition. Its specification is a table of grants, handle to pod. The
    kubelet's calls, passes, probes, restarts and anything else on the node are steps of one
    machine; each is a step of the table with the same label (a simulation under the invariant
    \<open>sys_inv\<close>, proved in the locale \<open>kubelet\<close>, which gives every pod its own target). A
    restart can happen in every state. Where calls are refused to it, the mount table cannot be
    read, or the file of a hold does not say what the memory said, the driver may lose track of
    the handle: the label of the restart names it, its grant is \<open>Astray\<close>, and the invariant and
    the table promise nothing for it from then on. An \<open>orderly\<close> restart loses track of nothing.
  \<^item> \<open>Recorded\<close>: the driver's own calls establish the premise under which a restart was
    shown to keep the rule, that the disk says what the memory says; and a write of a hold that is
    refused, which the driver only logs, lets a second pod in after the next restart.
  \<^item> \<open>Interleave\<close>: calls that overlap. A publish, an unpublish and a pass are cut where the
    code lets go of the node's mutex, the stats and a probe between their system calls; a process
    whose steps run alone is the handler's own run.
  \<^item> \<open>Schedules\<close>: what every schedule keeps. A copy that every pass finds named keeps its
    files, and a pod that holds a handle stays its holder and keeps the others out of it.
  \<^item> \<open>Locks\<close>: the mutex itself. Publishes, unpublishes, passes and \<open>resume\<close> as the code a
    goroutine still has to run, with every lock and unlock a step that waits while another
    goroutine has the mutex. From wherever they have got to the calls can go on until all have
    answered, no order of steps is endless, and a call that runs alone is the handler of \<open>Node\<close>.
    A run in which the gauge of the volumes ends with an older count is evaluated there.
  \<^item> \<open>Races\<close>: what a schedule can break. Two pods that publish a free handle at once are both
    let in, and a pass that read the holds too early removes a copy that has just been mounted.
    Two runs are evaluated there: a pod with two targets, and a gauge that outlives its copy.
  \<^item> \<open>Server\<close>, \<open>Start\<close> (\<open>server.go\<close>): \<open>newServer\<close> with each of its failures, \<open>serve\<close>,
    the interceptors and the registered calls; what a start touches and when it succeeds.
  \<^item> \<open>Cli\<close>, \<open>Run\<close> (\<open>cli.go\<close>, \<open>main.go\<close>): the flags, the configuration, and the exit
    code of a run.

  \<^bold>\<open>Bounds and fuel.\<close> Three functions take fuel. \<open>duration_terms\<close> has the length of its
  text, and each term uses up a byte. \<open>create_temp\<close> has Go's own limit of 10000 tries, and
  \<open>json_value\<close> Go's own limit of 10000 levels; past either the code fails too. Every other
  function is total by structural recursion or a measure. Sizes and statistics are 64-bit words,
  modes and flags words of their width; gauges are integers rounded as a \<open>float64\<close> is.

  \<^bold>\<open>Parameters.\<close> What is no code of the repository is an argument: the two mount calls, the
  lines of the mount table, statfs(2), the random part of a probe's file name, client-go's
  configuration and client, the TCP listener, what gRPC's \<open>Serve\<close> returns, the build's version,
  how long a call takes, and the collectors of the Prometheus client library. The locales and
  premises that constrain them state documented behaviour.

  \<^bold>\<open>Not modelled.\<close> The transport of gRPC and HTTP and the encoding of their messages; the
  text of a log line, of the usage message and of the metrics; client-go's reflector, beyond the
  order in which it changes the cache and calls the handler; symbolic links, permissions and
  mounts over the store in the file tree; the check of a metric's name by the client library,
  since the names are constants; the process's own end by a signal, which is the end of the
  context. In \<open>Interleave\<close> and \<open>Locks\<close> the mount, the walk of a copy and the write of a hold are
  one step each, and the start and the end of the process are not among the steps, apart from
  \<open>resume\<close> in \<open>Locks\<close>; a system call there always returns.
\<close>

end
